(* ===== verification/Prelude.thy ===== *)
theory Prelude
  imports Main "HOL-Library.Word"
begin

text \<open>
  Shared vocabulary of the development: the byte strings the C++ code reads and writes, the
  fixed-width integers as they appear in a file or on a socket, the exceptions of the standard
  library the sources rely on, and the generic list facts the components share.

  A C++ \<open>char\<close> is a byte, so \<open>std::string\<close> and \<open>std::vector<char>\<close> are both modelled by
  HOL's \<open>char list\<close>: HOL's \<open>char\<close> has exactly 256 elements.  A C++ \<open>int\<close> that is only
  counted with is a HOL \<open>int\<close>; where the binary layout matters (files, snapshot streams) it is
  squeezed into its 32 bits by the encoders below.
\<close>

named_theorems codec_simps \<open>round-trip equations of the binary encoders\<close>
named_theorems frame_simps \<open>fields an operation leaves alone\<close>

type_synonym bytes = "char list"

text \<open>Exceptions the sources can raise or let escape.\<close>

datatype cpp_exn =
    Length_Error              \<comment> \<open>\<open>std::length_error\<close> / \<open>std::bad_alloc\<close> of a \<open>resize\<close>\<close>
  | Runtime_Error string      \<comment> \<open>\<open>std::runtime_error\<close> with its message\<close>
  | Json_Error                \<comment> \<open>\<open>nlohmann::json::exception\<close>\<close>
  | Invalid_Argument          \<comment> \<open>\<open>std::invalid_argument\<close> of \<open>std::stoi\<close>\<close>
  | Out_Of_Range              \<comment> \<open>\<open>std::out_of_range\<close> of \<open>std::stoi\<close>\<close>

section \<open>Little-endian integers\<close>

text \<open>
  \<open>oss.write((char *)&x, sizeof(x))\<close> on the little-endian targets the project builds for.
\<close>

fun le_bytes :: "nat \<Rightarrow> nat \<Rightarrow> bytes" where
  "le_bytes 0 n = []"
| "le_bytes (Suc k) n = char_of (n mod 256) # le_bytes k (n div 256)"

fun le_nat :: "bytes \<Rightarrow> nat" where
  "le_nat [] = 0"
| "le_nat (c # cs) = of_char c + 256 * le_nat cs"

lemma length_le_bytes [simp]: "length (le_bytes k n) = k"
  by (induction k arbitrary: n) auto

lemma le_nat_le_bytes [codec_simps]: "le_nat (le_bytes k n) = n mod 256 ^ k"
proof (induction k arbitrary: n)
  case 0
  then show ?case by simp
next
  case (Suc k)
  have "le_nat (le_bytes (Suc k) n) = n mod 256 + 256 * (n div 256 mod 256 ^ k)"
    using Suc.IH by simp
  also have "\<dots> = n mod (256 * 256 ^ k)"
    by (simp add: mod_mult2_eq)
  finally show ?case by simp
qed

lemma le_nat_bound: "le_nat cs < 256 ^ length cs"
proof (induction cs)
  case (Cons c cs)
  have "of_char c < (256::nat)" by simp
  with Cons.IH have "of_char c + 256 * le_nat cs < 256 * 256 ^ length cs" by linarith
  then show ?case by simp
qed simp

lemma le_bytes_le_nat [codec_simps]: "le_bytes (length cs) (le_nat cs) = cs"
  by (induction cs) simp_all

text \<open>A signed 32-bit value: two's complement, four bytes.\<close>

definition int32_bytes :: "int \<Rightarrow> bytes" where
  "int32_bytes x = le_bytes 4 (nat (x mod 2 ^ 32))"

definition int32_of :: "bytes \<Rightarrow> int" where
  "int32_of cs = (let n = int (le_nat cs) in if n < 2 ^ 31 then n else n - 2 ^ 32)"

definition int32_range :: "int \<Rightarrow> bool" where
  "int32_range x \<longleftrightarrow> - (2 ^ 31) \<le> x \<and> x < 2 ^ 31"

lemma length_int32_bytes [simp]: "length (int32_bytes x) = 4"
  by (simp add: int32_bytes_def)

lemma int32_round_trip [codec_simps]:
  assumes "int32_range x"
  shows "int32_of (int32_bytes x) = x"
proof -
  have "int (nat (x mod 2 ^ 32)) = x mod 2 ^ 32" by simp
  then have n: "int (le_nat (int32_bytes x)) = x mod 2 ^ 32"
    by (simp add: int32_bytes_def le_nat_le_bytes nat_mod_distrib)
  show ?thesis
  proof (cases "0 \<le> x")
    case True
    with assms have "x mod 2 ^ 32 = x" by (simp add: int32_range_def)
    with n assms True show ?thesis by (simp add: int32_of_def int32_range_def)
  next
    case False
    with assms have "x mod 2 ^ 32 = (x + 2 ^ 32) mod 2 ^ 32" by simp
    also have "\<dots> = x + 2 ^ 32"
      using assms False by (intro mod_pos_pos_trivial) (auto simp: int32_range_def)
    finally have "x mod 2 ^ 32 = x + 2 ^ 32" .
    with n assms False show ?thesis by (simp add: int32_of_def int32_range_def)
  qed
qed

text \<open>An unsigned 64-bit value, eight bytes.\<close>

definition u64_bytes :: "64 word \<Rightarrow> bytes" where
  "u64_bytes w = le_bytes 8 (unat w)"

definition u64_of :: "bytes \<Rightarrow> 64 word" where
  "u64_of cs = word_of_nat (le_nat cs)"

lemma length_u64_bytes [simp]: "length (u64_bytes w) = 8"
  by (simp add: u64_bytes_def)

lemma u64_round_trip [codec_simps]: "u64_of (u64_bytes w) = w"
proof -
  have "unat w < 2 ^ LENGTH(64)" by (rule unsigned_less)
  then have "unat w < 256 ^ 8" by simp
  then show ?thesis by (simp add: u64_of_def u64_bytes_def le_nat_le_bytes)
qed

section \<open>Reading from a byte stream\<close>

text \<open>
  \<open>is.read(p, n)\<close> on a stream whose unread part is \<open>bs\<close>: \<open>None\<close> is the failed state (fewer
  than \<open>n\<close> bytes were left), otherwise the bytes read and the rest.
\<close>

definition read_n :: "nat \<Rightarrow> bytes \<Rightarrow> (bytes \<times> bytes) option" where
  "read_n n bs = (if n \<le> length bs then Some (take n bs, drop n bs) else None)"

lemma read_n_append [simp]: "length xs = n \<Longrightarrow> read_n n (xs @ ys) = Some (xs, ys)"
  by (simp add: read_n_def)

lemma read_n_short [simp]: "length bs < n \<Longrightarrow> read_n n bs = None"
  by (simp add: read_n_def)

lemma read_n_length: "read_n n bs = Some (xs, rest) \<Longrightarrow> length bs = n + length rest"
  by (auto simp: read_n_def split: if_splits)

end
