(* ===== verification/Base64.thy ===== *)
theory Base64
  imports Prelude
begin

text \<open>
  \<open>decode_encodebase64.cpp\<close>: the base64 codec that carries snapshot chunks inside JSON.

  The accumulator \<open>val\<close> is a C++ \<open>int\<close>; it is never reduced, so after four bytes the shifted
  value no longer fits.  It is kept here as a \<open>32 word\<close> (two's complement, wrapping, with the
  arithmetic right shift), which is what the supported compilers generate.  The theorems show
  that the wrap-around never reaches a bit that is read.
\<close>

unbundle bit_operations_syntax

section \<open>Definitions\<close>

definition base64_chars :: bytes where
  "base64_chars =
     ''ABCDEFGHIJKLMNOPQRSTUVWXYZ'' @ ''abcdefghijklmnopqrstuvwxyz'' @ ''0123456789+/''"

text \<open>The table \<open>T\<close>: 256 entries \<open>-1\<close>, then one assignment per alphabet character.\<close>

definition base64_table :: "int list" where
  "base64_table =
     fold (\<lambda>i T. T[of_char (base64_chars ! i) := int i]) [0..<64] (replicate 256 (- 1))"

definition table_lookup :: "char \<Rightarrow> int" where
  "table_lookup c = base64_table ! of_char c"

text \<open>\<open>(val >> n) & m\<close>, read as a number.\<close>

definition shr_mask :: "32 word \<Rightarrow> nat \<Rightarrow> 32 word \<Rightarrow> nat" where
  "shr_mask val n m = unat (signed_drop_bit n val AND m)"

fun decode_loop :: "32 word \<Rightarrow> int \<Rightarrow> bytes \<Rightarrow> bytes \<Rightarrow> bytes" where
  "decode_loop val valb out [] = out"
| "decode_loop val valb out (c # cs) =
     (if table_lookup c = - 1 then out
      else
        let val' = push_bit 6 val + word_of_int (table_lookup c);
            valb' = valb + 6
        in if valb' \<ge> 0
           then decode_loop val' (valb' - 8) (out @ [char_of (shr_mask val' (nat valb') 0xFF)]) cs
           else decode_loop val' valb' out cs)"

definition base64Decode :: "bytes \<Rightarrow> bytes" where
  "base64Decode s = decode_loop 0 (- 8) [] s"

text \<open>The inner \<open>while (valb >= 0)\<close> of the encoder.\<close>

function emit_sextets :: "32 word \<Rightarrow> int \<Rightarrow> bytes \<Rightarrow> bytes \<times> int" where
  "emit_sextets val valb out =
     (if valb \<ge> 0
      then emit_sextets val (valb - 6) (out @ [base64_chars ! shr_mask val (nat valb) 0x3F])
      else (out, valb))"
  by pat_completeness auto
termination
  by (relation "measure (\<lambda>(val, valb, out). nat (valb + 6))") auto

declare emit_sextets.simps [simp del]

fun encode_loop :: "32 word \<Rightarrow> int \<Rightarrow> bytes \<Rightarrow> bytes \<Rightarrow> bytes \<times> 32 word \<times> int" where
  "encode_loop val valb out [] = (out, val, valb)"
| "encode_loop val valb out (c # cs) =
     (let val' = push_bit 8 val + of_nat (of_char c);
          (out', valb') = emit_sextets val' (valb + 8) out
      in encode_loop val' valb' out' cs)"

text \<open>\<open>while (encoded.size() % 4) encoded.push_back('=')\<close>.\<close>

function pad_loop :: "bytes \<Rightarrow> bytes" where
  "pad_loop s = (if length s mod 4 \<noteq> 0 then pad_loop (s @ ''='') else s)"
  by pat_completeness auto
termination
proof (relation "measure (\<lambda>s. (4 - length s mod 4) mod 4)")
  fix s :: bytes
  assume "length s mod 4 \<noteq> 0"
  then have "length s mod 4 = 1 \<or> length s mod 4 = 2 \<or> length s mod 4 = 3" by arith
  then have "(4 - Suc (length s) mod 4) mod 4 < (4 - length s mod 4) mod 4"
    by (auto simp: mod_Suc)
  then show "(s @ ''='', s) \<in> measure (\<lambda>s. (4 - length s mod 4) mod 4)" by simp
qed simp

declare pad_loop.simps [simp del]

definition encode_finish :: "bytes \<times> 32 word \<times> int \<Rightarrow> bytes" where
  "encode_finish r =
     (case r of (out, val, valb) \<Rightarrow>
        pad_loop
          (if valb > - 6
           then out @ [base64_chars ! shr_mask (push_bit 8 val) (nat (valb + 8)) 0x3F]
           else out))"

definition base64Encode :: "bytes \<Rightarrow> bytes" where
  "base64Encode data = encode_finish (encode_loop 0 (- 6) [] data)"

text \<open>The reference: RFC 4648, three bytes to four characters, padded with \<open>=\<close>.\<close>

definition b64_digit :: "nat \<Rightarrow> char" where
  "b64_digit n = base64_chars ! n"

fun rfc4648 :: "nat list \<Rightarrow> bytes" where
  "rfc4648 [] = []"
| "rfc4648 [a] = [b64_digit (a div 4), b64_digit (a mod 4 * 16), CHR ''='', CHR ''='']"
| "rfc4648 [a, b] =
     [b64_digit (a div 4), b64_digit (a mod 4 * 16 + b div 16), b64_digit (b mod 16 * 4),
      CHR ''='']"
| "rfc4648 (a # b # c # r) =
     [b64_digit (a div 4), b64_digit (a mod 4 * 16 + b div 16),
      b64_digit (b mod 16 * 4 + c div 64), b64_digit (c mod 64)] @ rfc4648 r"

section \<open>Reading bits of the accumulator\<close>

lemma shr_mask_eq:
  assumes "n + k \<le> 32"
  shows "shr_mask w n (mask k) = unat w div 2 ^ n mod 2 ^ k"
proof -
  have "unat w < 2 ^ LENGTH(32)" by (rule unsigned_less)
  then have lt: "unat w < 2 ^ 32" by simp
  have "signed_drop_bit n w AND mask k = take_bit k (drop_bit n w)"
    by (rule bit_word_eqI)
      (use assms in \<open>auto simp: bit_simps\<close>)
  then have "shr_mask w n (mask k) = unat (take_bit k (drop_bit n w))"
    by (simp add: shr_mask_def)
  also have "\<dots> = take_bit k (drop_bit n (unat w))"
    using lt
    by (simp add: unsigned_take_bit_eq unsigned_drop_bit_eq take_bit_nat_eq_self)
  finally show ?thesis by (simp add: take_bit_eq_mod drop_bit_eq_div)
qed

text \<open>Only the low twelve bits of the accumulator are ever read.\<close>

definition low12 :: "32 word \<Rightarrow> nat" where
  "low12 w = unat w mod 4096"

lemma div_mod_low:
  assumes "n + k \<le> 12"
  shows "x mod 4096 div 2 ^ n mod 2 ^ k = x div 2 ^ n mod (2::nat) ^ k"
proof -
  have "x mod 4096 = take_bit 12 x" by (simp add: take_bit_eq_mod)
  then have "x mod 4096 div 2 ^ n mod 2 ^ k = take_bit k (drop_bit n (take_bit 12 x))"
    by (simp add: take_bit_eq_mod drop_bit_eq_div)
  also have "\<dots> = take_bit k (drop_bit n x)"
    using assms by (simp add: drop_bit_take_bit take_bit_take_bit)
  finally show ?thesis by (simp add: take_bit_eq_mod drop_bit_eq_div)
qed

lemma sextet_low12:
  assumes "n \<le> 6"
  shows "shr_mask w n 0x3F = low12 w div 2 ^ n mod 64"
proof -
  have "shr_mask w n 0x3F = unat w div 2 ^ n mod 2 ^ 6"
    using shr_mask_eq [of n 6 w] assms by (simp add: mask_eq_exp_minus_1)
  with assms show ?thesis
    using div_mod_low [of n 6 "unat w"] by (simp add: low12_def)
qed

lemma octet_low12:
  assumes "n \<le> 4"
  shows "shr_mask w n 0xFF = low12 w div 2 ^ n mod 256"
proof -
  have "shr_mask w n 0xFF = unat w div 2 ^ n mod 2 ^ 8"
    using shr_mask_eq [of n 8 w] assms by (simp add: mask_eq_exp_minus_1)
  with assms show ?thesis
    using div_mod_low [of n 8 "unat w"] by (simp add: low12_def)
qed

lemma mod_pow_4096: "(x mod 2 ^ 32) mod 4096 = x mod (4096::nat)"
  by (rule mod_mod_cancel) simp

lemma low12_push8: "low12 (push_bit 8 w + of_nat n) = (low12 w * 256 + n) mod 4096"
proof -
  have "unat (push_bit 8 w + of_nat n) = (unat w * 256 + n) mod 2 ^ 32"
    by (simp add: push_bit_eq_mult unat_word_ariths unat_of_nat mod_simps)
  then show ?thesis
    by (simp only: low12_def mod_pow_4096) (metis mod_add_left_eq mod_mult_left_eq)
qed

lemma low12_push8_0: "low12 (push_bit 8 w) = low12 w * 256 mod 4096"
  using low12_push8 [of w 0] by simp

lemma low12_push6: "low12 (push_bit 6 w + of_nat n) = (low12 w * 64 + n) mod 4096"
proof -
  have "unat (push_bit 6 w + of_nat n) = (unat w * 64 + n) mod 2 ^ 32"
    by (simp add: push_bit_eq_mult unat_word_ariths unat_of_nat mod_simps)
  then show ?thesis
    by (simp only: low12_def mod_pow_4096) (metis mod_add_left_eq mod_mult_left_eq)
qed

section \<open>The encoder is RFC 4648\<close>

lemma shifted_field:
  fixes l c q r t :: nat
  assumes "c < q * t" "0 < q" "0 < t"
  shows "(l * (q * t) + c) div t mod (q * r) = l mod r * q + c div t"
proof -
  have "(l * (q * t) + c) div t = l * q + c div t"
    using assms by (simp add: div_add1_eq mult.assoc [symmetric])
  moreover have "c div t < q"
    using assms by (simp add: less_mult_imp_div_less)
  ultimately show ?thesis
    using assms by (simp add: mod_mult2_eq)
qed

lemma group_first: "a < 256 \<Longrightarrow> (l * 256 + a) mod 4096 div 4 mod 64 = a div (4::nat)"
  using div_mod_low [of 2 6 "l * 256 + a"] shifted_field [of a 64 4 l 1] by simp

lemma group_second:
  "b < 256 \<Longrightarrow> (l * 256 + b) mod 4096 div 16 mod 64 = l mod 4 * 16 + b div (16::nat)"
  using div_mod_low [of 4 6 "l * 256 + b"] shifted_field [of b 16 16 l 4] by simp

lemma group_third:
  assumes "c < 256"
  shows "(l * 256 + c) mod 4096 div 64 mod 64 = l mod 16 * 4 + c div (64::nat)"
proof -
  have "(l * 256 + c) mod 4096 div 2 ^ 6 mod 2 ^ 6 = (l * 256 + c) div 2 ^ 6 mod 2 ^ 6"
    by (rule div_mod_low) simp
  then have "(l * 256 + c) mod 4096 div 64 mod 64 = (l * 256 + c) div 64 mod (4 * 16)"
    by (simp only: power_numeral) simp
  also have "\<dots> = l mod 16 * 4 + c div 64"
    using shifted_field [of c 4 64 l 16] assms by simp
  finally show ?thesis .
qed

lemma group_third_high:
  assumes "c < 256"
  shows "(l * 256 + c) mod 4096 div 64 = l mod 16 * 4 + c div (64::nat)"
  using group_third [OF assms, of l] by (simp add: less_mult_imp_div_less)

lemma group_third_small:
  "c < 256 \<Longrightarrow> (b mod 16 * 4 + c div 64) mod 64 = b mod 16 * 4 + c div (64::nat)"
  using group_third [of c b] group_third_high [of c b] by simp

lemma mod_dvd_chain:
  fixes k m :: nat
  assumes "k dvd 256" "m dvd 4096" "k dvd m"
  shows "(l * 256 + a) mod 4096 mod k = a mod k"
proof -
  have "k dvd 4096" using assms dvd_trans by blast
  moreover have "k dvd l * 256" using assms(1) by (rule dvd_mult)
  then obtain m where "l * 256 = k * m" by (rule dvdE)
  ultimately show ?thesis by (simp add: mod_mod_cancel)
qed

lemma carry_bits:
  "(l * 256 + a) mod 4096 mod 4 = a mod (4::nat)"
  "(l * 256 + a) mod 4096 mod 16 = a mod (16::nat)"
  "(l * 256 + a) mod 4096 mod 64 = a mod (64::nat)"
  by (rule mod_dvd_chain [where m = 4096]; simp)+

lemma emit_one:
  assumes "0 \<le> valb" "valb < 6"
  shows "emit_sextets val valb out =
    (out @ [base64_chars ! shr_mask val (nat valb) 0x3F], valb - 6)"
  using assms by (simp add: emit_sextets.simps)

lemma emit_two:
  "emit_sextets val 6 out =
    (out @ [base64_chars ! shr_mask val 6 0x3F, base64_chars ! shr_mask val 0 0x3F], - 6)"
  by (simp add: emit_sextets.simps)

lemma replicate_small: "replicate 3 x = x # replicate 2 x" "replicate 2 x = [x, x]"
  by (simp_all add: numeral_eq_Suc)

lemma pad_loop_eq: "pad_loop s = s @ replicate ((4 - length s mod 4) mod 4) CHR ''=''"
proof (induction s rule: pad_loop.induct)
  case (1 s)
  show ?case
  proof (cases "length s mod 4 = 0")
    case True
    then show ?thesis by (simp add: pad_loop.simps)
  next
    case False
    then have "length s mod 4 = 1 \<or> length s mod 4 = 2 \<or> length s mod 4 = 3" by arith
    then show ?thesis
      using 1 [OF False] False
      by (elim disjE; subst pad_loop.simps; simp add: mod_Suc replicate_small)
  qed
qed

lemmas encode_bits =
  sextet_low12 low12_push8 low12_push8_0 b64_digit_def emit_one emit_two
  group_first group_second group_third_high group_third_small carry_bits Let_def

lemma encode_from_boundary:
  assumes "length out mod 4 = 0"
  shows "encode_finish (encode_loop v (- 6) out xs) = out @ rfc4648 (map of_char xs)"
  using assms
proof (induction "map of_char xs :: nat list" arbitrary: xs v out rule: rfc4648.induct)
  case 1
  then show ?case by (simp add: encode_finish_def pad_loop_eq)
next
  case (2 a)
  then obtain x where x: "xs = [x]" "a = of_char x" by (auto simp: Cons_eq_map_conv)
  have "length (out @ [p, q]) mod 4 = 2" for p q :: char
    using "2.prems" by (simp add: mod_Suc)
  with x show ?case
    by (simp add: encode_finish_def pad_loop_eq replicate_small encode_bits group_second [where b = 0, simplified])
next
  case (3 a b)
  then obtain x y where x: "xs = [x, y]" by (auto simp: Cons_eq_map_conv)
  have "length (out @ [p, q, r]) mod 4 = 3" for p q r :: char
    using "3.prems" by (simp add: mod_Suc)
  with x show ?case
    by (simp add: encode_finish_def pad_loop_eq replicate_small encode_bits group_third_high [where c = 0, simplified])
next
  case (4 a b c r)
  then obtain x y z ys where x: "xs = x # y # z # ys" "r = map of_char ys"
    by (auto simp: Cons_eq_map_conv)
  have len: "length (out @ [p, q, s, t]) mod 4 = 0" for p q s t :: char
    using "4.prems" by simp
  show ?case
    using "4.hyps"(1) [OF x(2) len] by (simp add: x encode_bits)
qed

lemma encode_is_rfc4648: "base64Encode data = rfc4648 (map of_char data)"
  using encode_from_boundary [of "[]" 0 data] by (simp add: base64Encode_def)

section \<open>The decoder inverts the encoder\<close>

lemma table_lookup_digit:
  assumes "n < 64"
  shows "table_lookup (b64_digit n) = int n"
proof -
  have "list_all (\<lambda>n. table_lookup (b64_digit n) = int n) [0..<64]" by code_simp
  with assms show ?thesis by (simp add: list_all_iff)
qed

lemma table_lookup_pad: "table_lookup CHR ''='' = - 1"
  by code_simp

text \<open>One alphabet character: six more bits, and a byte whenever eight are complete.\<close>

definition shift_in :: "32 word \<Rightarrow> nat \<Rightarrow> 32 word" where
  "shift_in v n = push_bit 6 v + of_nat n"

lemma low12_shift_in: "low12 (shift_in v n) = (low12 v * 64 + n) mod 4096"
  by (simp add: shift_in_def low12_push6)

lemma decode_digit:
  assumes "n < 64"
  shows "decode_loop v (- 8) out (b64_digit n # cs) = decode_loop (shift_in v n) (- 2) out cs"
    and "valb = - 2 \<or> valb = - 4 \<or> valb = - 6 \<Longrightarrow>
      decode_loop v valb out (b64_digit n # cs) =
      decode_loop (shift_in v n) (valb - 2)
        (out @ [char_of (low12 (shift_in v n) div 2 ^ nat (valb + 6) mod 256)]) cs"
  using assms by (auto simp: table_lookup_digit Let_def octet_low12 shift_in_def)

lemma decode_stop: "decode_loop v valb out (CHR ''='' # cs) = out"
  by (simp add: table_lookup_pad)

lemma sextet_carry:
  "(l * 64 + n) mod 4096 mod 64 = n mod (64::nat)"
  "(l * 64 + n) mod 4096 mod 16 = n mod (16::nat)"
  "(l * 64 + n) mod 4096 mod 4 = n mod (4::nat)"
proof -
  have "(l * 64 + n) mod 64 = n mod 64" by simp
  moreover have "(n + 16 * (l * 4)) mod 16 = n mod 16" by (rule mod_mult_self2)
  moreover have "(n + 4 * (l * 16)) mod 4 = n mod 4" by (rule mod_mult_self2)
  ultimately show
    "(l * 64 + n) mod 4096 mod 64 = n mod 64"
    "(l * 64 + n) mod 4096 mod 16 = n mod 16"
    "(l * 64 + n) mod 4096 mod 4 = n mod 4"
    by (simp_all add: mod_mod_cancel ac_simps)
qed

lemma low_field:
  fixes l c q r t :: nat
  assumes "n + k \<le> 12" "t = 2 ^ n" "q * r = 2 ^ k" "0 < q" "c < q * t"
  shows "(l * (q * t) + c) mod 4096 div t mod (q * r) = l mod r * q + c div t"
  using div_mod_low [OF assms(1), of "l * (q * t) + c"]
    shifted_field [OF assms(5,4), of l r] assms(2,3) by simp

lemma octet_fields:
  assumes "m < 64"
  shows "(l * 64 + m) mod 4096 div 16 = l mod 64 * 4 + m div (16::nat)"
    and "(l * 64 + m) mod 4096 div 4 mod 256 = l mod 16 * 16 + m div (4::nat)"
    and "(l * 64 + m) mod 4096 mod 256 = l mod 4 * 64 + (m::nat)"
proof -
  show "(l * 64 + m) mod 4096 div 16 = l mod 64 * 4 + m div 16"
    using low_field [of 4 8 16 4 64 m l] assms by (simp add: less_mult_imp_div_less)
  show "(l * 64 + m) mod 4096 div 4 mod 256 = l mod 16 * 16 + m div 4"
    using low_field [of 2 8 4 16 16 m l] assms by simp
  show "(l * 64 + m) mod 4096 mod 256 = l mod 4 * 64 + m"
    using low_field [of 0 8 1 64 4 m l] assms by simp
qed

lemma regroup_first: "a < 256 \<Longrightarrow> a div 4 < (64::nat)"
  by auto

lemma regroup_second:
  fixes a b :: nat
  assumes "b < 256"
  shows "a mod 4 * 16 + b div 16 < 64"
    and "(a mod 4 * 16 + b div 16) div 16 = a mod 4"
    and "(a mod 4 * 16 + b div 16) mod 16 = b div 16"
proof -
  have "b div 16 < 16" "a mod 4 < 4" using assms by auto
  then show "a mod 4 * 16 + b div 16 < 64"
    and "(a mod 4 * 16 + b div 16) div 16 = a mod 4"
    and "(a mod 4 * 16 + b div 16) mod 16 = b div 16"
    by (auto simp: div_add1_eq)
qed

lemma regroup_third:
  fixes b c :: nat
  assumes "c < 256"
  shows "b mod 16 * 4 + c div 64 < 64"
    and "(b mod 16 * 4 + c div 64) div 4 = b mod 16"
    and "(b mod 16 * 4 + c div 64) mod 4 = c div 64"
proof -
  have "c div 64 < 4" "b mod 16 < 16" using assms by auto
  then show "b mod 16 * 4 + c div 64 < 64"
    and "(b mod 16 * 4 + c div 64) div 4 = b mod 16"
    and "(b mod 16 * 4 + c div 64) mod 4 = c div 64"
    by (auto simp: div_add1_eq)
qed

lemma regroup_last: "a mod 4 * 16 < (64::nat)" "b mod 16 * 4 < (64::nat)"
  using regroup_second(1) [of 0 a] regroup_third(1) [of 0 b] by simp_all

lemma high_fields:
  fixes b :: nat
  assumes "b < 256"
  shows "b div 16 div 16 = 0" "b div 16 mod 16 = b div 16"
    and "b div 64 div 4 = 0" "b div 64 mod 4 = b div 64"
proof -
  have "b div 16 < 16" "b div 64 < 4" using assms by auto
  then show "b div 16 div 16 = 0" "b div 16 mod 16 = b div 16"
    and "b div 64 div 4 = 0" "b div 64 mod 4 = b div 64" by simp_all
qed

lemmas decode_bits =
  decode_digit low12_shift_in sextet_carry octet_fields mod_less
  regroup_first regroup_second regroup_third regroup_last high_fields

lemma decode_rfc4648:
  "decode_loop v (- 8) out (rfc4648 (map of_char xs)) = out @ xs"
proof (induction "map of_char xs :: nat list" arbitrary: xs v out rule: rfc4648.induct)
  case 1
  then show ?case by simp
next
  case (2 a)
  then obtain x where x: "xs = [x]" "a = of_char x" by (auto simp: Cons_eq_map_conv)
  then show ?case
    by (simp add: decode_bits decode_stop del: decode_loop.simps char_of_mod_256)
next
  case (3 a b)
  then obtain x y where x: "xs = [x, y]" by (auto simp: Cons_eq_map_conv)
  then show ?case
    by (simp add: decode_bits decode_stop del: decode_loop.simps char_of_mod_256)
next
  case (4 a b c r)
  then obtain x y z ys where x: "xs = x # y # z # ys" "r = map of_char ys"
    by (auto simp: Cons_eq_map_conv)
  show ?case
    using "4.hyps"(1) [OF x(2)] by (simp add: x decode_bits decode_stop del: decode_loop.simps char_of_mod_256)
qed

lemma decode_encode: "base64Decode (base64Encode data) = data"
  using decode_rfc4648 [of 0 "[]" data] by (simp add: base64Decode_def encode_is_rfc4648)

section \<open>Length\<close>

lemma length_rfc4648: "length (rfc4648 ns) = 4 * ((length ns + 2) div 3)"
proof (induction ns rule: rfc4648.induct)
  case (4 a b c r)
  have "(length r + 2 + 3) div 3 = (length r + 2) div 3 + 1" by (rule div_add_self2) simp
  then have "(length (a # b # c # r) + 2) div 3 = (length r + 2) div 3 + 1"
    by (simp add: add.commute add.left_commute)
  then show ?case using "4.IH" by (simp only: rfc4648.simps list.size distrib_left) simp
qed simp_all

lemma length_base64Encode: "length (base64Encode data) = 4 * ((length data + 2) div 3)"
  using encode_from_boundary [of "[]" 0 data] by (simp add: base64Encode_def length_rfc4648)

section \<open>Properties\<close>


text \<open>
  C34: Whatever bytes a snapshot holds, decoding what was encoded gives them back, so a chunk
  survives the JSON message it travels in.
\<close>

theorem base64_round_trip: "base64Decode (base64Encode data) = data"
  by (rule decode_encode)

text \<open>
  The encoder writes four characters for every started group of three bytes; with the sender's
  chunk size of 512 a message carries at most 684 of them, within the 2048-byte receive buffer.
\<close>

theorem base64_chunk_size:
  "length (base64Encode data) = 4 * ((length data + 2) div 3) \<and>
    (length data \<le> 512 \<longrightarrow> length (base64Encode data) \<le> 684)"
proof -
  have "(length data + 2) div 3 \<le> (512 + 2) div 3" if "length data \<le> 512"
    using that by (intro div_le_mono) simp
  then show ?thesis by (auto simp: length_base64Encode)
qed

theorem base64_chunk_size_witness: "length (base64Encode ''abcd'') \<le> 684"
  using base64_chunk_size [of "''abcd''"] by simp

end
