(* ===== verification/Record_Stream.thy ===== *)
theory Record_Stream
  imports Prelude
begin

text \<open>
  The interface between a file of variable-length records and the code that appends to it and
  reads it back: an encoder, a decoder that reports the end of the file as \<open>None\<close>, and the
  loading loop that runs the decoder until it stops.  The laws are what a log needs from its
  record format; the lemmas say what loading returns for an intact file and for a file that was
  cut at an arbitrary byte by a crash.
\<close>

text \<open>The records that lie completely within the first \<open>n\<close> bytes.\<close>

fun whole_records :: "('a \<Rightarrow> bytes) \<Rightarrow> nat \<Rightarrow> 'a list \<Rightarrow> 'a list" where
  "whole_records enc n [] = []"
| "whole_records enc n (x # xs) =
     (if length (enc x) \<le> n then x # whole_records enc (n - length (enc x)) xs else [])"

lemma whole_records_prefix: "\<exists>k. whole_records enc n xs = take k xs"
proof (induction xs arbitrary: n)
  case (Cons x xs)
  from Cons obtain k where "whole_records enc (n - length (enc x)) xs = take k xs" by blast
  then show ?case
    by (cases "length (enc x) \<le> n") (auto intro: exI [of _ "Suc k"] exI [of _ 0])
qed simp

lemma whole_records_all:
  "length (concat (map enc xs)) \<le> n \<Longrightarrow> whole_records enc n xs = xs"
  by (induction xs arbitrary: n) auto

text \<open>A record that was written before the cut survives it.\<close>

lemma whole_records_append:
  "length (concat (map enc xs)) \<le> n \<Longrightarrow>
    whole_records enc n (xs @ ys) = xs @ whole_records enc (n - length (concat (map enc xs))) ys"
  by (induction xs arbitrary: n) auto

locale record_stream =
  fixes enc :: "'a \<Rightarrow> bytes"
    and dec :: "bytes \<Rightarrow> cpp_exn + ('a \<times> bytes) option"
    and load :: "bytes \<Rightarrow> cpp_exn + 'a list"
    and ok :: "'a \<Rightarrow> bool"
  assumes dec_enc: "ok x \<Longrightarrow> dec (enc x @ rest) = Inr (Some (x, rest))"
    and dec_torn: "ok x \<Longrightarrow> n < length (enc x) \<Longrightarrow> dec (take n (enc x)) = Inr None"
    and dec_end: "dec [] = Inr None"
    and load_unfold: "load bs =
      (case dec bs of
         Inl e \<Rightarrow> Inl e
       | Inr None \<Rightarrow> Inr []
       | Inr (Some (x, rest)) \<Rightarrow> map_sum id ((#) x) (load rest))"
begin

lemma load_end: "load [] = Inr []"
  by (subst load_unfold) (simp add: dec_end)

lemma load_record: "ok x \<Longrightarrow> load (enc x @ rest) = map_sum id ((#) x) (load rest)"
  by (subst load_unfold) (simp add: dec_enc)

lemma load_torn_record: "ok x \<Longrightarrow> n < length (enc x) \<Longrightarrow> load (take n (enc x)) = Inr []"
  by (subst load_unfold) (simp add: dec_torn)

lemma load_concat: "list_all ok xs \<Longrightarrow> load (concat (map enc xs)) = Inr xs"
  by (induction xs) (simp_all add: load_end load_record)

lemma load_torn:
  "list_all ok xs \<Longrightarrow> load (take n (concat (map enc xs))) = Inr (whole_records enc n xs)"
proof (induction xs arbitrary: n)
  case Nil
  then show ?case by (simp add: load_end)
next
  case (Cons x xs)
  then show ?case
    by (cases "length (enc x) \<le> n") (auto simp: load_record load_torn_record)
qed

lemma dec_enc_end: "ok x \<Longrightarrow> dec (enc x) = Inr (Some (x, []))"
  using dec_enc [of x "[]"] by simp

end

end
