(* ===== verification/WAL.thy ===== *)
theory WAL
  imports Record_Stream
begin

text \<open>
  \<open>log_entry.h\<close> and \<open>wal.cpp\<close>: the write-ahead log of the key-value store.

  A \<open>WAL\<close> object is the state of its file (\<open>None\<close> while the file does not exist), whether the
  file can be opened for writing, the cached entries and the last index handed out.  Allocation
  is the environment's decision: \<open>alloc n\<close> says whether \<open>std::string::resize(n)\<close> succeeds, and
  a refusal is the exception it raises.
\<close>

section \<open>Entries\<close>

record LogEntry =
  wal_term :: "32 word"
  wal_index :: "64 word"
  wal_command :: string

definition toBinary :: "LogEntry \<Rightarrow> bytes" where
  "toBinary e =
     le_bytes 4 (unat (wal_term e)) @ u64_bytes (wal_index e) @
     u64_bytes (of_nat (length (wal_command e))) @ wal_command e"

definition fromBinary ::
  "(nat \<Rightarrow> bool) \<Rightarrow> bytes \<Rightarrow> cpp_exn + (LogEntry \<times> bytes) option" where
  "fromBinary alloc bs =
     (case read_n 4 bs of None \<Rightarrow> Inr None | Some (t, bs1) \<Rightarrow>
      (case read_n 8 bs1 of None \<Rightarrow> Inr None | Some (i, bs2) \<Rightarrow>
       (case read_n 8 bs2 of None \<Rightarrow> Inr None | Some (sz, bs3) \<Rightarrow>
        (let size = unat (u64_of sz)
         in if \<not> alloc size then Inl Length_Error
            else case read_n size bs3 of None \<Rightarrow> Inr None | Some (cmd, rest) \<Rightarrow>
              Inr (Some (\<lparr>wal_term = word_of_nat (le_nat t), wal_index = u64_of i,
                          wal_command = cmd\<rparr>, rest))))))"

text \<open>The \<open>while (true)\<close> of the constructor: read entries until \<open>fromBinary\<close> reports failure.\<close>

lemma fromBinary_consumes:
  "fromBinary alloc bs = Inr (Some (e, rest)) \<Longrightarrow> length rest < length bs"
  by (auto simp: fromBinary_def Let_def split: option.splits if_splits dest!: read_n_length)

function load_entries :: "(nat \<Rightarrow> bool) \<Rightarrow> bytes \<Rightarrow> cpp_exn + LogEntry list" where
  "load_entries alloc bs =
     (case fromBinary alloc bs of
        Inl e \<Rightarrow> Inl e
      | Inr None \<Rightarrow> Inr []
      | Inr (Some (x, rest)) \<Rightarrow> map_sum id ((#) x) (load_entries alloc rest))"
  by pat_completeness auto
termination
  by (relation "measure (\<lambda>(alloc, bs). length bs)") (auto dest: fromBinary_consumes)

declare load_entries.simps [simp del]

text \<open>An entry the format can represent and the reader can allocate.\<close>

definition entry_fits :: "(nat \<Rightarrow> bool) \<Rightarrow> LogEntry \<Rightarrow> bool" where
  "entry_fits alloc e \<longleftrightarrow>
     length (wal_command e) < 2 ^ 64 \<and> alloc (length (wal_command e))"

lemma length_toBinary: "length (toBinary e) = 20 + length (wal_command e)"
  by (simp add: toBinary_def)

lemma term_round_trip: "word_of_nat (le_nat (le_bytes 4 (unat (w :: 32 word)))) = w"
proof -
  have "unat w < 2 ^ LENGTH(32)" by (rule unsigned_less)
  then have "unat w < 256 ^ 4" by simp
  then show ?thesis by (simp add: le_nat_le_bytes)
qed

lemma size_round_trip:
  "n < 2 ^ 64 \<Longrightarrow> unat (u64_of (u64_bytes (of_nat n))) = n"
  by (simp add: u64_round_trip unat_of_nat take_bit_nat_eq_self)

lemma unat_of_nat_u64: "n < 2 ^ 64 \<Longrightarrow> unat (of_nat n :: 64 word) = n"
  by (simp add: unat_of_nat take_bit_nat_eq_self)

lemma fromBinary_toBinary:
  assumes "entry_fits alloc e"
  shows "fromBinary alloc (toBinary e @ rest) = Inr (Some (e, rest))"
  using assms
  by (simp add: fromBinary_def toBinary_def entry_fits_def Let_def term_round_trip
      unat_of_nat_u64 u64_round_trip)

text \<open>Cutting an entry anywhere makes the reader stop, not fail.\<close>

lemma read_n_take_append:
  "length xs = n \<Longrightarrow>
    read_n n (take k (xs @ ys)) = (if n \<le> k then Some (xs, take (k - n) ys) else None)"
  by (auto simp: read_n_def)

lemma fromBinary_torn:
  assumes "entry_fits alloc e" "n < length (toBinary e)"
  shows "fromBinary alloc (take n (toBinary e)) = Inr None"
proof -
  have "n < 20 + length (wal_command e)" using assms(2) by (simp add: length_toBinary)
  then show ?thesis
    using assms(1)
    unfolding fromBinary_def toBinary_def entry_fits_def
    by (auto simp: read_n_take_append unat_of_nat_u64 u64_round_trip Let_def split: if_splits
        simp del: take_append)
qed

interpretation wal_file: record_stream toBinary "fromBinary alloc" "load_entries alloc"
    "entry_fits alloc" for alloc
proof
  show "fromBinary alloc (toBinary x @ rest) = Inr (Some (x, rest))"
    if "entry_fits alloc x" for x rest
    using that by (rule fromBinary_toBinary)
  show "fromBinary alloc (take n (toBinary x)) = Inr None"
    if "entry_fits alloc x" "n < length (toBinary x)" for x n
    using that by (rule fromBinary_torn)
  show "fromBinary alloc [] = Inr None" by (simp add: fromBinary_def)
qed (rule load_entries.simps)

section \<open>The log object\<close>

record WAL =
  walFile :: "bytes option"
  walWritable :: bool
  cachedEntries :: "LogEntry list"
  lastIndex :: "64 word"

definition last_index_of :: "LogEntry list \<Rightarrow> 64 word" where
  "last_index_of es = (if es = [] then 0 else wal_index (last es))"

text \<open>The constructor \<open>WAL(filename)\<close> on the file's present contents.\<close>

definition WAL_open :: "(nat \<Rightarrow> bool) \<Rightarrow> bool \<Rightarrow> bytes option \<Rightarrow> cpp_exn + WAL" where
  "WAL_open alloc writable file =
     (case file of
        None \<Rightarrow> Inr \<lparr>walFile = None, walWritable = writable, cachedEntries = [], lastIndex = 0\<rparr>
      | Some bs \<Rightarrow>
          (case load_entries alloc bs of
             Inl e \<Rightarrow> Inl e
           | Inr es \<Rightarrow> Inr \<lparr>walFile = Some bs, walWritable = writable, cachedEntries = es,
                             lastIndex = last_index_of es\<rparr>))"

definition appendEntry :: "string \<Rightarrow> WAL \<Rightarrow> WAL" where
  "appendEntry command w =
     (let idx = lastIndex w + 1;
          entry = \<lparr>wal_term = 1, wal_index = idx, wal_command = command\<rparr>;
          file = (if walWritable w
                  then Some (case_option [] id (walFile w) @ toBinary entry)
                  else walFile w)
      in w\<lparr>walFile := file, cachedEntries := cachedEntries w @ [entry], lastIndex := idx\<rparr>)"

definition loadAllEntries :: "WAL \<Rightarrow> LogEntry list" where
  "loadAllEntries w = cachedEntries w"

text \<open>
  \<open>entry.index > lastIncludedIndex\<close> compares a \<open>uint64_t\<close> with an \<open>int\<close>: the \<open>int\<close> is
  converted to 64 unsigned bits first.
\<close>

definition truncateUpTo :: "int \<Rightarrow> WAL \<Rightarrow> WAL \<times> cpp_exn option" where
  "truncateUpTo lastIncludedIndex w =
     (let remaining = filter (\<lambda>e. word_of_int lastIncludedIndex < wal_index e) (cachedEntries w)
      in if \<not> walWritable w
         then (w, Some (Runtime_Error ''Failed to open WAL file for truncation''))
         else (w\<lparr>walFile := Some (concat (map toBinary remaining)),
                 cachedEntries := remaining, lastIndex := last_index_of remaining\<rparr>, None))"

section \<open>The file mirrors the cache\<close>

definition wal_synced :: "(nat \<Rightarrow> bool) \<Rightarrow> WAL \<Rightarrow> bool" where
  "wal_synced alloc w \<longleftrightarrow>
     walWritable w \<and>
     list_all (entry_fits alloc) (cachedEntries w) \<and>
     lastIndex w = last_index_of (cachedEntries w) \<and>
     (case walFile w of None \<Rightarrow> cachedEntries w = []
      | Some bs \<Rightarrow> bs = concat (map toBinary (cachedEntries w)))"

lemma wal_synced_new: "WAL_open alloc True None = Inr w \<Longrightarrow> wal_synced alloc w"
  by (auto simp: WAL_open_def wal_synced_def last_index_of_def)

lemma wal_synced_append:
  assumes "wal_synced alloc w" "length c < 2 ^ 64" "alloc (length c)"
  shows "wal_synced alloc (appendEntry c w)"
  using assms
  by (auto simp: wal_synced_def appendEntry_def Let_def entry_fits_def last_index_of_def
      split: option.splits)

lemma wal_synced_truncate:
  assumes "wal_synced alloc w"
  shows "wal_synced alloc (fst (truncateUpTo k w))" "snd (truncateUpTo k w) = None"
  using assms by (auto simp: wal_synced_def truncateUpTo_def Let_def list_all_iff)

lemma wal_synced_reopen:
  assumes "wal_synced alloc w"
  shows "WAL_open alloc True (walFile w) = Inr w"
  using assms
  by (auto simp: WAL_open_def wal_synced_def wal_file.load_concat last_index_of_def
      split: option.splits)

text \<open>After a crash that cuts the file at byte \<open>n\<close>, exactly the complete entries come back.\<close>

lemma wal_synced_torn:
  assumes "wal_synced alloc w" "walFile w = Some bs"
  shows "\<exists>w'. WAL_open alloc True (Some (take n bs)) = Inr w' \<and>
    cachedEntries w' = whole_records toBinary n (cachedEntries w)"
  using assms by (simp add: WAL_open_def wal_synced_def wal_file.load_torn)

section \<open>Properties\<close>

text \<open>
  C29: A write-ahead log whose file mirrors its cache, cut at an arbitrary byte by a crash, opens
  without an exception, and exactly the entries that lie completely before the cut come back, in
  order.
\<close>

theorem wal_survives_torn_file:
  assumes "wal_synced alloc w" "walFile w = Some bs"
  shows "\<exists>w'. WAL_open alloc True (Some (take n bs)) = Inr w' \<and>
    cachedEntries w' = whole_records toBinary n (cachedEntries w) \<and>
    (\<exists>k. cachedEntries w' = take k (cachedEntries w)) \<and>
    (length bs \<le> n \<longrightarrow> cachedEntries w' = cachedEntries w)"
proof -
  have "bs = concat (map toBinary (cachedEntries w))"
    using assms by (simp add: wal_synced_def)
  then show ?thesis
    using wal_synced_torn [OF assms, of n] whole_records_prefix [of toBinary n "cachedEntries w"]
      whole_records_all [of toBinary "cachedEntries w" n] by auto
qed

definition two_entry_wal :: WAL where
  "two_entry_wal = appendEntry ''DELETE k'' (appendEntry ''PUT k=v''
     \<lparr>walFile = None, walWritable = True, cachedEntries = [], lastIndex = 0\<rparr>)"

lemma two_entry_wal_synced: "wal_synced (\<lambda>_. True) two_entry_wal"
  unfolding two_entry_wal_def
  by (intro wal_synced_append) (simp_all add: wal_synced_def last_index_of_def)

theorem wal_survives_torn_file_witness:
  "\<exists>w'. WAL_open (\<lambda>_. True) True (Some (take 30 (the (walFile two_entry_wal)))) = Inr w' \<and>
    map wal_command (cachedEntries w') = [''PUT k=v'']"
proof -
  have contents: "walFile two_entry_wal = Some (the (walFile two_entry_wal))"
    by (simp add: two_entry_wal_def appendEntry_def Let_def)
  have "whole_records toBinary 30 (cachedEntries two_entry_wal) = take 1 (cachedEntries two_entry_wal)"
    by (simp add: two_entry_wal_def appendEntry_def Let_def length_toBinary)
  moreover have "map wal_command (take 1 (cachedEntries two_entry_wal)) = [''PUT k=v'']"
    by (simp add: two_entry_wal_def appendEntry_def Let_def)
  ultimately show ?thesis
    using wal_survives_torn_file [OF two_entry_wal_synced contents, of 30] by force
qed

text \<open>
  Compacting the log keeps the file and the cache in step, drops exactly the entries up to the
  given index (read as 64 unsigned bits), and a process that reopens the file sees the compacted
  log.
\<close>

theorem wal_compaction:
  assumes "wal_synced alloc w" "truncateUpTo k w = (w', e)"
  shows "e = None \<and> wal_synced alloc w' \<and>
    cachedEntries w' = filter (\<lambda>x. word_of_int k < wal_index x) (cachedEntries w) \<and>
    WAL_open alloc True (walFile w') = Inr w'"
proof -
  have "wal_synced alloc w'" "e = None"
    using wal_synced_truncate [OF assms(1), of k] assms(2) by simp_all
  moreover have "cachedEntries w' = filter (\<lambda>x. word_of_int k < wal_index x) (cachedEntries w)"
    using assms by (auto simp: truncateUpTo_def wal_synced_def Let_def)
  ultimately show ?thesis by (simp add: wal_synced_reopen)
qed

theorem wal_compaction_witness:
  "map wal_command (cachedEntries (fst (truncateUpTo 1 two_entry_wal))) = [''DELETE k'']"
  using wal_compaction [OF two_entry_wal_synced, of 1 "fst (truncateUpTo 1 two_entry_wal)"
      "snd (truncateUpTo 1 two_entry_wal)"]
  by (simp add: two_entry_wal_def appendEntry_def Let_def)

end
