(* ===== verification/KVStore.thy ===== *)
theory KVStore
  imports WAL
begin

text \<open>
  \<open>kvstore.h\<close> / \<open>kvstore.cpp\<close>: the state machine of the cluster, a string map whose every
  \<open>put\<close> and \<open>remove\<close> is logged before it is applied, and whose constructor replays the log.

  Two interfaces are stated as locales.  \<open>command_log\<close> is what the store needs of the
  write-ahead log: whatever was appended is what a later process recovers.  \<open>map_store\<close> is
  what the Raft layer needs of the store: \<open>put\<close>, \<open>get\<close> and \<open>remove\<close> act as on a finite map.
\<close>

section \<open>The store\<close>

record KVStore =
  mp :: "string \<rightharpoonup> string"
  writeAheadLog :: WAL

definition put :: "string \<Rightarrow> string \<Rightarrow> KVStore \<Rightarrow> KVStore" where
  "put key value s =
     s\<lparr>writeAheadLog := appendEntry (''PUT '' @ key @ ''='' @ value) (writeAheadLog s),
       mp := (mp s)(key \<mapsto> value)\<rparr>"

definition get :: "string \<Rightarrow> KVStore \<Rightarrow> string option" where
  "get key s = (case mp s key of Some v \<Rightarrow> Some v | None \<Rightarrow> None)"

definition remove :: "string \<Rightarrow> KVStore \<Rightarrow> KVStore \<times> bool" where
  "remove key s =
     (s\<lparr>writeAheadLog := appendEntry (''DELETE '' @ key) (writeAheadLog s),
        mp := (mp s)(key := None)\<rparr>, mp s key \<noteq> None)"

definition dumpToMap :: "KVStore \<Rightarrow> string \<rightharpoonup> string" where
  "dumpToMap s = mp s"

definition loadFromMap :: "(string \<rightharpoonup> string) \<Rightarrow> KVStore \<Rightarrow> KVStore" where
  "loadFromMap st s = s\<lparr>mp := st\<rparr>"

definition writeAheadLog_truncate :: "int \<Rightarrow> KVStore \<Rightarrow> KVStore \<times> cpp_exn option" where
  "writeAheadLog_truncate k s =
     (case truncateUpTo k (writeAheadLog s) of (w, r) \<Rightarrow> (s\<lparr>writeAheadLog := w\<rparr>, r))"

section \<open>Recovery\<close>

text \<open>\<open>std::string::find(c, pos)\<close>; \<open>None\<close> is \<open>npos\<close>.\<close>

fun find_char :: "char \<Rightarrow> string \<Rightarrow> nat option" where
  "find_char c [] = None"
| "find_char c (x # xs) = (if x = c then Some 0 else map_option Suc (find_char c xs))"

definition find_from :: "char \<Rightarrow> string \<Rightarrow> nat \<Rightarrow> nat option" where
  "find_from c s pos = map_option ((+) pos) (find_char c (drop pos s))"

text \<open>The body of the constructor's loop, on one logged command.\<close>

definition replay_command :: "(string \<rightharpoonup> string) \<Rightarrow> string \<Rightarrow> string \<rightharpoonup> string" where
  "replay_command m commandStr =
     (case find_from CHR '' '' commandStr 0 of
        None \<Rightarrow> m
      | Some spacePos \<Rightarrow>
          (let command = take spacePos commandStr
           in if command = ''PUT'' then
                (case find_from CHR ''='' commandStr (spacePos + 1) of
                   None \<Rightarrow> m
                 | Some eqPos \<Rightarrow>
                     (let key = take (eqPos - (spacePos + 1)) (drop (spacePos + 1) commandStr);
                          value = drop (eqPos + 1) commandStr
                      in if key = [] then m else m(key \<mapsto> value)))
              else if command = ''DELETE'' then
                (let key = drop (spacePos + 1) commandStr
                 in if key = [] then m else m(key := None))
              else m))"

definition KVStore_open ::
  "(nat \<Rightarrow> bool) \<Rightarrow> bool \<Rightarrow> bytes option \<Rightarrow> cpp_exn + KVStore" where
  "KVStore_open alloc writable file =
     (case WAL_open alloc writable file of
        Inl e \<Rightarrow> Inl e
      | Inr w \<Rightarrow>
          Inr \<lparr>mp = foldl replay_command Map.empty (map wal_command (loadAllEntries w)),
               writeAheadLog = w\<rparr>)"

section \<open>The logged operations as data\<close>

datatype kv_op = Put string string | Remove string

fun op_command :: "kv_op \<Rightarrow> string" where
  "op_command (Put k v) = ''PUT '' @ k @ ''='' @ v"
| "op_command (Remove k) = ''DELETE '' @ k"

fun op_effect :: "(string \<rightharpoonup> string) \<Rightarrow> kv_op \<Rightarrow> string \<rightharpoonup> string" where
  "op_effect m (Put k v) = m(k \<mapsto> v)"
| "op_effect m (Remove k) = m(k := None)"

fun run_op :: "KVStore \<Rightarrow> kv_op \<Rightarrow> KVStore" where
  "run_op s (Put k v) = put k v s"
| "run_op s (Remove k) = fst (remove k s)"

text \<open>
  The commands the log can bring back: keys are not empty, and the key of a \<open>PUT\<close> holds no
  \<open>=\<close>, the separator of its log record.
\<close>

fun op_loggable :: "kv_op \<Rightarrow> bool" where
  "op_loggable (Put k v) = (k \<noteq> [] \<and> CHR ''='' \<notin> set k)"
| "op_loggable (Remove k) = (k \<noteq> [])"

lemma find_char_append:
  "c \<notin> set xs \<Longrightarrow> find_char c (xs @ c # ys) = Some (length xs)"
  by (induction xs) auto

lemma find_char_None [simp]: "find_char c xs = None \<longleftrightarrow> c \<notin> set xs"
  by (induction xs) auto

lemma replay_op:
  assumes "op_loggable x"
  shows "replay_command m (op_command x) = op_effect m x"
proof (cases x)
  case (Put k v)
  have "find_from CHR '' '' (op_command x) 0 = Some 3"
    by (simp add: Put find_from_def)
  moreover have "find_from CHR ''='' (op_command x) 4 = Some (4 + length k)"
    using assms by (simp add: Put find_from_def find_char_append)
  moreover have "drop (5 + length k) (op_command x) = v"
    by (simp add: Put numeral_eq_Suc)
  ultimately show ?thesis
    using assms by (simp add: Put replay_command_def)
next
  case (Remove k)
  have "find_from CHR '' '' (op_command x) 0 = Some 6"
    by (simp add: Remove find_from_def)
  then show ?thesis
    using assms by (simp add: Remove replay_command_def)
qed

lemma replay_ops:
  "list_all op_loggable xs \<Longrightarrow>
    foldl replay_command m (map op_command xs) = foldl op_effect m xs"
  by (induction xs arbitrary: m) (simp_all add: replay_op)

lemma mp_run_op [simp]: "mp (run_op s x) = op_effect (mp s) x"
  by (cases x) (simp_all add: put_def remove_def)

lemma mp_run_ops: "mp (foldl run_op s xs) = foldl op_effect (mp s) xs"
  by (induction xs arbitrary: s) simp_all

lemma log_run_op [simp]:
  "writeAheadLog (run_op s x) = appendEntry (op_command x) (writeAheadLog s)"
  by (cases x) (simp_all add: put_def remove_def)

section \<open>What the store needs of its log\<close>

locale command_log =
  fixes append :: "string \<Rightarrow> 'w \<Rightarrow> 'w"
    and recovered :: "'w \<Rightarrow> string list"
    and healthy :: "'w \<Rightarrow> bool"
    and fits :: "string \<Rightarrow> bool"
  assumes recovered_append:
      "healthy w \<Longrightarrow> fits c \<Longrightarrow> recovered (append c w) = recovered w @ [c]"
    and healthy_append: "healthy w \<Longrightarrow> fits c \<Longrightarrow> healthy (append c w)"
begin

lemma healthy_appends: "healthy w \<Longrightarrow> list_all fits cs \<Longrightarrow> healthy (fold append cs w)"
  by (induction cs arbitrary: w) (auto intro: healthy_append)

lemma recovered_appends:
  "healthy w \<Longrightarrow> list_all fits cs \<Longrightarrow> recovered (fold append cs w) = recovered w @ cs"
  by (induction cs arbitrary: w) (auto simp: recovered_append healthy_append)

lemma replay_appends:
  assumes "healthy w" "list_all fits (map op_command xs)" "list_all op_loggable xs"
    and "foldl replay_command Map.empty (recovered w) = m"
  shows "foldl replay_command Map.empty (recovered (fold append (map op_command xs) w)) =
    foldl op_effect m xs"
  using assms by (simp add: recovered_appends replay_ops)

end

text \<open>What a fresh process reads back from the file of \<open>w\<close>.\<close>

definition recovered_commands :: "(nat \<Rightarrow> bool) \<Rightarrow> WAL \<Rightarrow> string list" where
  "recovered_commands alloc w =
     (case WAL_open alloc True (walFile w) of
        Inl _ \<Rightarrow> []
      | Inr w' \<Rightarrow> map wal_command (loadAllEntries w'))"

definition command_fits :: "(nat \<Rightarrow> bool) \<Rightarrow> string \<Rightarrow> bool" where
  "command_fits alloc c \<longleftrightarrow> length c < 2 ^ 64 \<and> alloc (length c)"

lemma recovered_commands_synced:
  "wal_synced alloc w \<Longrightarrow> recovered_commands alloc w = map wal_command (cachedEntries w)"
  by (simp add: recovered_commands_def wal_synced_reopen loadAllEntries_def)

interpretation wal_log: command_log appendEntry "recovered_commands alloc" "wal_synced alloc"
    "command_fits alloc" for alloc
proof
  show "wal_synced alloc (appendEntry c w)" if "wal_synced alloc w" "command_fits alloc c" for w c
    using that by (auto simp: command_fits_def intro: wal_synced_append)
  then show "recovered_commands alloc (appendEntry c w) = recovered_commands alloc w @ [c]"
    if "wal_synced alloc w" "command_fits alloc c" for w c
    using that by (simp add: recovered_commands_synced) (simp add: appendEntry_def Let_def)
qed

lemma log_run_ops:
  "writeAheadLog (foldl run_op s xs) = fold appendEntry (map op_command xs) (writeAheadLog s)"
  by (induction xs arbitrary: s) simp_all

lemma synced_run_ops:
  "wal_synced alloc (writeAheadLog s) \<Longrightarrow> list_all (command_fits alloc) (map op_command xs) \<Longrightarrow>
    wal_synced alloc (writeAheadLog (foldl run_op s xs))"
  by (simp add: log_run_ops wal_log.healthy_appends)

text \<open>Restarting after any run of loggable operations gives the store that was shut down.\<close>

lemma reopen_run_ops:
  assumes open_ok: "KVStore_open alloc True file = Inr s"
    and synced: "wal_synced alloc (writeAheadLog s)"
    and fits: "list_all (command_fits alloc) (map op_command xs)"
    and log: "list_all op_loggable xs"
  shows "KVStore_open alloc True (walFile (writeAheadLog (foldl run_op s xs))) =
    Inr (foldl run_op s xs)"
proof -
  let ?t = "foldl run_op s xs"
  have t: "wal_synced alloc (writeAheadLog ?t)"
    using synced fits by (rule synced_run_ops)
  have "mp s = foldl replay_command Map.empty (recovered_commands alloc (writeAheadLog s))"
    using open_ok synced
    by (auto simp: KVStore_open_def recovered_commands_synced loadAllEntries_def
        split: sum.splits)
  then have "foldl replay_command Map.empty (recovered_commands alloc (writeAheadLog ?t)) = mp ?t"
    using wal_log.replay_appends [OF synced fits log refl] by (simp add: log_run_ops mp_run_ops)
  then show ?thesis
    using t by (simp add: KVStore_open_def wal_synced_reopen recovered_commands_synced
        loadAllEntries_def)
qed

section \<open>What the Raft layer needs of the store\<close>

locale map_store =
  fixes sput :: "string \<Rightarrow> string \<Rightarrow> 's \<Rightarrow> 's"
    and sget :: "string \<Rightarrow> 's \<Rightarrow> string option"
    and sremove :: "string \<Rightarrow> 's \<Rightarrow> 's \<times> bool"
    and view :: "'s \<Rightarrow> string \<rightharpoonup> string"
  assumes view_put: "view (sput k v s) = (view s)(k \<mapsto> v)"
    and get_view: "sget k s = view s k"
    and view_remove: "view (fst (sremove k s)) = (view s)(k := None)"
    and remove_found: "snd (sremove k s) \<longleftrightarrow> view s k \<noteq> None"
begin

lemma get_put: "sget k' (sput k v s) = (if k' = k then Some v else sget k' s)"
  by (simp add: get_view view_put)

lemma get_remove: "sget k' (fst (sremove k s)) = (if k' = k then None else sget k' s)"
  by (simp add: get_view view_remove)

text \<open>
  Every node of the process applies its log to the one global store, so a command can be applied
  several times.  Re-applying a command at once is harmless; re-applying it after a later command
  on the same key is not.
\<close>

lemma put_again: "view (sput k v (sput k v s)) = view (sput k v s)"
  by (simp add: view_put)

lemma put_after_remove: "sget k (sput k v (fst (sremove k (sput k v s)))) = Some v"
  by (simp add: get_put)

end

interpretation kv: map_store put get remove dumpToMap
  by unfold_locales (auto simp: put_def get_def remove_def dumpToMap_def split: option.splits)

section \<open>Properties\<close>

text \<open>
  C24: The store recovers: after any run of \<open>put\<close> and \<open>remove\<close> whose commands the log can
  represent, a process that opens the same file ends up with exactly the store that was shut
  down, the log object included.
\<close>

theorem store_recovers:
  assumes "KVStore_open alloc True file = Inr s" "wal_synced alloc (writeAheadLog s)"
    and "list_all (command_fits alloc) (map op_command ops)" "list_all op_loggable ops"
  shows "KVStore_open alloc True (walFile (writeAheadLog (foldl run_op s ops))) =
    Inr (foldl run_op s ops)"
  using assms by (rule reopen_run_ops)

definition empty_store :: KVStore where
  "empty_store = \<lparr>mp = Map.empty, writeAheadLog =
     \<lparr>walFile = None, walWritable = True, cachedEntries = [], lastIndex = 0\<rparr>\<rparr>"

lemma empty_store_open: "KVStore_open alloc True None = Inr empty_store"
  by (simp add: KVStore_open_def WAL_open_def empty_store_def loadAllEntries_def)

lemma empty_store_synced: "wal_synced alloc (writeAheadLog empty_store)"
  by (simp add: empty_store_def wal_synced_def last_index_of_def)

theorem store_recovers_witness:
  "KVStore_open (\<lambda>_. True) True
      (walFile (writeAheadLog (foldl run_op empty_store [Put ''a'' ''1'', Remove ''b'']))) =
    Inr (foldl run_op empty_store [Put ''a'' ''1'', Remove ''b''])"
  using store_recovers [OF empty_store_open empty_store_synced,
      of "\<lambda>_. True" "[Put ''a'' ''1'', Remove ''b'']"]
  by (simp add: command_fits_def)

text \<open>
  C37: Recovery splits a logged \<open>PUT\<close> at the first \<open>=\<close>: a key that contains one comes back cut
  short, and its tail becomes part of the value.
\<close>

theorem recovery_splits_keys:
  assumes "CHR ''='' \<notin> set k" "k \<noteq> []"
  shows "replay_command m (op_command (Put (k @ ''='' @ k') v)) = m(k \<mapsto> k' @ ''='' @ v)"
proof -
  have "op_command (Put (k @ ''='' @ k') v) = op_command (Put k (k' @ ''='' @ v))" by simp
  then show ?thesis using replay_op [of "Put k (k' @ ''='' @ v)" m] assms by simp
qed

theorem recovery_splits_keys_witness:
  "replay_command Map.empty (op_command (Put ''a=b'' ''1'')) = [''a'' \<mapsto> ''b=1'']"
  using recovery_splits_keys [of "''a''" Map.empty "''b''" "''1''"] by simp

end
