(* ===== verification/Metrics_Model.thy ===== *)
theory Metrics_Model
  imports Prelude
begin

text \<open>
  \<open>metrics.h\<close> and \<open>logger.h\<close>: the counters a node keeps about itself and the level filter and
  line format of its log.  Counters are \<open>std::atomic<int>\<close>, modelled as HOL \<open>int\<close>.
\<close>

section \<open>Counters\<close>

record Metrics =
  m_currentTerm :: int
  m_votedFor :: int
  m_leaderId :: int
  m_role :: string
  m_logSize :: int
  m_commitIndex :: int
  m_lastApplied :: int
  snapshotCount :: int
  lastSnapshotIndex :: int
  lastSnapshotTerm :: int
  electionCount :: int
  leaderChanges :: int
  votesReceived :: int
  appendEntriesSent :: int
  appendEntriesReceived :: int
  requestVotesSent :: int
  requestVotesReceived :: int
  installSnapshotsSent :: int
  installSnapshotsReceived :: int
  clientRequestsReceived :: int
  clientRequestsSucceeded :: int
  clientRequestsFailed :: int
  clientRequestsRedirected :: int
  totalProcessingTimeMs :: int
  avgResponseTimeMs :: int
  startTime :: int

text \<open>The member initialisers and the constructor; times are milliseconds read from the clock.\<close>

definition Metrics_init :: "int \<Rightarrow> Metrics" where
  "Metrics_init now =
     \<lparr>m_currentTerm = 0, m_votedFor = - 1, m_leaderId = - 1, m_role = ''Follower'',
      m_logSize = 0, m_commitIndex = 0, m_lastApplied = 0,
      snapshotCount = 0, lastSnapshotIndex = 0, lastSnapshotTerm = 0,
      electionCount = 0, leaderChanges = 0, votesReceived = 0,
      appendEntriesSent = 0, appendEntriesReceived = 0,
      requestVotesSent = 0, requestVotesReceived = 0,
      installSnapshotsSent = 0, installSnapshotsReceived = 0,
      clientRequestsReceived = 0, clientRequestsSucceeded = 0,
      clientRequestsFailed = 0, clientRequestsRedirected = 0,
      totalProcessingTimeMs = 0, avgResponseTimeMs = 0, startTime = now\<rparr>"

definition getUptimeSeconds :: "int \<Rightarrow> Metrics \<Rightarrow> int" where
  "getUptimeSeconds now m = (now - startTime m) div 1000"

definition updateRole :: "string \<Rightarrow> Metrics \<Rightarrow> Metrics" where
  "updateRole newRole m =
     (if m_role m \<noteq> newRole
      then (if newRole = ''Leader'' then m\<lparr>leaderChanges := leaderChanges m + 1\<rparr> else m)
             \<lparr>m_role := newRole\<rparr>
      else m)"

definition recordSnapshot :: "int \<Rightarrow> int \<Rightarrow> Metrics \<Rightarrow> Metrics" where
  "recordSnapshot index trm m =
     m\<lparr>snapshotCount := snapshotCount m + 1, lastSnapshotIndex := index,
       lastSnapshotTerm := trm\<rparr>"

definition recordClientRequest :: "string \<Rightarrow> Metrics \<Rightarrow> Metrics" where
  "recordClientRequest result m =
     (let m = m\<lparr>clientRequestsReceived := clientRequestsReceived m + 1\<rparr>
      in if result = ''OK''
         then m\<lparr>clientRequestsSucceeded := clientRequestsSucceeded m + 1\<rparr>
         else if result = ''redirect''
         then m\<lparr>clientRequestsRedirected := clientRequestsRedirected m + 1\<rparr>
         else m\<lparr>clientRequestsFailed := clientRequestsFailed m + 1\<rparr>)"

text \<open>Every recorded request is counted in exactly one outcome.\<close>

definition request_balance :: "Metrics \<Rightarrow> int" where
  "request_balance m =
     clientRequestsReceived m -
     (clientRequestsSucceeded m + clientRequestsFailed m + clientRequestsRedirected m)"

lemma recordClientRequest_balance [simp]:
  "request_balance (recordClientRequest r m) = request_balance m"
  by (simp add: request_balance_def recordClientRequest_def Let_def)

lemma request_balance_frame [simp]:
  "request_balance (m\<lparr>appendEntriesSent := x\<rparr>) = request_balance m"
  "request_balance (m\<lparr>installSnapshotsSent := x\<rparr>) = request_balance m"
  "request_balance (m\<lparr>m_currentTerm := t, m_votedFor := v\<rparr>) = request_balance m"
  "request_balance (updateRole r m) = request_balance m"
  by (simp_all add: request_balance_def updateRole_def)

lemma updateRole_role [simp]: "m_role (updateRole r m) = r"
  by (simp add: updateRole_def)

lemma updateRole_leaderChanges:
  "leaderChanges (updateRole r m) =
    leaderChanges m + (if r = ''Leader'' \<and> m_role m \<noteq> ''Leader'' then 1 else 0)"
  by (simp add: updateRole_def)

section \<open>Log levels and lines\<close>

datatype LogLevel = DEBUG | INFO | WARN | ERROR

fun level_rank :: "LogLevel \<Rightarrow> nat" where
  "level_rank DEBUG = 0"
| "level_rank INFO = 1"
| "level_rank WARN = 2"
| "level_rank ERROR = 3"

lemma level_rank_inj: "level_rank a = level_rank b \<Longrightarrow> a = b"
  by (cases a; cases b) auto

text \<open>\<open>enum class\<close> members compare by their position.\<close>

instantiation LogLevel :: linorder
begin

definition less_eq_LogLevel :: "LogLevel \<Rightarrow> LogLevel \<Rightarrow> bool" where
  "less_eq_LogLevel a b \<longleftrightarrow> level_rank a \<le> level_rank b"

definition less_LogLevel :: "LogLevel \<Rightarrow> LogLevel \<Rightarrow> bool" where
  "less_LogLevel a b \<longleftrightarrow> level_rank a < level_rank b"

instance
  by standard (auto simp: less_eq_LogLevel_def less_LogLevel_def dest: level_rank_inj)

end

fun getLevelString :: "LogLevel \<Rightarrow> string" where
  "getLevelString DEBUG = ''DEBUG''"
| "getLevelString INFO = ''INFO ''"
| "getLevelString WARN = ''WARN ''"
| "getLevelString ERROR = ''ERROR''"

text \<open>\<open>operator<<\<close> and \<open>std::to_string\<close> on an \<open>int\<close>.\<close>

fun nat_digits :: "nat \<Rightarrow> string" where
  "nat_digits n =
     (if n < 10 then [char_of (48 + n)] else nat_digits (n div 10) @ [char_of (48 + n mod 10)])"

declare nat_digits.simps [simp del]

definition to_string :: "int \<Rightarrow> string" where
  "to_string i = (if i < 0 then CHR ''-'' # nat_digits (nat (- i)) else nat_digits (nat i))"

text \<open>
  \<open>Logger::log\<close>: the line that is written, if the level passes the filter.  The time stamp is
  read from the system clock and is a parameter.
\<close>

definition log_line ::
  "LogLevel \<Rightarrow> string \<Rightarrow> LogLevel \<Rightarrow> string \<Rightarrow> int \<Rightarrow> string \<Rightarrow> int \<Rightarrow> string option" where
  "log_line min_level stamp level message nodeId role trm =
     (if level < min_level then None
      else Some
        (''['' @ stamp @ '']'' @ ''['' @ getLevelString level @ '']'' @
         (if nodeId \<ge> 0 then ''[Node '' @ to_string nodeId @ '']'' else []) @
         (if role \<noteq> [] then ''['' @ role @ '']'' else []) @
         (if trm \<ge> 0 then ''[Term '' @ to_string trm @ '']'' else []) @
         '': '' @ message))"

text \<open>Raising the threshold only removes lines.\<close>

lemma log_line_mono:
  assumes "lo \<le> hi" "log_line hi stamp level msg n r t = Some l"
  shows "log_line lo stamp level msg n r t = Some l"
proof -
  have "\<not> level < lo" using assms by (auto simp: log_line_def split: if_splits)
  with assms show ?thesis by (auto simp: log_line_def split: if_splits)
qed

end
