(* ===== verification/Text_Stream.thy ===== *)
theory Text_Stream
  imports Prelude
begin

text \<open>
  The part of \<open>std::istringstream\<close> the sources use on text: a stream is its unread characters.
  Extraction of a token (\<open>iss >> s\<close>) skips white space and stops before the next one;
  \<open>std::getline\<close> reads up to a delimiter and drops it.  On an exhausted stream both leave the
  empty string in a freshly declared variable, which is what these functions return.
\<close>

text \<open>\<open>std::isspace\<close> in the C locale: space, \<open>\t\<close>, \<open>\n\<close>, \<open>\v\<close>, \<open>\f\<close>, \<open>\r\<close>.\<close>

definition is_space :: "char \<Rightarrow> bool" where
  "is_space c \<longleftrightarrow> (of_char c :: nat) \<in> {9, 10, 11, 12, 13, 32}"

definition newline :: char where
  "newline = char_of (10::nat)"

definition skip_ws :: "string \<Rightarrow> string" where
  "skip_ws s = dropWhile is_space s"

definition read_token :: "string \<Rightarrow> string \<times> string" where
  "read_token s =
     (let t = skip_ws s
      in (takeWhile (\<lambda>c. \<not> is_space c) t, dropWhile (\<lambda>c. \<not> is_space c) t))"

definition getline :: "char \<Rightarrow> string \<Rightarrow> string \<times> string" where
  "getline delim s = (takeWhile (\<lambda>c. c \<noteq> delim) s, drop 1 (dropWhile (\<lambda>c. c \<noteq> delim) s))"

lemma is_space_blank [simp]: "is_space CHR '' ''"
  by (simp add: is_space_def)

text \<open>A word: what a token extraction returns unchanged.\<close>

definition is_word :: "string \<Rightarrow> bool" where
  "is_word s \<longleftrightarrow> s \<noteq> [] \<and> list_all (\<lambda>c. \<not> is_space c) s"

lemma is_word_no_space: "is_word s \<Longrightarrow> c \<in> set s \<Longrightarrow> \<not> is_space c"
  by (auto simp: is_word_def list_all_iff)

lemma skip_ws_word [simp]: "is_word w \<Longrightarrow> skip_ws (w @ s) = w @ s"
  by (cases w) (auto simp: is_word_def skip_ws_def)

lemma skip_ws_blank [simp]: "skip_ws (CHR '' '' # s) = skip_ws s"
  by (simp add: skip_ws_def)

lemma read_token_word [simp]:
  assumes "is_word w"
  shows "read_token (w @ CHR '' '' # s) = (w, CHR '' '' # s)"
  using assms is_word_no_space [OF assms]
  by (simp add: read_token_def Let_def takeWhile_append2 dropWhile_append2)

lemma read_token_blank [simp]: "read_token (CHR '' '' # s) = read_token s"
  by (simp add: read_token_def)

lemma getline_all: "delim \<notin> set s \<Longrightarrow> fst (getline delim s) = s"
  by (simp add: getline_def takeWhile_eq_all_conv) metis

end
