(* ===== verification/Raft_Node.thy ===== *)
theory Raft_Node
  imports KVStore Metrics_Model Text_Stream
begin

text \<open>
  \<open>raft_node.h\<close> and the local operations of \<open>raft_node.cpp\<close>: the state a node keeps, its log
  with the snapshot offset, role changes, persistence of the Raft metadata, snapshot creation,
  the application of commands to the store, and the loop that applies committed entries.

  All the nodes of the process share the one global \<open>store\<close>; operations that touch it take it and
  return it beside the node.  Indices and terms are HOL \<open>int\<close>s: the theorems hold as long as
  no counter passes \<open>INT_MAX\<close>, where the C++ behaviour is undefined.

  \<open>mtx\<close> is not recursive.  \<open>mtxHeld\<close> is true while some thread holds it; a locking operation
  that finds it held by a thread that never releases it returns \<open>None\<close>: the caller hangs.
\<close>

section \<open>State\<close>

datatype NodeState = FOLLOWER | CANDIDATE | LEADER

record logEntry =
  entry_term :: int
  entry_index :: int
  entry_command :: string

record Snapshot =
  lastIncludedIndex :: int
  lastIncludedTerm :: int
  kvState :: "string \<rightharpoonup> string"

text \<open>A JSON file on disk: absent, not parsable, or with the contents last written.\<close>

datatype 'a disk_file = Missing | Unparsable | Contents 'a

text \<open>The members of \<open>RaftNode<id>.json\<close>; \<open>None\<close> is a member that is not there.\<close>

record raft_meta =
  j_currentTerm :: "int option"
  j_votedFor :: "int option"
  j_logEntries :: "logEntry list option"
  j_clientLastRequest :: "(string \<rightharpoonup> int) option"
  j_clientResultCache :: "(string \<rightharpoonup> string) option"

record RaftNode =
  shutdownRequested :: bool
  node_id :: int
  leaderId :: int
  state :: NodeState
  currentTerm :: int
  votedFor :: int
  log :: "logEntry list"
  commitIndex :: int
  lastApplied :: int
  electionTimeout :: int
  lastHeartbeat :: int
  rpcPort :: int
  mtxHeld :: bool
  stopTimer :: bool
  peerRpcPorts :: "int list"
  matchIndex :: "int list"
  nextIndex :: "int list"
  stopRPC :: bool
  serverSocket :: int
  runningHeartbeats :: bool
  clientLastRequest :: "string \<rightharpoonup> int"
  clientResultCache :: "string \<rightharpoonup> string"
  latestSnapshot :: "Snapshot option"
  snapshotBuffer :: bytes
  receivingSnapshot :: bool
  snapshotLeaderId :: int
  metrics :: Metrics
  metadataFile :: "raft_meta disk_file"
  snapshotFile :: "Snapshot disk_file"

text \<open>
  The constructor.  The two files of node \<open>nodeId\<close> are whatever an earlier process left; \<open>now\<close>
  is the reading of \<open>Clock::now()\<close> in milliseconds.
\<close>

definition RaftNode_new ::
  "int \<Rightarrow> int \<Rightarrow> int list \<Rightarrow> int \<Rightarrow> raft_meta disk_file \<Rightarrow> Snapshot disk_file \<Rightarrow> RaftNode" where
  "RaftNode_new nodeId port peers now meta snap =
     \<lparr>shutdownRequested = False, node_id = nodeId, leaderId = - 1, state = FOLLOWER,
      currentTerm = 0, votedFor = - 1, log = [], commitIndex = 0, lastApplied = 0,
      electionTimeout = 0, lastHeartbeat = now, rpcPort = port, mtxHeld = False,
      stopTimer = False, peerRpcPorts = peers,
      matchIndex = replicate (length peers) (- 1), nextIndex = replicate (length peers) 0,
      stopRPC = False, serverSocket = - 1, runningHeartbeats = False,
      clientLastRequest = Map.empty, clientResultCache = Map.empty,
      latestSnapshot = None, snapshotBuffer = [], receivingSnapshot = False,
      snapshotLeaderId = - 1, metrics = Metrics_init now,
      metadataFile = meta, snapshotFile = snap\<rparr>"

definition getRoleString :: "RaftNode \<Rightarrow> string" where
  "getRoleString n =
     (case state n of LEADER \<Rightarrow> ''Leader'' | CANDIDATE \<Rightarrow> ''Candidate'' | FOLLOWER \<Rightarrow> ''Follower'')"

section \<open>The log behind the snapshot\<close>

definition snapshot_index :: "RaftNode \<Rightarrow> int" where
  "snapshot_index n = (case latestSnapshot n of None \<Rightarrow> - 1 | Some sn \<Rightarrow> lastIncludedIndex sn)"

text \<open>
  \<open>latestSnapshot ? latestSnapshot->lastIncludedIndex + 1 : 0\<close>, and the position in \<open>log\<close> of the
  entry with a global index.
\<close>

definition base_index :: "RaftNode \<Rightarrow> int" where
  "base_index n =
     (case latestSnapshot n of None \<Rightarrow> 0 | Some sn \<Rightarrow> lastIncludedIndex sn + 1)"

definition log_position :: "RaftNode \<Rightarrow> int \<Rightarrow> int" where
  "log_position n idx =
     (case latestSnapshot n of None \<Rightarrow> idx | Some sn \<Rightarrow> idx - lastIncludedIndex sn - 1)"

definition getLogTerm :: "int \<Rightarrow> RaftNode \<Rightarrow> int" where
  "getLogTerm index n =
     (case latestSnapshot n of
        Some sn \<Rightarrow>
          if index \<le> lastIncludedIndex sn
          then (if index = lastIncludedIndex sn then lastIncludedTerm sn else 0)
          else
            (let logIndex = index - lastIncludedIndex sn - 1
             in if logIndex < 0 \<or> logIndex \<ge> int (length (log n)) then 0
                else entry_term (log n ! nat logIndex))
      | None \<Rightarrow>
          (let logIndex = index
           in if logIndex < 0 \<or> logIndex \<ge> int (length (log n)) then 0
              else entry_term (log n ! nat logIndex)))"

definition getLogSize :: "RaftNode \<Rightarrow> int" where
  "getLogSize n = base_index n + int (length (log n))"

definition getLogEntries :: "int \<Rightarrow> int \<Rightarrow> RaftNode \<Rightarrow> logEntry list" where
  "getLogEntries startIndex endIndex n =
     (let logStart = max 0 (startIndex - base_index n);
          logEnd = min (int (length (log n))) (endIndex - base_index n)
      in if logStart \<ge> logEnd \<or> logStart \<ge> int (length (log n)) then []
         else take (nat (logEnd - logStart)) (drop (nat logStart) (log n)))"

definition appendLogEntry :: "logEntry \<Rightarrow> RaftNode \<Rightarrow> RaftNode option" where
  "appendLogEntry entry n =
     (if mtxHeld n then None else Some (n\<lparr>log := log n @ [entry]\<rparr>))"

definition truncateLogSafe :: "int \<Rightarrow> RaftNode \<Rightarrow> RaftNode" where
  "truncateLogSafe lastIncl n =
     (let oldSnapshotIndex = snapshot_index n
      in if lastIncl \<le> oldSnapshotIndex then n
         else
           (let baseIndex = oldSnapshotIndex + 1;
                truncateAtLogIndex = lastIncl - baseIndex + 1
            in if truncateAtLogIndex > 0 \<and> truncateAtLogIndex \<le> int (length (log n))
               then n\<lparr>log := drop (nat truncateAtLogIndex) (log n)\<rparr>
               else n))"

text \<open>\<open>truncateLog\<close> of \<open>snapshot.cpp\<close>: the same job by filtering on the stored index.\<close>

definition truncateLog :: "int \<Rightarrow> logEntry list \<Rightarrow> logEntry list" where
  "truncateLog lastIncl lg = filter (\<lambda>e. entry_index e > lastIncl) lg"

section \<open>Persistence\<close>

definition persistMetadata :: "RaftNode \<Rightarrow> RaftNode" where
  "persistMetadata n =
     n\<lparr>metadataFile := Contents
         \<lparr>j_currentTerm = Some (currentTerm n), j_votedFor = Some (votedFor n),
          j_logEntries = Some (log n), j_clientLastRequest = Some (clientLastRequest n),
          j_clientResultCache = Some (clientResultCache n)\<rparr>\<rparr>"

definition loadMetadata :: "RaftNode \<Rightarrow> cpp_exn + RaftNode" where
  "loadMetadata n =
     (case metadataFile n of
        Missing \<Rightarrow> Inr n
      | Unparsable \<Rightarrow> Inl Json_Error
      | Contents j \<Rightarrow>
          Inr (n\<lparr>currentTerm := case_option 0 id (j_currentTerm j),
                 votedFor := case_option (- 1) id (j_votedFor j),
                 log := case_option [] id (j_logEntries j),
                 clientLastRequest :=
                   clientLastRequest n ++ case_option Map.empty id (j_clientLastRequest j),
                 clientResultCache :=
                   clientResultCache n ++ case_option Map.empty id (j_clientResultCache j)\<rparr>))"

definition saveSnapshot :: "Snapshot \<Rightarrow> RaftNode \<Rightarrow> RaftNode" where
  "saveSnapshot snap n = n\<lparr>snapshotFile := Contents snap\<rparr>"

definition loadSnapshot :: "int \<Rightarrow> Snapshot disk_file \<Rightarrow> cpp_exn + Snapshot" where
  "loadSnapshot nodeId file =
     (case file of
        Missing \<Rightarrow> Inl (Runtime_Error (''No snapshot found for node '' @ to_string nodeId))
      | Unparsable \<Rightarrow> Inl Json_Error
      | Contents snap \<Rightarrow> Inr snap)"

text \<open>
  \<open>restoreFromSnapshot\<close>: the store, \<open>lastApplied\<close>, \<open>commitIndex\<close> and the log; every exception
  is swallowed.
\<close>

definition restoreFromSnapshot ::
  "int \<Rightarrow> Snapshot disk_file \<Rightarrow> KVStore \<Rightarrow> int \<Rightarrow> int \<Rightarrow> logEntry list \<Rightarrow>
   KVStore \<times> int \<times> int \<times> logEntry list" where
  "restoreFromSnapshot nodeId file s lastAppl commitIdx lg =
     (case loadSnapshot nodeId file of
        Inl e \<Rightarrow> (s, lastAppl, commitIdx, lg)
      | Inr snap \<Rightarrow>
          (loadFromMap (kvState snap) s, lastIncludedIndex snap, lastIncludedIndex snap, []))"

text \<open>The snapshot part of \<open>RaftNode::start\<close> (the RPC thread it starts is not modelled).\<close>

definition start_restore :: "RaftNode \<Rightarrow> KVStore \<Rightarrow> cpp_exn + RaftNode \<times> KVStore" where
  "start_restore n s =
     (case snapshotFile n of
        Missing \<Rightarrow> Inr (n, s)
      | Unparsable \<Rightarrow> Inl Json_Error
      | Contents snap \<Rightarrow>
          Inr (n\<lparr>latestSnapshot := Some snap, lastApplied := lastIncludedIndex snap,
                 commitIndex := lastIncludedIndex snap\<rparr>,
               loadFromMap (kvState snap) s))"

text \<open>One node's part of \<open>raftAlgorithm\<close>'s start-up loop; \<open>r\<close> is the value of \<open>rand()\<close>.\<close>

definition boot_node ::
  "int \<Rightarrow> int \<Rightarrow> int list \<Rightarrow> int \<Rightarrow> nat \<Rightarrow> raft_meta disk_file \<Rightarrow> Snapshot disk_file \<Rightarrow>
   KVStore \<Rightarrow> cpp_exn + RaftNode \<times> KVStore" where
  "boot_node nodeId port peers now r meta snap s =
     (case loadMetadata (RaftNode_new nodeId port peers now meta snap) of
        Inl e \<Rightarrow> Inl e
      | Inr n \<Rightarrow> start_restore (n\<lparr>electionTimeout := 2000 + int (r mod 2000)\<rparr>) s)"

text \<open>The peers of node \<open>i\<close> as \<open>raftAlgorithm\<close> builds them.\<close>

definition raft_peers :: "int \<Rightarrow> nat \<Rightarrow> nat \<Rightarrow> int list" where
  "raft_peers basePort numNodes i =
     map (\<lambda>j. basePort + int j) (filter (\<lambda>j. j \<noteq> i) [0..<numNodes])"

section \<open>Role changes and timers\<close>

definition becomeFollower :: "int \<Rightarrow> RaftNode \<Rightarrow> RaftNode option" where
  "becomeFollower newTerm n =
     (if mtxHeld n then None
      else if shutdownRequested n then Some n
      else
        Some (persistMetadata
          (n\<lparr>currentTerm := newTerm, state := FOLLOWER,
             metrics := updateRole ''Follower''
               ((metrics n)\<lparr>m_currentTerm := newTerm, m_votedFor := votedFor n\<rparr>),
             votedFor := - 1, runningHeartbeats := False\<rparr>)))"

definition reset_timeout :: "int \<Rightarrow> nat \<Rightarrow> RaftNode \<Rightarrow> RaftNode option" where
  "reset_timeout now r n =
     (if mtxHeld n then None
      else if shutdownRequested n then Some n
      else Some (n\<lparr>lastHeartbeat := now, electionTimeout := 2000 + int (r mod 2000)\<rparr>))"

definition shutdownNode :: "RaftNode \<Rightarrow> RaftNode option" where
  "shutdownNode n =
     (if mtxHeld n then None
      else Some (n\<lparr>stopTimer := True, runningHeartbeats := False, stopRPC := True,
                   serverSocket := - 1\<rparr>))"

text \<open>The destructor: \<open>shutdownRequested.exchange(true)\<close>, and the shutdown only the first time.\<close>

definition RaftNode_destroy :: "RaftNode \<Rightarrow> RaftNode option" where
  "RaftNode_destroy n =
     (if shutdownRequested n then Some n else shutdownNode (n\<lparr>shutdownRequested := True\<rparr>))"

section \<open>Reports\<close>

definition updateLogMetrics :: "RaftNode \<Rightarrow> RaftNode" where
  "updateLogMetrics n =
     (let m = (metrics n)\<lparr>m_logSize := getLogSize n, m_commitIndex := commitIndex n,
                          m_lastApplied := lastApplied n\<rparr>
      in n\<lparr>metrics :=
             (case latestSnapshot n of
                None \<Rightarrow> m
              | Some sn \<Rightarrow> m\<lparr>lastSnapshotIndex := lastIncludedIndex sn,
                             lastSnapshotTerm := lastIncludedTerm sn\<rparr>)\<rparr>)"

record node_status =
  st_node_id :: int
  st_term :: int
  st_role :: string
  st_leader_id :: int
  st_commit_index :: int
  st_last_applied :: int
  st_log_size :: int
  st_voted_for :: int
  st_snapshot_count :: int
  st_last_snapshot_index :: int

definition getStatus :: "RaftNode \<Rightarrow> RaftNode \<times> node_status" where
  "getStatus n =
     (let n = updateLogMetrics n
      in (n, \<lparr>st_node_id = node_id n, st_term = currentTerm n,
              st_role = (if state n = LEADER then ''Leader''
                         else if state n = CANDIDATE then ''Candidate'' else ''Follower''),
              st_leader_id = leaderId n, st_commit_index = commitIndex n,
              st_last_applied = lastApplied n, st_log_size = getLogSize n,
              st_voted_for = votedFor n, st_snapshot_count = snapshotCount (metrics n),
              st_last_snapshot_index = lastSnapshotIndex (metrics n)\<rparr>))"

section \<open>Applying commands\<close>

definition applyToStateMachine :: "RaftNode \<Rightarrow> string \<Rightarrow> KVStore \<Rightarrow> KVStore \<times> string" where
  "applyToStateMachine n command s =
     (if shutdownRequested n then (s, ''error: node shutting down'')
      else
        (let (cmd, r1) = read_token command;
             (key, r2) = read_token r1;
             line = fst (getline newline r2);
             value = (if line \<noteq> [] \<and> hd line = CHR '' '' then tl line else line)
         in if cmd = ''PUT'' then (put key value s, ''OK'')
            else if cmd = ''GET'' then
              (s, case get key s of Some v \<Rightarrow> v | None \<Rightarrow> ''key not found'')
            else if cmd = ''DELETE'' then
              (case remove key s of (s', deleted) \<Rightarrow>
                 (s', if deleted then ''OK'' else ''key not found''))
            else (s, ''error: unknown command'')))"

text \<open>
  The loop \<open>while (lastApplied < commitIndex)\<close> of the AppendEntries handler and of
  \<open>handleClientCommand\<close>; the latter (\<open>chk\<close>) also stops when a shutdown was requested.  The
  last component is the reply of the last command applied.
\<close>

function apply_loop ::
  "bool \<Rightarrow> RaftNode \<Rightarrow> KVStore \<Rightarrow> string \<Rightarrow> RaftNode \<times> KVStore \<times> string" where
  "apply_loop chk n s res =
     (if lastApplied n < commitIndex n \<and> \<not> (chk \<and> shutdownRequested n)
      then
        (let n' = n\<lparr>lastApplied := lastApplied n + 1\<rparr>;
             logIdx = log_position n' (lastApplied n')
         in if 0 \<le> logIdx \<and> logIdx < int (length (log n'))
            then
              (case applyToStateMachine n' (entry_command (log n' ! nat logIdx)) s of
                 (s', res') \<Rightarrow> apply_loop chk n' s' res')
            else apply_loop chk n' s res)
      else (n, s, res))"
  by pat_completeness auto
termination
  by (relation "measure (\<lambda>(chk, n, s, res). nat (commitIndex n - lastApplied n))") auto

declare apply_loop.simps [simp del]

section \<open>Taking a snapshot\<close>

definition SNAPSHOT_THRESHOLD :: int where
  "SNAPSHOT_THRESHOLD = 3000"

text \<open>\<open>for (...) if (nextIndex[i] <= k) nextIndex[i] = k + 1\<close>\<close>

definition bump_next_index :: "int \<Rightarrow> int list \<Rightarrow> int list" where
  "bump_next_index k nxt = map (\<lambda>x. if x \<le> k then k + 1 else x) nxt"

text \<open>
  The block shared by \<open>triggerSnapshot\<close>, the AppendEntries handler and \<open>handleClientCommand\<close>.
  Truncating the write-ahead log may throw, after the node's log was already truncated.
\<close>

definition take_snapshot ::
  "RaftNode \<Rightarrow> KVStore \<Rightarrow> RaftNode \<times> KVStore \<times> cpp_exn option" where
  "take_snapshot n s =
     (let snap = \<lparr>lastIncludedIndex = lastApplied n,
                  lastIncludedTerm = getLogTerm (lastApplied n) n, kvState = dumpToMap s\<rparr>;
          n1 = truncateLogSafe (lastIncludedIndex snap) (saveSnapshot snap n);
          n2 = n1\<lparr>latestSnapshot := Some snap\<rparr>
      in case writeAheadLog_truncate (lastIncludedIndex snap) s of
           (s', Some e) \<Rightarrow> (n2, s', Some e)
         | (s', None) \<Rightarrow>
             (persistMetadata
                (n2\<lparr>nextIndex := bump_next_index (lastIncludedIndex snap) (nextIndex n2)\<rparr>),
              s', None))"

text \<open>\<open>triggerSnapshot\<close>; \<open>None\<close> when the lock is never granted.\<close>

definition triggerSnapshot ::
  "RaftNode \<Rightarrow> KVStore \<Rightarrow> (RaftNode \<times> KVStore \<times> bool) option" where
  "triggerSnapshot n s =
     (if log n = [] then Some (n, s, False)
      else if mtxHeld n then None
      else
        (case take_snapshot n s of
           (n', s', Some e) \<Rightarrow> Some (n', s', False)
         | (n', s', None) \<Rightarrow>
             Some (n'\<lparr>metrics := recordSnapshot (snapshot_index n')
                        (case latestSnapshot n' of None \<Rightarrow> 0 | Some sn \<Rightarrow> lastIncludedTerm sn)
                        (metrics n')\<rparr>, s', True)))"

section \<open>A node for the examples\<close>

text \<open>Node 0 of \<open>raftAlgorithm\<close>'s cluster, just constructed, without files.\<close>

definition demo_node :: RaftNode where
  "demo_node = RaftNode_new 0 5000 (raft_peers 5000 3 0) 0 Missing Missing"

definition demo_entry :: "int \<Rightarrow> int \<Rightarrow> string \<Rightarrow> logEntry" where
  "demo_entry t i c = \<lparr>entry_term = t, entry_index = i, entry_command = c\<rparr>"

lemma demo_peers [simp]: "raft_peers 5000 3 0 = [5001, 5002]"
  by (simp add: raft_peers_def upt_rec)

end
