(* ===== verification/Snapshot_Stream.thy ===== *)
theory Snapshot_Stream
  imports Raft_Node
begin

text \<open>
  The byte stream of a snapshot: \<open>serializeSnapshot\<close> of \<open>raft_node.cpp\<close> and
  \<open>deserializeSnapshot\<close> of \<open>rpc_server.cpp\<close>.

  The order in which an \<open>unordered_map\<close> is iterated is not specified, so the serializer takes the
  list of pairs the iteration yields; \<open>enumerates\<close> says that it is one.  The reader works on an
  \<open>istringstream\<close>: once a read comes up short the stream has failed, the variable keeps its old
  bytes beyond what was there, and later reads do nothing.
\<close>

definition enumerates :: "(string \<times> string) list \<Rightarrow> (string \<rightharpoonup> string) \<Rightarrow> bool" where
  "enumerates items m \<longleftrightarrow> distinct (map fst items) \<and> map_of items = m"

section \<open>Writing\<close>

definition serialize_pair :: "string \<times> string \<Rightarrow> bytes" where
  "serialize_pair kv =
     (case kv of (k, v) \<Rightarrow>
        int32_bytes (int (length k)) @ k @ int32_bytes (int (length v)) @ v)"

definition serializeSnapshot :: "(string \<times> string) list \<Rightarrow> Snapshot \<Rightarrow> bytes" where
  "serializeSnapshot items snap =
     int32_bytes (lastIncludedIndex snap) @ int32_bytes (lastIncludedTerm snap) @
     int32_bytes (int (length items)) @ concat (map serialize_pair items)"

section \<open>Reading\<close>

text \<open>
  \<open>iss.read(var, n)\<close> into a variable that holds the \<open>n\<close> bytes \<open>old\<close>; a stream is its unread
  bytes and whether it is still good.
\<close>

type_synonym in_stream = "bytes \<times> bool"

definition stream_read :: "bytes \<Rightarrow> in_stream \<Rightarrow> bytes \<times> in_stream" where
  "stream_read old st =
     (case st of (bs, good) \<Rightarrow>
        if \<not> good then (old, bs, False)
        else if length old \<le> length bs
        then (take (length old) bs, drop (length old) bs, True)
        else (bs @ drop (length bs) old, [], False))"

definition zeros :: "nat \<Rightarrow> bytes" where
  "zeros n = replicate n (char_of (0::nat))"

fun read_pairs ::
  "(nat \<Rightarrow> bool) \<Rightarrow> nat \<Rightarrow> in_stream \<Rightarrow> (string \<rightharpoonup> string) \<Rightarrow> cpp_exn + (string \<rightharpoonup> string)" where
  "read_pairs alloc 0 st m = Inr m"
| "read_pairs alloc (Suc i) st m =
     (let (kl, st) = stream_read (zeros 4) st; klen = int32_of kl
      in if klen < 0 \<or> \<not> alloc (nat klen) then Inl Length_Error
         else
           let (key, st) = stream_read (zeros (nat klen)) st;
               (vl, st) = stream_read (zeros 4) st; vlen = int32_of vl
           in if vlen < 0 \<or> \<not> alloc (nat vlen) then Inl Length_Error
              else
                let (val, st) = stream_read (zeros (nat vlen)) st
                in read_pairs alloc i st (m(key \<mapsto> val)))"

text \<open>
  The two metadata members are not initialised before they are read; \<open>junk\<close> is what the memory
  holds.  A negative \<open>size\<close> runs the loop no time.
\<close>

definition deserializeSnapshot ::
  "(nat \<Rightarrow> bool) \<Rightarrow> bytes \<times> bytes \<Rightarrow> bytes \<Rightarrow> cpp_exn + Snapshot" where
  "deserializeSnapshot alloc junk buffer =
     (let (idx, st) = stream_read (fst junk) (buffer, True);
          (trm, st) = stream_read (snd junk) st;
          (sz, st) = stream_read (zeros 4) st
      in map_sum id
           (\<lambda>m. \<lparr>lastIncludedIndex = int32_of idx, lastIncludedTerm = int32_of trm, kvState = m\<rparr>)
           (read_pairs alloc (nat (int32_of sz)) st Map.empty))"

section \<open>Reading back what was written\<close>

text \<open>A string the format can carry and the reader can allocate.\<close>

definition string_fits :: "(nat \<Rightarrow> bool) \<Rightarrow> string \<Rightarrow> bool" where
  "string_fits alloc x \<longleftrightarrow> length x < 2 ^ 31 \<and> alloc (length x)"

definition pair_fits :: "(nat \<Rightarrow> bool) \<Rightarrow> string \<times> string \<Rightarrow> bool" where
  "pair_fits alloc kv \<longleftrightarrow> string_fits alloc (fst kv) \<and> string_fits alloc (snd kv)"

lemma length_zeros [simp]: "length (zeros n) = n"
  by (simp add: zeros_def)

lemma stream_read_exact:
  "length xs = length old \<Longrightarrow> stream_read old (xs @ rest, True) = (xs, rest, True)"
  by (simp add: stream_read_def)

lemma stream_read_int32:
  "length old = 4 \<Longrightarrow> stream_read old (int32_bytes x @ rest, True) = (int32_bytes x, rest, True)"
  by (simp add: stream_read_exact)

lemma length_range: "n < 2 ^ 31 \<Longrightarrow> int32_range (int n)"
  by (simp add: int32_range_def)

definition store_pair :: "(string \<rightharpoonup> string) \<Rightarrow> string \<times> string \<Rightarrow> string \<rightharpoonup> string" where
  "store_pair m kv = m(fst kv \<mapsto> snd kv)"

lemma store_pair_eq [simp]: "store_pair m (k, v) = m(k \<mapsto> v)"
  by (simp add: store_pair_def)

lemma read_pairs_written:
  "list_all (pair_fits alloc) items \<Longrightarrow>
    read_pairs alloc (length items) (concat (map serialize_pair items) @ rest, True) m =
      Inr (foldl store_pair m items)"
proof (induction items arbitrary: m)
  case (Cons kv items)
  obtain k v where kv: "kv = (k, v)" by fastforce
  have f: "int32_range (int (length k))" "int32_range (int (length v))"
    "alloc (length k)" "alloc (length v)"
    using Cons.prems by (auto simp: kv pair_fits_def string_fits_def intro: length_range)
  let ?tail = "concat (map serialize_pair items) @ rest"
  have "read_pairs alloc (length (kv # items))
      (concat (map serialize_pair (kv # items)) @ rest, True) m =
      read_pairs alloc (length items) (?tail, True) (m(k \<mapsto> v))"
    by (simp add: kv serialize_pair_def stream_read_int32 stream_read_exact int32_round_trip f)
  then show ?case using Cons.IH [of "m(k \<mapsto> v)"] Cons.prems by (simp add: kv del: fun_upd_apply read_pairs.simps)
qed simp

lemma foldl_store_pair: "foldl store_pair m items = m ++ map_of (rev items)"
proof (induction items arbitrary: m)
  case (Cons kv items)
  then show ?case by (cases kv) (simp del: fun_upd_apply)
qed simp

lemma map_of_rev_distinct: "distinct (map fst xs) \<Longrightarrow> map_of (rev xs) = map_of xs"
proof (induction xs)
  case (Cons x xs)
  then have "fst x \<notin> dom (map_of xs)" by (simp add: dom_map_of_conv_image_fst)
  moreover have "map_of (rev xs) = map_of xs" using Cons by simp
  ultimately show ?case
    by (cases x) (auto simp: map_add_def fun_eq_iff domIff split: option.splits)
qed simp

lemma snapshot_stream_round_trip:
  assumes "enumerates items (kvState snap)" "list_all (pair_fits alloc) items"
    and "length items < 2 ^ 31" "int32_range (lastIncludedIndex snap)"
    and "int32_range (lastIncludedTerm snap)" "length (fst junk) = 4" "length (snd junk) = 4"
  shows "deserializeSnapshot alloc junk (serializeSnapshot items snap) = Inr snap"
proof -
  have "foldl store_pair Map.empty items = kvState snap"
    using assms(1) by (simp add: enumerates_def foldl_store_pair map_of_rev_distinct)
  then have "read_pairs alloc (length items) (concat (map serialize_pair items), True) Map.empty =
      Inr (kvState snap)"
    using read_pairs_written [OF assms(2), of "[]" Map.empty] by simp
  then show ?thesis
    using assms(3-7)
    by (simp add: deserializeSnapshot_def serializeSnapshot_def stream_read_int32
        int32_round_trip length_range)
qed

section \<open>Properties\<close>

text \<open>
  A snapshot survives its byte stream: the follower's reader recovers the snapshot the leader
  wrote, whatever order the map was iterated in and whatever the uninitialised variables of the
  reader held.
\<close>

theorem snapshot_round_trip:
  assumes "enumerates items (kvState snap)" "list_all (pair_fits alloc) items"
    and "length items < 2 ^ 31" "int32_range (lastIncludedIndex snap)"
    and "int32_range (lastIncludedTerm snap)" "length (fst junk) = 4" "length (snd junk) = 4"
  shows "deserializeSnapshot alloc junk (serializeSnapshot items snap) = Inr snap"
  using assms by (rule snapshot_stream_round_trip)

definition demo_snapshot :: Snapshot where
  "demo_snapshot = \<lparr>lastIncludedIndex = 2999, lastIncludedTerm = 3,
     kvState = [''b'' \<mapsto> ''2'', ''a'' \<mapsto> ''1'']\<rparr>"

lemma demo_snapshot_items:
  "enumerates [(''a'', ''1''), (''b'', ''2'')] (kvState demo_snapshot)"
  by (simp add: enumerates_def demo_snapshot_def)

theorem snapshot_round_trip_witness:
  "deserializeSnapshot (\<lambda>_. True) (''abcd'', ''abcd'')
      (serializeSnapshot [(''a'', ''1''), (''b'', ''2'')] demo_snapshot) = Inr demo_snapshot"
  by (rule snapshot_round_trip [OF demo_snapshot_items])
    (simp_all add: demo_snapshot_def int32_range_def pair_fits_def string_fits_def)

end
