(* ===== verification/Raft_Log.thy ===== *)
theory Raft_Log
  imports Raft_Node
begin

text \<open>
  The abstract view of a node's log: a finite part of it has been replaced by a snapshot, the rest
  is addressed by global index.  The lemmas say that the accessors of \<open>raft_node.cpp\<close> read this
  view, that taking a snapshot does not change it above the snapshot, and what the apply loop does
  to the store.
\<close>

section \<open>The view and its invariant\<close>

definition entry_at :: "RaftNode \<Rightarrow> int \<Rightarrow> logEntry option" where
  "entry_at n idx =
     (let p = log_position n idx
      in if 0 \<le> p \<and> p < int (length (log n)) then Some (log n ! nat p) else None)"

text \<open>Every entry sits at the position its index says.\<close>

definition log_wf :: "RaftNode \<Rightarrow> bool" where
  "log_wf n \<longleftrightarrow> (\<forall>i < length (log n). entry_index (log n ! i) = base_index n + int i)"

lemma base_index_snapshot: "base_index n = snapshot_index n + 1"
  by (simp add: base_index_def snapshot_index_def split: option.splits)

lemma log_position_base: "log_position n idx = idx - base_index n"
  by (simp add: log_position_def base_index_def split: option.splits)

lemma entry_at_Some_iff:
  "(\<exists>e. entry_at n idx = Some e) \<longleftrightarrow> base_index n \<le> idx \<and> idx < getLogSize n"
  by (auto simp: entry_at_def log_position_base getLogSize_def Let_def)

lemma entry_at_index: "log_wf n \<Longrightarrow> entry_at n idx = Some e \<Longrightarrow> entry_index e = idx"
  by (auto simp: entry_at_def log_wf_def log_position_base Let_def split: if_splits)

lemma entry_at_cong:
  "log n' = log n \<Longrightarrow> latestSnapshot n' = latestSnapshot n \<Longrightarrow> entry_at n' = entry_at n"
  by (rule ext) (simp add: entry_at_def log_position_def Let_def)

lemma getLogTerm_view:
  assumes "snapshot_index n < idx \<or> latestSnapshot n = None"
  shows "getLogTerm idx n = (case entry_at n idx of None \<Rightarrow> 0 | Some e \<Rightarrow> entry_term e)"
  using assms
  by (auto simp: getLogTerm_def entry_at_def log_position_def snapshot_index_def Let_def
      split: option.splits)

lemma getLogTerm_boundary:
  "latestSnapshot n = Some sn \<Longrightarrow> getLogTerm (lastIncludedIndex sn) n = lastIncludedTerm sn"
  by (simp add: getLogTerm_def)

lemma getLogTerm_outside: "getLogSize n \<le> idx \<Longrightarrow> latestSnapshot n = None \<or> snapshot_index n < idx
    \<Longrightarrow> getLogTerm idx n = 0"
  by (auto simp: getLogTerm_def getLogSize_def base_index_def snapshot_index_def Let_def
      split: option.splits)

text \<open>A batch is exactly the requested part of the log that exists.\<close>

lemma length_getLogEntries:
  "length (getLogEntries a b n) =
    nat (min (getLogSize n) b - max (base_index n) a)"
  by (auto simp: getLogEntries_def getLogSize_def Let_def min_def max_def) arith+

lemma nth_getLogEntries:
  assumes "i < length (getLogEntries a b n)"
  shows "entry_at n (max (base_index n) a + int i) = Some (getLogEntries a b n ! i)"
proof -
  define s where "s = nat (max 0 (a - base_index n))"
  have ne: "getLogEntries a b n = take (length (getLogEntries a b n)) (drop s (log n))"
    using assms by (auto simp: getLogEntries_def Let_def s_def min_def max_def split: if_splits)
  then have "getLogEntries a b n ! i = drop s (log n) ! i"
    using assms by (metis nth_take)
  moreover have "s + i < length (log n)"
  proof -
    have "length (getLogEntries a b n) \<le> length (log n) - s"
      by (subst ne) simp
    with assms show ?thesis by simp
  qed
  moreover have "max (base_index n) a + int i = base_index n + int (s + i)"
    by (simp add: s_def max_def)
  ultimately show ?thesis
    by (simp add: entry_at_def log_position_base Let_def) (simp add: nat_add_distrib)
qed

section \<open>Truncation behind a snapshot\<close>

lemma truncateLogSafe_log:
  assumes "k < getLogSize n"
  shows "log (truncateLogSafe k n) = drop (nat (k - snapshot_index n)) (log n)"
  using assms
  by (auto simp: truncateLogSafe_def Let_def getLogSize_def base_index_snapshot)

lemma truncateLogSafe_frame [frame_simps]:
  "truncateLogSafe k n = n\<lparr>log := log (truncateLogSafe k n)\<rparr>"
  by (simp add: truncateLogSafe_def Let_def)

text \<open>On a well-formed log the positional and the filtering truncation agree.\<close>

lemma filter_index_drop:
  "(\<And>i. i < length xs \<Longrightarrow> entry_index (xs ! i) = b + int i) \<Longrightarrow>
    filter (\<lambda>e. entry_index e > k) xs = drop (nat (k + 1 - b)) xs"
proof (induction xs arbitrary: b)
  case (Cons x xs)
  have x: "entry_index x = b" using Cons.prems [of 0] by simp
  have tl: "entry_index (xs ! i) = b + 1 + int i" if "i < length xs" for i
    using Cons.prems [of "Suc i"] that by simp
  show ?case
  proof (cases "b > k")
    case True
    then show ?thesis using x Cons.IH [OF tl] by simp
  next
    case False
    then have "nat (k + 1 - b) = Suc (nat (k + 1 - (b + 1)))" by simp
    then show ?thesis using x False Cons.IH [OF tl] by simp
  qed
qed simp

lemma truncate_agree:
  assumes "log_wf n" "k < getLogSize n"
  shows "log (truncateLogSafe k n) = truncateLog k (log n)"
proof -
  have "filter (\<lambda>e. entry_index e > k) (log n) = drop (nat (k + 1 - base_index n)) (log n)"
    using assms(1) by (intro filter_index_drop) (simp add: log_wf_def)
  then show ?thesis
    using assms(2) by (simp add: truncateLogSafe_log truncateLog_def base_index_snapshot)
qed

text \<open>What \<open>take_snapshot\<close> leaves behind, whether or not the write-ahead log could be truncated.\<close>

lemma take_snapshot_log:
  assumes "take_snapshot n s = (n', s', r)" "lastApplied n < getLogSize n"
  shows "log n' = drop (nat (lastApplied n - snapshot_index n)) (log n)"
    and "latestSnapshot n' = Some \<lparr>lastIncludedIndex = lastApplied n,
           lastIncludedTerm = getLogTerm (lastApplied n) n, kvState = dumpToMap s\<rparr>"
    and "lastApplied n' = lastApplied n" "commitIndex n' = commitIndex n"
    and "currentTerm n' = currentTerm n" "votedFor n' = votedFor n" "state n' = state n"
proof -
  have size: "getLogSize (n\<lparr>snapshotFile := f\<rparr>) = getLogSize n"
    and idx: "snapshot_index (n\<lparr>snapshotFile := f\<rparr>) = snapshot_index n" for f
    by (simp_all add: getLogSize_def base_index_def snapshot_index_def)
  have "log n' = log (truncateLogSafe (lastApplied n) (n\<lparr>snapshotFile :=
      Contents \<lparr>lastIncludedIndex = lastApplied n,
        lastIncludedTerm = getLogTerm (lastApplied n) n, kvState = dumpToMap s\<rparr>\<rparr>))"
    using assms(1)
    by (auto simp: take_snapshot_def Let_def saveSnapshot_def persistMetadata_def
        split: prod.splits option.splits)
  then show "log n' = drop (nat (lastApplied n - snapshot_index n)) (log n)"
    using assms(2) by (simp add: truncateLogSafe_log size idx)
  show "latestSnapshot n' = Some \<lparr>lastIncludedIndex = lastApplied n,
      lastIncludedTerm = getLogTerm (lastApplied n) n, kvState = dumpToMap s\<rparr>"
    using assms(1) by (auto simp: take_snapshot_def Let_def persistMetadata_def
        split: prod.splits option.splits)
  show "lastApplied n' = lastApplied n" "commitIndex n' = commitIndex n"
    "currentTerm n' = currentTerm n" "votedFor n' = votedFor n" "state n' = state n"
    using assms(1)
    by (auto simp: take_snapshot_def Let_def persistMetadata_def saveSnapshot_def
        truncateLogSafe_def split: prod.splits option.splits)
qed

lemma take_snapshot_base:
  assumes "take_snapshot n s = (n', s', r)" "lastApplied n < getLogSize n"
  shows "base_index n' = lastApplied n + 1" "snapshot_index n' = lastApplied n"
  using take_snapshot_log(2) [OF assms] by (simp_all add: base_index_def snapshot_index_def)

lemma take_snapshot_size:
  assumes "take_snapshot n s = (n', s', r)" "lastApplied n < getLogSize n"
    and "snapshot_index n \<le> lastApplied n"
  shows "getLogSize n' = getLogSize n"
  using assms(2,3)
  by (simp add: getLogSize_def take_snapshot_base [OF assms(1,2)] take_snapshot_log(1) [OF assms(1,2)]
      base_index_snapshot [of n])

lemma take_snapshot_entry_at:
  assumes "take_snapshot n s = (n', s', r)" "lastApplied n < getLogSize n"
    and "snapshot_index n \<le> lastApplied n" "lastApplied n < idx"
  shows "entry_at n' idx = entry_at n idx"
proof -
  let ?d = "nat (lastApplied n - snapshot_index n)"
  have "nat (idx - base_index n) = ?d + nat (idx - base_index n')"
    using assms(3,4) by (simp add: take_snapshot_base [OF assms(1,2)] base_index_snapshot [of n])
  then show ?thesis
    using assms(2,3,4)
    by (auto simp: entry_at_def log_position_base Let_def take_snapshot_base [OF assms(1,2)]
        take_snapshot_log(1) [OF assms(1,2)] base_index_snapshot [of n] getLogSize_def)
qed

lemma take_snapshot_term:
  assumes "take_snapshot n s = (n', s', r)" "lastApplied n < getLogSize n"
    and "snapshot_index n \<le> lastApplied n" "lastApplied n \<le> idx"
  shows "getLogTerm idx n' = getLogTerm idx n"
proof (cases "idx = lastApplied n")
  case True
  then show ?thesis
    using getLogTerm_boundary [OF take_snapshot_log(2) [OF assms(1,2)]] by simp
next
  case False
  with assms(3,4) have lt: "lastApplied n < idx" "snapshot_index n < idx" by auto
  then show ?thesis
    by (simp add: getLogTerm_view take_snapshot_base(2) [OF assms(1,2)]
        take_snapshot_entry_at [OF assms(1-3) lt(1)])
qed

lemma take_snapshot_wf:
  assumes "take_snapshot n s = (n', s', r)" "lastApplied n < getLogSize n"
    and "snapshot_index n \<le> lastApplied n" "log_wf n"
  shows "log_wf n'"
  using assms(3,4)
  by (auto simp: log_wf_def take_snapshot_log(1) [OF assms(1,2)]
      take_snapshot_base [OF assms(1,2)] base_index_snapshot [of n])

section \<open>Properties\<close>

text \<open>
  C28: Taking a snapshot is invisible to the protocol: above the snapshot every entry is still at
  its global index, the terms from the snapshot on (its own included) and the size of the log are
  unchanged, and the snapshot describes the state machine at \<open>lastApplied\<close>.
\<close>

theorem snapshot_keeps_log:
  assumes "take_snapshot n s = (n', s', r)" "snapshot_index n \<le> lastApplied n"
    and "lastApplied n < getLogSize n" "log_wf n"
  shows "getLogSize n' = getLogSize n \<and> log_wf n' \<and>
    (\<forall>idx > lastApplied n. entry_at n' idx = entry_at n idx) \<and>
    (\<forall>idx \<ge> lastApplied n. getLogTerm idx n' = getLogTerm idx n) \<and>
    latestSnapshot n' = Some \<lparr>lastIncludedIndex = lastApplied n,
      lastIncludedTerm = getLogTerm (lastApplied n) n, kvState = dumpToMap s\<rparr>"
  using take_snapshot_size [OF assms(1,3,2)] take_snapshot_wf [OF assms(1,3,2,4)]
    take_snapshot_entry_at [OF assms(1,3,2)] take_snapshot_term [OF assms(1,3,2)]
    take_snapshot_log(2) [OF assms(1,3)]
  by blast

definition demo_log_node :: RaftNode where
  "demo_log_node = demo_node\<lparr>lastApplied := 1, log := [demo_entry 1 0 ''PUT a 1'',
     demo_entry 1 1 ''PUT b 2'', demo_entry 1 2 ''PUT c 3'']\<rparr>"

lemma demo_log_node_simps [simp]:
  "snapshot_index demo_log_node = - 1" "base_index demo_log_node = 0"
  "getLogSize demo_log_node = 3" "lastApplied demo_log_node = 1" "log_wf demo_log_node"
  by (simp_all add: demo_log_node_def demo_node_def RaftNode_new_def snapshot_index_def
      base_index_def getLogSize_def log_wf_def demo_entry_def less_Suc_eq numeral_3_eq_3)

theorem snapshot_keeps_log_witness:
  "entry_at (fst (take_snapshot demo_log_node empty_store)) 2 = Some (demo_entry 1 2 ''PUT c 3'')"
proof -
  obtain n' s' r where t: "take_snapshot demo_log_node empty_store = (n', s', r)"
    using prod_cases3 by blast
  have "entry_at demo_log_node 2 = Some (demo_entry 1 2 ''PUT c 3'')"
    by (simp add: entry_at_def log_position_base Let_def)
      (simp add: demo_log_node_def)
  then show ?thesis using snapshot_keeps_log [OF t] t by simp
qed

text \<open>
  The two truncations agree: \<open>truncateLogSafe\<close> of \<open>raft_node.cpp\<close>, which computes a position,
  leaves what \<open>truncateLog\<close> of \<open>snapshot.cpp\<close> leaves, which filters on the stored indices.
\<close>

theorem truncations_agree:
  assumes "log_wf n" "k < getLogSize n"
  shows "log (truncateLogSafe k n) = truncateLog k (log n)"
  using assms by (rule truncate_agree)

theorem truncations_agree_witness:
  "log (truncateLogSafe 1 demo_log_node) = truncateLog 1 (log demo_log_node)"
  using truncations_agree [of demo_log_node 1] by simp

text \<open>
  \<open>getLogEntries\<close> returns exactly the entries of the requested range that the node still has:
  its length is the size of the intersection, and position \<open>i\<close> holds the entry with global index
  \<open>max start base + i\<close>.
\<close>

theorem getLogEntries_exact:
  "length (getLogEntries a b n) = nat (min (getLogSize n) b - max (base_index n) a) \<and>
   (\<forall>i < length (getLogEntries a b n).
      entry_at n (max (base_index n) a + int i) = Some (getLogEntries a b n ! i))"
  using length_getLogEntries nth_getLogEntries by blast

theorem getLogEntries_exact_witness: "length (getLogEntries 1 9 demo_log_node) = 2"
  using getLogEntries_exact [of 1 9 demo_log_node] by simp

end
