(* ===== verification/Election.thy ===== *)
theory Election
  imports Raft_Log
begin

text \<open>
  Leader election: the RequestVote handler of \<open>rpc_server.cpp\<close>, and \<open>start_election\<close> and
  \<open>election_timer\<close> of \<open>raft_node.cpp\<close>.  \<open>start_election\<close> releases the node's mutex while it
  waits for its peers, so it is cut into the pieces between which other threads can run: the
  beginning, one request and one reply per peer, and the end.
\<close>

section \<open>Messages\<close>

record RequestVoteRPC =
  rv_term :: int
  rv_candidateId :: int
  rv_lastLogIndex :: int
  rv_lastLogTerm :: int

record RequestVoteResponse =
  rvr_term :: int
  voteGranted :: bool

text \<open>
  What \<open>sendRPC\<close> brings back: the empty string, text that does not parse (or whose members have
  the wrong type), or a reply.
\<close>

datatype 'r rpc_reply = No_Reply | Bad_Reply | Reply 'r

section \<open>The RequestVote handler\<close>

text \<open>
  Positions of logs, ordered as the handler compares them: by the last term, then by the last
  index.
\<close>

datatype log_pos = Log_Pos (pos_term: int) (pos_index: int)

instantiation log_pos :: linorder
begin

definition less_eq_log_pos :: "log_pos \<Rightarrow> log_pos \<Rightarrow> bool" where
  "less_eq_log_pos a b \<longleftrightarrow>
     pos_term a < pos_term b \<or> pos_term a = pos_term b \<and> pos_index a \<le> pos_index b"

definition less_log_pos :: "log_pos \<Rightarrow> log_pos \<Rightarrow> bool" where
  "less_log_pos a b \<longleftrightarrow>
     pos_term a < pos_term b \<or> pos_term a = pos_term b \<and> pos_index a < pos_index b"

instance
  by standard (auto simp: less_eq_log_pos_def less_log_pos_def intro: log_pos.expand)

end

definition candidateUpToDate :: "int \<Rightarrow> int \<Rightarrow> int \<Rightarrow> int \<Rightarrow> bool" where
  "candidateUpToDate lastLogTerm lastLogIndex myLastTerm myLastIndex \<longleftrightarrow>
     lastLogTerm > myLastTerm \<or> lastLogTerm = myLastTerm \<and> lastLogIndex \<ge> myLastIndex"

lemma candidateUpToDate_order:
  "candidateUpToDate t i t' i' \<longleftrightarrow> Log_Pos t' i' \<le> Log_Pos t i"
  by (auto simp: candidateUpToDate_def less_eq_log_pos_def)

text \<open>
  \<open>myLastIndex\<close> and \<open>myLastTerm\<close> of the voter are read from the vector itself, without the
  snapshot offset.
\<close>

definition voter_last_index :: "RaftNode \<Rightarrow> int" where
  "voter_last_index n = int (length (log n)) - 1"

definition voter_last_term :: "RaftNode \<Rightarrow> int" where
  "voter_last_term n =
     (if voter_last_index n \<ge> 0 then entry_term (log n ! nat (voter_last_index n)) else 0)"

text \<open>The second half of the handler: the decision, once the terms agree.\<close>

definition decide_vote :: "RequestVoteRPC \<Rightarrow> RaftNode \<Rightarrow> RaftNode \<times> bool" where
  "decide_vote r n =
     (let notVotedYet = (votedFor n = - 1 \<or> votedFor n = rv_candidateId r)
      in if notVotedYet \<and>
            candidateUpToDate (rv_lastLogTerm r) (rv_lastLogIndex r)
              (voter_last_term n) (voter_last_index n)
         then
           (let n' = persistMetadata (n\<lparr>votedFor := rv_candidateId r\<rparr>)
            in (n'\<lparr>metrics := (metrics n')\<lparr>votesReceived := votesReceived (metrics n') + 1\<rparr>\<rparr>,
                True))
         else (n, False))"

text \<open>The whole branch of \<open>handle_node_client\<close>; \<open>None\<close> when \<open>becomeFollower\<close> never returns.\<close>

definition handle_RequestVote ::
  "RequestVoteRPC \<Rightarrow> RaftNode \<Rightarrow> RaftNode \<times> RequestVoteResponse option" where
  "handle_RequestVote r n =
     (let n = n\<lparr>metrics := (metrics n)\<lparr>requestVotesReceived := requestVotesReceived (metrics n) + 1\<rparr>\<rparr>
      in if rv_term r < currentTerm n
         then (n, Some \<lparr>rvr_term = currentTerm n, voteGranted = False\<rparr>)
         else
           (case (if rv_term r > currentTerm n then becomeFollower (rv_term r) n else Some n) of
              None \<Rightarrow> (n, None)
            | Some n \<Rightarrow>
                (case decide_vote r n of
                   (n, granted) \<Rightarrow>
                     (n, Some \<lparr>rvr_term = currentTerm n, voteGranted = granted\<rparr>))))"

definition vote_granted :: "RequestVoteRPC \<Rightarrow> RaftNode \<Rightarrow> bool" where
  "vote_granted r n =
     (case snd (handle_RequestVote r n) of None \<Rightarrow> False | Some resp \<Rightarrow> voteGranted resp)"

section \<open>Standing for election\<close>

datatype 'a thread_result =
    Goes_On 'a        \<comment> \<open>the thread continues\<close>
  | Returns 'a        \<comment> \<open>the function returns here\<close>
  | Hangs 'a          \<comment> \<open>the thread waits for a mutex for ever\<close>

text \<open>The first block: step up, under the lock, and persist.\<close>

definition begin_election :: "RaftNode \<Rightarrow> RaftNode thread_result" where
  "begin_election n =
     (if mtxHeld n then Hangs n
      else if shutdownRequested n then Returns n
      else
        Goes_On (persistMetadata
          (n\<lparr>state := CANDIDATE,
             metrics := updateRole ''Candidate''
               ((metrics n)\<lparr>m_currentTerm := currentTerm n, m_votedFor := votedFor n,
                            electionCount := electionCount (metrics n) + 1\<rparr>),
             currentTerm := currentTerm n + 1, votedFor := node_id n\<rparr>)))"

definition vote_request :: "RaftNode \<Rightarrow> RequestVoteRPC" where
  "vote_request n =
     \<lparr>rv_term = currentTerm n, rv_candidateId = node_id n,
      rv_lastLogIndex = getLogSize n - 1, rv_lastLogTerm = getLogTerm (getLogSize n - 1) n\<rparr>"

text \<open>What the candidate does when \<open>sendRPC\<close> to one peer returns; \<open>votes\<close> is the count so far.\<close>

definition receive_vote ::
  "RequestVoteResponse rpc_reply \<Rightarrow> RaftNode \<times> int \<Rightarrow> (RaftNode \<times> int) thread_result" where
  "receive_vote reply nv =
     (case nv of (n, votes) \<Rightarrow>
        let n = n\<lparr>metrics := (metrics n)\<lparr>requestVotesSent := requestVotesSent (metrics n) + 1\<rparr>\<rparr>
        in if shutdownRequested n then Returns (n, votes)
           else
             (case reply of
                No_Reply \<Rightarrow> Goes_On (n, votes)
              | Bad_Reply \<Rightarrow> Goes_On (n, votes)
              | Reply resp \<Rightarrow>
                  if rvr_term resp > currentTerm n then
                    (if mtxHeld n then Hangs (n, votes)
                     else
                       Returns (persistMetadata
                         (n\<lparr>currentTerm := rvr_term resp, state := FOLLOWER,
                            metrics := updateRole ''Follower''
                              ((metrics n)\<lparr>m_currentTerm := rvr_term resp,
                                           m_votedFor := votedFor n\<rparr>),
                            votedFor := - 1\<rparr>), votes))
                  else Goes_On (n, if voteGranted resp then votes + 1 else votes)))"

text \<open>The leader's set-up under the lock.\<close>

definition become_leader :: "RaftNode \<Rightarrow> RaftNode" where
  "become_leader n =
     n\<lparr>state := LEADER,
       metrics := updateRole ''Leader'' ((metrics n)\<lparr>m_leaderId := node_id n\<rparr>),
       runningHeartbeats := True, leaderId := node_id n,
       nextIndex := map (\<lambda>_. getLogSize n) (nextIndex n),
       matchIndex := map (\<lambda>_. - 1) (matchIndex n)\<rparr>"

text \<open>
  After the last peer.  \<open>votes > nodes.size() / 2\<close>; the state and the term are not looked at
  again.  \<open>now\<close> and \<open>r\<close> are the clock and \<open>rand()\<close> for \<open>reset_timeout\<close>.
\<close>

definition finish_election ::
  "nat \<Rightarrow> int \<Rightarrow> nat \<Rightarrow> RaftNode \<times> int \<Rightarrow> RaftNode thread_result" where
  "finish_election numNodes now r nv =
     (case nv of (n, votes) \<Rightarrow>
        if shutdownRequested n then Returns n
        else if votes > int (numNodes div 2) then
          (if mtxHeld n then Hangs n
           else
             (case reset_timeout now r (become_leader n) of
                None \<Rightarrow> Hangs n
              | Some n \<Rightarrow> Returns (persistMetadata n)))
        else Returns n)"

text \<open>
  \<open>start_election\<close> without interference: \<open>peer\<close> answers the request that is sent to a port.
\<close>

fun poll_peers ::
  "(int \<Rightarrow> RequestVoteRPC \<Rightarrow> RequestVoteResponse rpc_reply) \<Rightarrow> int list \<Rightarrow> RaftNode \<times> int \<Rightarrow>
   (RaftNode \<times> int) thread_result" where
  "poll_peers peer [] nv = Goes_On nv"
| "poll_peers peer (p # ps) nv =
     (if shutdownRequested (fst nv) then Returns nv
      else
        (case receive_vote (peer p (vote_request (fst nv))) nv of
           Goes_On nv' \<Rightarrow> poll_peers peer ps nv'
         | Returns nv' \<Rightarrow> Returns nv'
         | Hangs nv' \<Rightarrow> Hangs nv'))"

definition start_election ::
  "(int \<Rightarrow> RequestVoteRPC \<Rightarrow> RequestVoteResponse rpc_reply) \<Rightarrow> nat \<Rightarrow> int \<Rightarrow> nat \<Rightarrow> RaftNode \<Rightarrow>
   RaftNode thread_result" where
  "start_election peer numNodes now r n =
     (case begin_election n of
        Goes_On n \<Rightarrow>
          (case poll_peers peer (peerRpcPorts n) (n, 1) of
             Goes_On nv \<Rightarrow> finish_election numNodes now r nv
           | Returns nv \<Rightarrow> Returns (fst nv)
           | Hangs nv \<Rightarrow> Hangs (fst nv))
      | Returns n \<Rightarrow> Returns n
      | Hangs n \<Rightarrow> Hangs n)"

text \<open>One round of the loop of \<open>election_timer\<close>.\<close>

datatype timer_action = Timer_Stops | Wait_Until_Not_Leader | Start_Election | Sleep_For int

definition timer_round :: "int \<Rightarrow> RaftNode \<Rightarrow> timer_action" where
  "timer_round now n =
     (if stopTimer n \<or> shutdownRequested n then Timer_Stops
      else if state n = LEADER then Wait_Until_Not_Leader
      else if now - lastHeartbeat n \<ge> electionTimeout n then Start_Election
      else Sleep_For (electionTimeout n - (now - lastHeartbeat n)))"

section \<open>What the vote handler keeps\<close>

lemma persistMetadata_frame [simp]:
  "currentTerm (persistMetadata n) = currentTerm n" "votedFor (persistMetadata n) = votedFor n"
  "log (persistMetadata n) = log n" "state (persistMetadata n) = state n"
  "mtxHeld (persistMetadata n) = mtxHeld n"
  "shutdownRequested (persistMetadata n) = shutdownRequested n"
  "latestSnapshot (persistMetadata n) = latestSnapshot n"
  "node_id (persistMetadata n) = node_id n"
  "peerRpcPorts (persistMetadata n) = peerRpcPorts n"
  "rpcPort (persistMetadata n) = rpcPort n"
  "snapshotFile (persistMetadata n) = snapshotFile n"
  "metrics (persistMetadata n) = metrics n"
  "lastApplied (persistMetadata n) = lastApplied n"
  "commitIndex (persistMetadata n) = commitIndex n"
  by (simp_all add: persistMetadata_def)

text \<open>The vote on disk is the vote in memory.\<close>

definition vote_persisted :: "RaftNode \<Rightarrow> bool" where
  "vote_persisted n \<longleftrightarrow>
     (case metadataFile n of
        Missing \<Rightarrow> currentTerm n = 0 \<and> votedFor n = - 1
      | Unparsable \<Rightarrow> False
      | Contents j \<Rightarrow> j_currentTerm j = Some (currentTerm n) \<and> j_votedFor j = Some (votedFor n))"

lemma vote_persisted_after [simp]: "vote_persisted (persistMetadata n)"
  by (simp add: vote_persisted_def persistMetadata_def)

lemma vote_persisted_cong:
  "metadataFile n' = metadataFile n \<Longrightarrow> currentTerm n' = currentTerm n \<Longrightarrow>
    votedFor n' = votedFor n \<Longrightarrow> vote_persisted n' = vote_persisted n"
  by (simp add: vote_persisted_def split: disk_file.split)

lemma vote_persisted_boot:
  assumes "vote_persisted n"
    and "boot_node i port peers now r (metadataFile n) snap s = Inr (n', s')"
  shows "currentTerm n' = currentTerm n" "votedFor n' = votedFor n" "vote_persisted n'"
    and "\<not> shutdownRequested n'" "\<not> mtxHeld n'" "node_id n' = i" "state n' = FOLLOWER"
  using assms
  by (auto simp: boot_node_def loadMetadata_def start_restore_def RaftNode_new_def
      vote_persisted_def split: disk_file.splits sum.splits option.splits)

text \<open>The case analysis of the handler, for a node that is not shutting down.\<close>

lemma becomeFollower_live:
  assumes "becomeFollower t n = Some n'" "\<not> shutdownRequested n"
  shows "currentTerm n' = t" "votedFor n' = - 1" "state n' = FOLLOWER" "vote_persisted n'"
    and "log n' = log n" "latestSnapshot n' = latestSnapshot n" "\<not> shutdownRequested n'"
    and "node_id n' = node_id n" "mtxHeld n' = mtxHeld n" "snapshotFile n' = snapshotFile n"
    and "peerRpcPorts n' = peerRpcPorts n" "runningHeartbeats n' = False"
  using assms by (auto simp: becomeFollower_def split: if_splits simp: persistMetadata_def
      vote_persisted_def)

lemma decide_vote_frame:
  assumes "decide_vote r n = (n', g)"
  shows "currentTerm n' = currentTerm n" "state n' = state n" "log n' = log n"
    and "votedFor n' = (if g then rv_candidateId r else votedFor n)"
    and "g \<Longrightarrow> votedFor n = - 1 \<or> votedFor n = rv_candidateId r"
    and "vote_persisted n \<Longrightarrow> vote_persisted n'"
    and "shutdownRequested n' = shutdownRequested n" "mtxHeld n' = mtxHeld n"
    and "node_id n' = node_id n" "snapshotFile n' = snapshotFile n"
    and "latestSnapshot n' = latestSnapshot n" "peerRpcPorts n' = peerRpcPorts n"
  using assms
  by (auto simp: decide_vote_def Let_def split: if_splits
      simp: persistMetadata_def vote_persisted_def)

lemma vote_step:
  assumes "\<not> shutdownRequested n" "vote_persisted n" "handle_RequestVote r n = (n', resp)"
  shows "\<not> shutdownRequested n'" "vote_persisted n'" "currentTerm n \<le> currentTerm n'"
    and "currentTerm n' = currentTerm n \<Longrightarrow> votedFor n \<noteq> - 1 \<Longrightarrow> votedFor n' = votedFor n"
    and "vote_granted r n \<Longrightarrow> currentTerm n' = rv_term r \<and> votedFor n' = rv_candidateId r"
    and "node_id n' = node_id n" "mtxHeld n' = mtxHeld n"
    and "currentTerm n' = currentTerm n \<Longrightarrow> state n' = state n"
    and "currentTerm n' \<noteq> currentTerm n \<Longrightarrow> state n' = FOLLOWER"
proof -
  let ?n = "n\<lparr>metrics := (metrics n)\<lparr>requestVotesReceived :=
    requestVotesReceived (metrics n) + 1\<rparr>\<rparr>"
  have live: "\<not> shutdownRequested ?n" "vote_persisted ?n"
    using assms(1,2) vote_persisted_cong [of ?n n] by simp_all
  consider (stale) "rv_term r < currentTerm n" "n' = ?n"
      "resp = Some \<lparr>rvr_term = currentTerm n, voteGranted = False\<rparr>"
    | (hang) "rv_term r > currentTerm n" "n' = ?n" "resp = None"
    | (same) g where "rv_term r = currentTerm n" "decide_vote r ?n = (n', g)"
      "resp = Some \<lparr>rvr_term = currentTerm n', voteGranted = g\<rparr>"
    | (new) n1 g where "rv_term r > currentTerm n" "becomeFollower (rv_term r) ?n = Some n1"
      "decide_vote r n1 = (n', g)"
      "resp = Some \<lparr>rvr_term = currentTerm n', voteGranted = g\<rparr>"
    using assms(3)
    by (auto simp: handle_RequestVote_def Let_def split: if_splits option.splits prod.splits)
  then have "\<not> shutdownRequested n' \<and> vote_persisted n' \<and> currentTerm n \<le> currentTerm n' \<and>
      (currentTerm n' = currentTerm n \<longrightarrow> votedFor n \<noteq> - 1 \<longrightarrow> votedFor n' = votedFor n) \<and>
      (vote_granted r n \<longrightarrow> currentTerm n' = rv_term r \<and> votedFor n' = rv_candidateId r) \<and>
      node_id n' = node_id n \<and> mtxHeld n' = mtxHeld n \<and>
      (currentTerm n' = currentTerm n \<longrightarrow> state n' = state n) \<and>
      (currentTerm n' \<noteq> currentTerm n \<longrightarrow> state n' = FOLLOWER)"
  proof cases
    case stale
    then show ?thesis using live assms(3) by (simp add: vote_granted_def)
  next
    case hang
    then show ?thesis using live assms(3) by (simp add: vote_granted_def)
  next
    case (same g)
    then show ?thesis
      using live assms(3) decide_vote_frame [OF same(2)] by (auto simp: vote_granted_def)
  next
    case (new n1 g)
    then show ?thesis
      using assms(3) becomeFollower_live [OF new(2) live(1)] decide_vote_frame [OF new(3)]
      by (auto simp: vote_granted_def)
  qed
  then show "\<not> shutdownRequested n'" "vote_persisted n'" "currentTerm n \<le> currentTerm n'"
    and "currentTerm n' = currentTerm n \<Longrightarrow> votedFor n \<noteq> - 1 \<Longrightarrow> votedFor n' = votedFor n"
    and "vote_granted r n \<Longrightarrow> currentTerm n' = rv_term r \<and> votedFor n' = rv_candidateId r"
    and "node_id n' = node_id n" "mtxHeld n' = mtxHeld n"
    and "currentTerm n' = currentTerm n \<Longrightarrow> state n' = state n"
    and "currentTerm n' \<noteq> currentTerm n \<Longrightarrow> state n' = FOLLOWER"
    by blast+
qed

section \<open>One vote per term, across restarts\<close>

text \<open>
  What can happen to a voter: a request arrives, or its process is killed and started again, in
  which case only its two files survive.
\<close>

datatype vote_event = Ask RequestVoteRPC | Restart int nat KVStore

definition reboot :: "int \<Rightarrow> nat \<Rightarrow> KVStore \<Rightarrow> RaftNode \<Rightarrow> cpp_exn + RaftNode \<times> KVStore" where
  "reboot now r s n =
     boot_node (node_id n) (rpcPort n) (peerRpcPorts n) now r (metadataFile n) (snapshotFile n) s"

fun granted_votes :: "RaftNode \<Rightarrow> vote_event list \<Rightarrow> RequestVoteRPC list" where
  "granted_votes n [] = []"
| "granted_votes n (Ask r # es) =
     (if vote_granted r n then [r] else []) @ granted_votes (fst (handle_RequestVote r n)) es"
| "granted_votes n (Restart now r s # es) =
     (case reboot now r s n of Inl _ \<Rightarrow> [] | Inr (n', s') \<Rightarrow> granted_votes n' es)"

lemma granted_votes_bound:
  "\<not> shutdownRequested n \<Longrightarrow> vote_persisted n \<Longrightarrow> y \<in> set (granted_votes n es) \<Longrightarrow>
    currentTerm n \<le> rv_term y \<and>
    (rv_term y = currentTerm n \<and> votedFor n \<noteq> - 1 \<longrightarrow> rv_candidateId y = votedFor n)"
proof (induction es arbitrary: n)
  case (Cons e es)
  show ?case
  proof (cases e)
    case (Ask r)
    obtain n' resp where h: "handle_RequestVote r n = (n', resp)" by fastforce
    note st = vote_step [OF Cons.prems(1,2) h]
    from Cons.prems(3) Ask h consider "vote_granted r n" "y = r" | "y \<in> set (granted_votes n' es)"
      by (auto split: if_splits)
    then show ?thesis
    proof cases
      case 1
      then show ?thesis using st(3-5) by auto
    next
      case 2
      then show ?thesis using Cons.IH [OF st(1,2) 2] st(3,4) by fastforce
    qed
  next
    case (Restart now r s)
    then obtain n' s' where b: "reboot now r s n = Inr (n', s')" "y \<in> set (granted_votes n' es)"
      using Cons.prems(3) by (cases "reboot now r s n") auto
    note bt = vote_persisted_boot [OF Cons.prems(2) b(1) [unfolded reboot_def]]
    show ?thesis using Cons.IH [OF bt(4,3) b(2)] bt(1,2) by simp
  qed
qed simp

lemma granted_votes_unique:
  "\<not> shutdownRequested n \<Longrightarrow> vote_persisted n \<Longrightarrow>
    x \<in> set (granted_votes n es) \<Longrightarrow> y \<in> set (granted_votes n es) \<Longrightarrow>
    rv_term x = rv_term y \<Longrightarrow> rv_candidateId x \<noteq> - 1 \<Longrightarrow> rv_candidateId y \<noteq> - 1 \<Longrightarrow>
    rv_candidateId x = rv_candidateId y"
proof (induction es arbitrary: n)
  case (Cons e es)
  show ?case
  proof (cases e)
    case (Ask r)
    obtain n' resp where h: "handle_RequestVote r n = (n', resp)" by fastforce
    note st = vote_step [OF Cons.prems(1,2) h]
    have later: "rv_candidateId z = rv_candidateId r"
      if "vote_granted r n" "rv_candidateId r \<noteq> - 1" "z \<in> set (granted_votes n' es)"
        "rv_term z = rv_term r" for z
      using granted_votes_bound [OF st(1,2) that(3)] st(5) that by auto
    have mem: "vote_granted r n \<and> z = r \<or> z \<in> set (granted_votes n' es)"
      if "z \<in> set (granted_votes n (e # es))" for z
      using that Ask h by (auto split: if_splits)
    consider "vote_granted r n" "x = r" "y = r"
      | "vote_granted r n" "x = r" "y \<in> set (granted_votes n' es)"
      | "vote_granted r n" "y = r" "x \<in> set (granted_votes n' es)"
      | "x \<in> set (granted_votes n' es)" "y \<in> set (granted_votes n' es)"
      using mem [OF Cons.prems(3)] mem [OF Cons.prems(4)] by blast
    then show ?thesis
    proof cases
      case 1
      then show ?thesis by simp
    next
      case 2
      then show ?thesis using later [of y] Cons.prems(5-) by simp
    next
      case 3
      then show ?thesis using later [of x] Cons.prems(5-) by simp
    next
      case 4
      then show ?thesis using Cons.IH [OF st(1,2)] Cons.prems(5-) by blast
    qed
  next
    case (Restart now r s)
    then obtain n' s' where b: "reboot now r s n = Inr (n', s')"
      "x \<in> set (granted_votes n' es)" "y \<in> set (granted_votes n' es)"
      using Cons.prems(3,4) by (cases "reboot now r s n") auto
    note bt = vote_persisted_boot [OF Cons.prems(2) b(1) [unfolded reboot_def]]
    show ?thesis using Cons.IH [OF bt(4,3) b(2,3)] Cons.prems(5-) by blast
  qed
qed simp

section \<open>Properties\<close>

text \<open>
  C5: A voter grants at most one candidate its vote in a term, whatever requests arrive in whatever
  order and however often its process is killed in between and restarted from the metadata file.
\<close>

theorem one_vote_per_term:
  assumes "\<not> shutdownRequested n" "vote_persisted n"
    and "x \<in> set (granted_votes n es)" "y \<in> set (granted_votes n es)" "rv_term x = rv_term y"
    and "rv_candidateId x \<noteq> - 1" "rv_candidateId y \<noteq> - 1"
  shows "rv_candidateId x = rv_candidateId y"
  using assms by (rule granted_votes_unique)

definition demo_request :: "int \<Rightarrow> int \<Rightarrow> RequestVoteRPC" where
  "demo_request t c = \<lparr>rv_term = t, rv_candidateId = c, rv_lastLogIndex = - 1, rv_lastLogTerm = 0\<rparr>"

lemma demo_votes:
  "granted_votes demo_node [Ask (demo_request 1 1), Ask (demo_request 1 2), Ask (demo_request 1 1)] =
    [demo_request 1 1, demo_request 1 1]"
  by (simp add: demo_node_def RaftNode_new_def demo_request_def vote_granted_def
      handle_RequestVote_def decide_vote_def becomeFollower_def persistMetadata_def
      candidateUpToDate_def voter_last_index_def voter_last_term_def Let_def)

theorem one_vote_per_term_witness:
  "rv_candidateId (demo_request 1 1) = rv_candidateId (granted_votes demo_node
    [Ask (demo_request 1 1), Ask (demo_request 1 2), Ask (demo_request 1 1)] ! 1)"
  by (rule one_vote_per_term [of demo_node _
        "[Ask (demo_request 1 1), Ask (demo_request 1 2), Ask (demo_request 1 1)]"])
    (unfold demo_votes, simp_all add: demo_request_def demo_node_def RaftNode_new_def
      vote_persisted_def)

text \<open>
  What a reply to RequestVote promises is on disk before the reply is sent: the term never goes
  back, a vote cast in a term stays, a granted vote is for the candidate and the term of the
  request, and the metadata file holds exactly the term and the vote in memory.
\<close>

theorem vote_is_durable:
  assumes "\<not> shutdownRequested n" "vote_persisted n" "handle_RequestVote r n = (n', resp)"
  shows "vote_persisted n' \<and> currentTerm n \<le> currentTerm n' \<and>
    (currentTerm n' = currentTerm n \<and> votedFor n \<noteq> - 1 \<longrightarrow> votedFor n' = votedFor n) \<and>
    (vote_granted r n \<longrightarrow> currentTerm n' = rv_term r \<and> votedFor n' = rv_candidateId r)"
  using vote_step(2-5) [OF assms] by blast

theorem vote_is_durable_witness:
  "vote_persisted (fst (handle_RequestVote (demo_request 1 2) demo_node))"
  using vote_is_durable [of demo_node "demo_request 1 2"
      "fst (handle_RequestVote (demo_request 1 2) demo_node)"
      "snd (handle_RequestVote (demo_request 1 2) demo_node)"]
  by (simp add: demo_node_def RaftNode_new_def vote_persisted_def)

text \<open>
  The voter compares the candidate's last index with the size of its own vector, which is
  empty after a snapshot: a node that has applied everything up to its snapshot grants its vote
  to a candidate whose log is empty.
\<close>

theorem snapshot_voter_accepts_empty_log:
  assumes "log n = []" "latestSnapshot n = Some sn" "rv_term r = currentTerm n" "votedFor n = - 1"
    and "rv_lastLogIndex r = - 1" "rv_lastLogTerm r = 0"
  shows "vote_granted r n"
  using assms
  by (simp add: vote_granted_def handle_RequestVote_def decide_vote_def candidateUpToDate_def
      voter_last_index_def voter_last_term_def Let_def)

theorem snapshot_voter_accepts_empty_log_witness:
  "vote_granted (demo_request 0 2)
    (demo_node\<lparr>latestSnapshot := Some \<lparr>lastIncludedIndex = 2999, lastIncludedTerm = 7,
       kvState = Map.empty\<rparr>\<rparr>)"
  by (rule snapshot_voter_accepts_empty_log)
    (simp_all add: demo_request_def demo_node_def RaftNode_new_def)

end
