(* ===== verification/Snapshot_Transfer.thy ===== *)
theory Snapshot_Transfer
  imports Snapshot_Stream Base64 Election
begin

text \<open>
  Sending a snapshot: the leader's chunk loop (the same code in \<open>send_heartbeats\<close> and in
  \<open>handleClientCommand\<close>) and the InstallSnapshot handler of \<open>rpc_server.cpp\<close>.
\<close>

section \<open>Messages\<close>

record InstallSnapshotRPC =
  is_term :: int
  is_leaderId :: int
  is_lastIncludedIndex :: int
  is_lastIncludedTerm :: int
  is_offset :: int
  is_data :: bytes
  is_done :: bool
  is_chunkNum :: int
  is_totalChunks :: int

record InstallSnapshotReply =
  isr_term :: int
  isr_success :: bool
  isr_error :: string

datatype install_result =
    IS_Reply InstallSnapshotReply
  | IS_Hangs          \<comment> \<open>the handler waits for a mutex for ever\<close>
  | IS_Undefined      \<comment> \<open>undefined behaviour: a copy outside the buffer\<close>

section \<open>The InstallSnapshot handler\<close>

text \<open>
  \<open>snapshotBuffer.size() < offset + chunk.size()\<close> is evaluated in \<open>size_t\<close>: a negative sum is
  huge, and the \<open>resize\<close> that follows throws.  A negative offset whose chunk reaches past zero
  passes that test and copies in front of the buffer.
\<close>

datatype buffer_write = Written bytes | Write_Throws | Write_Undefined

definition write_chunk :: "(nat \<Rightarrow> bool) \<Rightarrow> int \<Rightarrow> bytes \<Rightarrow> bytes \<Rightarrow> buffer_write" where
  "write_chunk alloc offset chunk buf =
     (let newSize = offset + int (length chunk)
      in if newSize < 0 then Write_Throws
         else if length buf < nat newSize \<and> \<not> alloc (nat newSize) then Write_Throws
         else
           let buf = (if length buf < nat newSize
                      then buf @ zeros (nat newSize - length buf) else buf)
           in if chunk = [] then Written buf
              else if offset < 0 then Write_Undefined
              else Written (take (nat offset) buf @ chunk @ drop (nat newSize) buf))"

text \<open>The block \<open>if (done)\<close>, when the stream could be read.\<close>

definition install_snapshot ::
  "Snapshot \<Rightarrow> RaftNode \<Rightarrow> KVStore \<Rightarrow> (RaftNode \<times> KVStore) option" where
  "install_snapshot snap n s =
     (let n = saveSnapshot snap n
      in if mtxHeld n then None
         else
           Some ((persistMetadata
                    (n\<lparr>lastApplied := lastIncludedIndex snap, commitIndex := lastIncludedIndex snap,
                       log := [], latestSnapshot := Some snap\<rparr>))\<lparr>snapshotBuffer := []\<rparr>,
                 loadFromMap (kvState snap) s))"

definition accept_chunk ::
  "(nat \<Rightarrow> bool) \<Rightarrow> bytes \<times> bytes \<Rightarrow> InstallSnapshotRPC \<Rightarrow> RaftNode \<Rightarrow> KVStore \<Rightarrow>
   RaftNode \<times> KVStore \<times> install_result" where
  "accept_chunk alloc junk r n s =
     (let n = (if is_offset r = 0 then n\<lparr>snapshotBuffer := []\<rparr> else n);
          chunk = (if is_data r \<noteq> [] then base64Decode (is_data r) else []);
          failed = IS_Reply \<lparr>isr_term = currentTerm n, isr_success = False,
                             isr_error = ''processing_failed''\<rparr>;
          done = IS_Reply \<lparr>isr_term = currentTerm n, isr_success = True, isr_error = []\<rparr>
      in case write_chunk alloc (is_offset r) chunk (snapshotBuffer n) of
           Write_Throws \<Rightarrow> (n, s, failed)
         | Write_Undefined \<Rightarrow> (n, s, IS_Undefined)
         | Written buf \<Rightarrow>
             (let n = n\<lparr>snapshotBuffer := buf\<rparr>
              in if \<not> is_done r then (n, s, done)
                 else
                   (case deserializeSnapshot alloc junk buf of
                      Inl e \<Rightarrow> (n, s, failed)
                    | Inr snap \<Rightarrow>
                        (case install_snapshot snap n s of
                           None \<Rightarrow> (saveSnapshot snap n, s, IS_Hangs)
                         | Some (n, s) \<Rightarrow> (n, s, done)))))"

definition handle_InstallSnapshot ::
  "(nat \<Rightarrow> bool) \<Rightarrow> bytes \<times> bytes \<Rightarrow> InstallSnapshotRPC \<Rightarrow> RaftNode \<times> KVStore \<Rightarrow>
   (RaftNode \<times> KVStore) \<times> install_result" where
  "handle_InstallSnapshot alloc junk r ns =
     (case ns of (n, s) \<Rightarrow>
        let n = n\<lparr>metrics := (metrics n)\<lparr>installSnapshotsReceived :=
                    installSnapshotsReceived (metrics n) + 1\<rparr>\<rparr>
        in if is_term r < currentTerm n
           then ((n, s), IS_Reply \<lparr>isr_term = currentTerm n, isr_success = False,
                                   isr_error = ''stale_term''\<rparr>)
           else
             (case (if is_term r > currentTerm n then becomeFollower (is_term r) n else Some n) of
                None \<Rightarrow> ((n, s), IS_Hangs)
              | Some n \<Rightarrow>
                  (case accept_chunk alloc junk r n s of (n, s, reply) \<Rightarrow> ((n, s), reply))))"

section \<open>The sender's loop\<close>

text \<open>
  One message; \<open>done\<close> is \<open>end == snapBytes.size()\<close>.
\<close>

definition chunk_message ::
  "RaftNode \<Rightarrow> Snapshot \<Rightarrow> bytes \<Rightarrow> nat \<Rightarrow> nat \<Rightarrow> InstallSnapshotRPC" where
  "chunk_message leader snap snapBytes chunkSize chunkNum =
     (let chunkCount = (length snapBytes + chunkSize - 1) div chunkSize;
          offset = chunkNum * chunkSize;
          endp = min (offset + chunkSize) (length snapBytes)
      in \<lparr>is_term = currentTerm leader, is_leaderId = node_id leader,
          is_lastIncludedIndex = lastIncludedIndex snap,
          is_lastIncludedTerm = lastIncludedTerm snap, is_offset = int offset,
          is_data = base64Encode (take (endp - offset) (drop offset snapBytes)),
          is_done = (endp = length snapBytes), is_chunkNum = int chunkNum,
          is_totalChunks = int chunkCount\<rparr>)"

text \<open>What happened to the transfer; the last is the division by a chunk size of zero.\<close>

datatype transfer_result = Transferred | Transfer_Failed | Division_By_Zero

text \<open>
  \<open>dump_len m\<close> is the length of the JSON text of a message, \<open>peer\<close> the other end with its state.
  A message longer than 2040 characters halves the chunk size and starts again.
\<close>

function send_chunks ::
  "(InstallSnapshotRPC \<Rightarrow> nat) \<Rightarrow> ('p \<Rightarrow> InstallSnapshotRPC \<Rightarrow> 'p \<times> bool rpc_reply) \<Rightarrow>
   Snapshot \<Rightarrow> bytes \<Rightarrow> nat \<Rightarrow> nat \<Rightarrow> nat \<Rightarrow> RaftNode \<Rightarrow> 'p \<Rightarrow>
   RaftNode \<times> 'p \<times> transfer_result" where
  "send_chunks dump_len peer snap snapBytes peerIdx chunkSize chunkNum leader p =
     (let chunkCount = (length snapBytes + chunkSize - 1) div chunkSize
      in if chunkNum < chunkCount
         then
           (let m = chunk_message leader snap snapBytes chunkSize chunkNum
            in if dump_len m > 2040
               then
                 (if chunkSize div 2 = 0 then (leader, p, Division_By_Zero)
                  else send_chunks dump_len peer snap snapBytes peerIdx (chunkSize div 2) 0 leader p)
               else
                 (case peer p m of
                    (p, reply) \<Rightarrow>
                      (let leader = leader\<lparr>metrics := (metrics leader)\<lparr>installSnapshotsSent :=
                             installSnapshotsSent (metrics leader) + 1\<rparr>\<rparr>
                       in case reply of
                            No_Reply \<Rightarrow> (leader, p, Transfer_Failed)
                          | Bad_Reply \<Rightarrow> (leader, p, Transfer_Failed)
                          | Reply accepted \<Rightarrow>
                              if \<not> accepted then (leader, p, Transfer_Failed)
                              else
                                send_chunks dump_len peer snap snapBytes peerIdx chunkSize
                                  (chunkNum + 1)
                                  (if is_done m
                                   then leader\<lparr>nextIndex := (nextIndex leader)
                                                 [peerIdx := lastIncludedIndex snap + 1],
                                               matchIndex := (matchIndex leader)
                                                 [peerIdx := lastIncludedIndex snap]\<rparr>
                                   else leader) p)))
         else (leader, p, Transferred))"
  by pat_completeness auto
termination
proof (relation "measures
    [\<lambda>(dump_len, peer, snap, bs, i, cs, k, n, p). cs,
     \<lambda>(dump_len, peer, snap, bs, i, cs, k, n, p). (length bs + cs - 1) div cs - k]", goal_cases)
  case (2 dump_len peer snap snapBytes peerIdx chunkSize chunkNum leader p count m)
  then have "0 < chunkSize" by (cases chunkSize) auto
  then show ?case by simp
qed auto

declare send_chunks.simps [simp del]

text \<open>\<open>int chunkSize = 512\<close> and the loop from the first chunk.\<close>

definition send_snapshot ::
  "(InstallSnapshotRPC \<Rightarrow> nat) \<Rightarrow> ('p \<Rightarrow> InstallSnapshotRPC \<Rightarrow> 'p \<times> bool rpc_reply) \<Rightarrow>
   Snapshot \<Rightarrow> (string \<times> string) list \<Rightarrow> nat \<Rightarrow> RaftNode \<Rightarrow> 'p \<Rightarrow>
   RaftNode \<times> 'p \<times> transfer_result" where
  "send_snapshot dump_len peer snap items peerIdx leader p =
     send_chunks dump_len peer snap (serializeSnapshot items snap) peerIdx 512 0 leader p"

text \<open>
  The other end of a connection that loses nothing: the follower's handler, whose reply the leader
  reads as \<open>value("success", false)\<close>.
\<close>

definition follower_end ::
  "(nat \<Rightarrow> bool) \<Rightarrow> bytes \<times> bytes \<Rightarrow> RaftNode \<times> KVStore \<Rightarrow> InstallSnapshotRPC \<Rightarrow>
   (RaftNode \<times> KVStore) \<times> bool rpc_reply" where
  "follower_end alloc junk p m =
     (case handle_InstallSnapshot alloc junk m p of
        (p', IS_Reply rep) \<Rightarrow> (p', Reply (isr_success rep))
      | (p', IS_Hangs) \<Rightarrow> (p', No_Reply)
      | (p', IS_Undefined) \<Rightarrow> (p', No_Reply))"

end
