(* ===== verification/Apply_Loop.thy ===== *)
theory Apply_Loop
  imports Raft_Log
begin

text \<open>
  What reaches the store: the commands of the client, parsed back out of the text that was put in
  the log, and the loop that feeds the store with the committed part of the log.
\<close>

section \<open>Client commands survive the trip through the log\<close>

text \<open>\<open>command + " " + key + " " + value\<close>, as \<open>handleClientCommand\<close> builds it.\<close>

definition sendCommand :: "string \<Rightarrow> string \<Rightarrow> string \<Rightarrow> string" where
  "sendCommand command key val = command @ '' '' @ key @ '' '' @ val"

lemma is_word_verbs [simp]: "is_word ''PUT''" "is_word ''GET''" "is_word ''DELETE''"
  by (simp_all add: is_word_def is_space_def)

lemma sendCommand_tokens:
  assumes "is_word c" "is_word k"
  shows "read_token (sendCommand c k v) = (c, '' '' @ k @ '' '' @ v)"
    and "read_token ('' '' @ k @ '' '' @ v) = (k, '' '' @ v)"
proof -
  show "read_token (sendCommand c k v) = (c, '' '' @ k @ '' '' @ v)"
    using read_token_word [OF assms(1), of "k @ '' '' @ v"] by (simp add: sendCommand_def)
  show "read_token ('' '' @ k @ '' '' @ v) = (k, '' '' @ v)"
    using read_token_word [OF assms(2), of v] by simp
qed

lemma newline_not_blank: "newline \<noteq> CHR '' ''"
  by code_simp

lemma getline_value:
  "newline \<notin> set v \<Longrightarrow> fst (getline newline ('' '' @ v)) = CHR '' '' # v"
  using getline_all [of newline "CHR '' '' # v"] newline_not_blank by simp

lemma apply_sendCommand:
  assumes "is_word c" "is_word k" "newline \<notin> set v" "\<not> shutdownRequested n"
  shows "applyToStateMachine n (sendCommand c k v) s =
    (if c = ''PUT'' then (put k v s, ''OK'')
     else if c = ''GET'' then (s, case get k s of Some v \<Rightarrow> v | None \<Rightarrow> ''key not found'')
     else if c = ''DELETE'' then
       (fst (remove k s), if snd (remove k s) then ''OK'' else ''key not found'')
     else (s, ''error: unknown command''))"
  using assms sendCommand_tokens [OF assms(1,2), of v] getline_value [OF assms(3)]
  by (simp add: applyToStateMachine_def Let_def split: prod.splits)

section \<open>The loop applies exactly the committed, unapplied entries\<close>

lemma apply_shutdown_only:
  "shutdownRequested n' = shutdownRequested n \<Longrightarrow> applyToStateMachine n' = applyToStateMachine n"
  by (intro ext) (simp add: applyToStateMachine_def Let_def)

text \<open>Applying a list of commands in order; the second component is the last reply.\<close>

definition run_commands :: "RaftNode \<Rightarrow> string list \<Rightarrow> KVStore \<times> string \<Rightarrow> KVStore \<times> string" where
  "run_commands n cmds sr = foldl (\<lambda>(s, r) c. applyToStateMachine n c s) sr cmds"

lemma run_commands_Nil [simp]: "run_commands n [] sr = sr"
  by (simp add: run_commands_def)

lemma run_commands_Cons [simp]:
  "run_commands n (c # cs) (s, r) = run_commands n cs (applyToStateMachine n c s)"
  by (simp add: run_commands_def)

lemma run_commands_append:
  "run_commands n (cs @ ds) sr = run_commands n ds (run_commands n cs sr)"
  by (simp add: run_commands_def)

lemma run_commands_cong:
  "shutdownRequested n' = shutdownRequested n \<Longrightarrow> run_commands n' cs sr = run_commands n cs sr"
  using apply_shutdown_only [of n' n] by (simp add: run_commands_def)

definition pending_commands :: "RaftNode \<Rightarrow> string list" where
  "pending_commands n =
     map entry_command (getLogEntries (lastApplied n + 1) (commitIndex n + 1) n)"

lemma getLogEntries_cong:
  "log n' = log n \<Longrightarrow> latestSnapshot n' = latestSnapshot n \<Longrightarrow>
    getLogEntries a b n' = getLogEntries a b n"
  by (simp add: getLogEntries_def base_index_def Let_def)

lemma getLogEntries_empty: "b \<le> a \<Longrightarrow> getLogEntries a b n = []"
  using length_getLogEntries [of a b n] by (simp flip: length_0_conv)

lemma getLogEntries_step:
  assumes "a < b"
  shows "getLogEntries a b n =
    (case entry_at n a of None \<Rightarrow> [] | Some e \<Rightarrow> [e]) @ getLogEntries (a + 1) b n"
proof -
  let ?p = "a - base_index n" and ?len = "int (length (log n))"
  consider (below) "?p < 0" | (inside) "0 \<le> ?p" "?p < ?len" | (above) "?len \<le> ?p" by linarith
  then show ?thesis
  proof cases
    case below
    then have "entry_at n a = None" by (simp add: entry_at_def log_position_base Let_def)
    moreover have "max 0 ?p = max 0 (a + 1 - base_index n)" using below by simp
    ultimately show ?thesis by (simp add: getLogEntries_def Let_def)
  next
    case inside
    let ?k = "min ?len (b - base_index n)"
    have at: "entry_at n a = Some (log n ! nat ?p)"
      using inside by (simp add: entry_at_def log_position_base Let_def)
    have gt: "?p < ?k" using inside assms by simp
    have "getLogEntries a b n = take (nat (?k - ?p)) (drop (nat ?p) (log n))"
      using inside gt by (auto simp: getLogEntries_def Let_def)
    also have "drop (nat ?p) (log n) = log n ! nat ?p # drop (Suc (nat ?p)) (log n)"
      using inside by (intro Cons_nth_drop_Suc [symmetric]) simp
    also have "nat (?k - ?p) = Suc (nat (?k - (?p + 1)))" using gt by arith
    also have "Suc (nat ?p) = nat (?p + 1)" using inside by simp
    finally have "getLogEntries a b n =
        log n ! nat ?p # take (nat (?k - (?p + 1))) (drop (nat (?p + 1)) (log n))" by simp
    moreover have "getLogEntries (a + 1) b n =
        take (nat (?k - (?p + 1))) (drop (nat (?p + 1)) (log n))"
      using inside by (auto simp: getLogEntries_def Let_def algebra_simps)
    ultimately show ?thesis using at by simp
  next
    case above
    then show ?thesis
      by (auto simp: entry_at_def log_position_base getLogEntries_def Let_def)
  qed
qed

lemma apply_loop_correct:
  "\<not> shutdownRequested n \<Longrightarrow>
    apply_loop chk n s res =
      (n\<lparr>lastApplied := max (lastApplied n) (commitIndex n)\<rparr>,
       run_commands n (pending_commands n) (s, res))"
proof (induction chk n s res rule: apply_loop.induct)
  case (1 chk n s res)
  show ?case
  proof (cases "lastApplied n < commitIndex n")
    case False
    then show ?thesis
      by (subst apply_loop.simps)
        (simp add: pending_commands_def getLogEntries_empty max_def)
  next
    case True
    let ?n = "n\<lparr>lastApplied := lastApplied n + 1\<rparr>"
    let ?p = "log_position ?n (lastApplied ?n)"
    have loop: "lastApplied n < commitIndex n \<and> \<not> (chk \<and> shutdownRequested n)"
      using True 1 by simp
    have ns: "\<not> shutdownRequested ?n" using 1 by simp
    have at: "entry_at n (lastApplied n + 1) = entry_at ?n (lastApplied ?n)"
      using entry_at_cong [of ?n n] by simp
    have step: "pending_commands n =
        (case entry_at ?n (lastApplied ?n) of None \<Rightarrow> [] | Some e \<Rightarrow> [entry_command e]) @
        pending_commands ?n"
      using True getLogEntries_step [of "lastApplied n + 1" "commitIndex n + 1" n]
        getLogEntries_cong [of ?n n] at
      by (simp add: pending_commands_def split: option.splits)
    have max: "max (lastApplied n) (commitIndex n) = max (lastApplied ?n) (commitIndex ?n)"
      using True by simp
    show ?thesis
    proof (cases "0 \<le> ?p \<and> ?p < int (length (log ?n))")
      case True
      let ?c = "entry_command (log ?n ! nat ?p)"
      obtain s' r' where sr: "applyToStateMachine ?n ?c s = (s', r')" by fastforce
      have "apply_loop chk n s res = apply_loop chk ?n s' r'"
        using loop True sr by (subst apply_loop.simps) (simp add: Let_def)
      also have "\<dots> = (?n\<lparr>lastApplied := max (lastApplied ?n) (commitIndex ?n)\<rparr>,
          run_commands ?n (pending_commands ?n) (s', r'))"
        using "1.IH"(1) [OF loop refl refl True sr [symmetric] ns] by simp
      also have "run_commands ?n (pending_commands ?n) (s', r') =
          run_commands n (pending_commands n) (s, res)"
        using True step sr apply_shutdown_only [of ?n n] run_commands_cong [of ?n n]
        by (simp add: entry_at_def Let_def)
      finally show ?thesis using max by simp
    next
      case False
      then have "apply_loop chk n s res = apply_loop chk ?n s res"
        using loop by (subst apply_loop.simps) (auto simp: Let_def)
      also have "\<dots> = (?n\<lparr>lastApplied := max (lastApplied ?n) (commitIndex ?n)\<rparr>,
          run_commands ?n (pending_commands ?n) (s, res))"
        using "1.IH"(2) [OF loop refl refl False ns] by simp
      also have "run_commands ?n (pending_commands ?n) (s, res) =
          run_commands n (pending_commands n) (s, res)"
        using False step run_commands_cong [of ?n n] by (auto simp: entry_at_def Let_def)
      finally show ?thesis using max by simp
    qed
  qed
qed

text \<open>
  Two nodes that agree on the committed part of their logs drive equal stores to equal stores:
  the state machine is a function of the log.
\<close>

lemma apply_loop_deterministic:
  assumes "\<not> shutdownRequested a" "\<not> shutdownRequested b"
    and "pending_commands a = pending_commands b"
  shows "snd (apply_loop c a s r) = snd (apply_loop d b s r)"
  using assms by (simp add: apply_loop_correct run_commands_cong [of a b])

section \<open>Properties\<close>

text \<open>
  A client command survives the log: the line \<open>command key value\<close> that the leader appends is
  taken apart again into the same command, key and value when it is applied, for keys without
  white space and values without a newline; the reply and the effect are those of the store.
\<close>

theorem command_text_round_trip:
  assumes "is_word c" "is_word k" "newline \<notin> set v" "\<not> shutdownRequested n"
  shows "applyToStateMachine n (sendCommand c k v) s =
    (if c = ''PUT'' then (put k v s, ''OK'')
     else if c = ''GET'' then (s, case get k s of Some v \<Rightarrow> v | None \<Rightarrow> ''key not found'')
     else if c = ''DELETE'' then
       (fst (remove k s), if snd (remove k s) then ''OK'' else ''key not found'')
     else (s, ''error: unknown command''))"
  using assms by (rule apply_sendCommand)

theorem command_text_round_trip_witness:
  "applyToStateMachine demo_node (sendCommand ''PUT'' ''city'' ''New York'') empty_store =
    (put ''city'' ''New York'' empty_store, ''OK'')"
proof -
  have "is_word ''city''" "newline \<notin> set ''New York''" by code_simp+
  moreover have "\<not> shutdownRequested demo_node" by (simp add: demo_node_def RaftNode_new_def)
  ultimately show ?thesis
    using command_text_round_trip [of "''PUT''" "''city''" "''New York''" demo_node empty_store]
    by simp
qed

text \<open>
  C27: The apply loop does what its specification says: the commands of the entries between
  \<open>lastApplied\<close> and \<open>commitIndex\<close> that the node has are run on the store in log order, each once,
  the reply is that of the last one, and \<open>lastApplied\<close> ends at \<open>commitIndex\<close>.
\<close>

theorem apply_loop_refines:
  assumes "\<not> shutdownRequested n"
  shows "apply_loop chk n s res =
    (n\<lparr>lastApplied := max (lastApplied n) (commitIndex n)\<rparr>,
     foldl (\<lambda>(s, r) c. applyToStateMachine n c s) (s, res)
       (map entry_command (getLogEntries (lastApplied n + 1) (commitIndex n + 1) n)))"
  using apply_loop_correct [OF assms] by (simp add: run_commands_def pending_commands_def)

theorem apply_loop_refines_witness:
  "lastApplied (fst (apply_loop True (demo_log_node\<lparr>commitIndex := 2\<rparr>) empty_store [])) = 2"
  using apply_loop_refines [of "demo_log_node\<lparr>commitIndex := 2\<rparr>" True empty_store "[]"]
  by (simp add: demo_log_node_def demo_node_def RaftNode_new_def)

text \<open>
  State machine safety of one step: two nodes whose committed, unapplied entries carry the
  same commands drive equal stores to equal stores and give equal replies.
\<close>

theorem replicas_agree:
  assumes "\<not> shutdownRequested a" "\<not> shutdownRequested b"
    and "pending_commands a = pending_commands b"
  shows "snd (apply_loop c a s r) = snd (apply_loop d b s r)"
  using assms by (rule apply_loop_deterministic)

theorem replicas_agree_witness:
  "snd (apply_loop True (demo_log_node\<lparr>commitIndex := 2\<rparr>) empty_store []) =
    snd (apply_loop False (demo_log_node\<lparr>commitIndex := 2, state := LEADER\<rparr>) empty_store [])"
  by (rule replicas_agree)
    (simp_all add: demo_log_node_def demo_node_def RaftNode_new_def pending_commands_def
      getLogEntries_def base_index_def)

end
