(* ===== verification/Replication.thy ===== *)
theory Replication
  imports Election Apply_Loop
begin

text \<open>
  Log replication on the follower: the AppendEntries handler of \<open>rpc_server.cpp\<close>, cut into the
  steps of its body: the consistency check, the append, the commit with its snapshot, and the
  handler around them, which holds the node's mutex from its first test to its last line.
\<close>

section \<open>Messages\<close>

record AppendEntriesRPC =
  ae_term :: int
  ae_leaderId :: int
  ae_prevLogIndex :: int
  ae_prevLogTerm :: int
  ae_entries :: "logEntry list"
  ae_leaderCommit :: int

record AppendEntriesResponse =
  aer_term :: int
  aer_success :: bool

section \<open>The handler\<close>

text \<open>Is the entry before the new ones there, with the term the leader gives?\<close>

definition consistency_check :: "AppendEntriesRPC \<Rightarrow> RaftNode \<Rightarrow> bool" where
  "consistency_check r n =
     (let prevLogIndex = ae_prevLogIndex r; prevLogTerm = ae_prevLogTerm r
      in if prevLogIndex \<ge> 0 then
           (case latestSnapshot n of
              Some sn \<Rightarrow>
                if prevLogIndex < lastIncludedIndex sn then False
                else if prevLogIndex = lastIncludedIndex sn
                then prevLogTerm = lastIncludedTerm sn
                else
                  (let logIndex = prevLogIndex - lastIncludedIndex sn - 1
                   in if logIndex < 0 \<or> logIndex \<ge> int (length (log n)) then False
                      else entry_term (log n ! nat logIndex) = prevLogTerm)
            | None \<Rightarrow>
                (let logIndex = prevLogIndex
                 in if logIndex < 0 \<or> logIndex \<ge> int (length (log n)) then False
                    else entry_term (log n ! nat logIndex) = prevLogTerm))
         else True)"

text \<open>The loop that appends: an entry is pushed if its position is not below the end.\<close>

definition push_entry :: "RaftNode \<Rightarrow> logEntry \<Rightarrow> RaftNode" where
  "push_entry n e =
     (if log_position n (entry_index e) \<ge> int (length (log n))
      then n\<lparr>log := log n @ [e]\<rparr> else n)"

definition push_entries :: "logEntry list \<Rightarrow> RaftNode \<Rightarrow> RaftNode" where
  "push_entries es n = foldl push_entry n es"

text \<open>
  The block \<open>if (success && !entries.empty())\<close>.  If the first new entry is already there with
  its term, everything is skipped (\<open>goto skip_append\<close>), otherwise the conflicting tail goes.
\<close>

definition append_entries :: "AppendEntriesRPC \<Rightarrow> RaftNode \<Rightarrow> RaftNode" where
  "append_entries r n =
     (case ae_entries r of
        [] \<Rightarrow> n
      | firstNewEntry # _ \<Rightarrow>
          (let logInsertIndex = log_position n (ae_prevLogIndex r + 1)
           in if 0 \<le> logInsertIndex \<and> logInsertIndex < int (length (log n))
              then
                (if entry_term (log n ! nat logInsertIndex) \<noteq> entry_term firstNewEntry
                 then push_entries (ae_entries r) (n\<lparr>log := take (nat logInsertIndex) (log n)\<rparr>)
                 else n)
              else push_entries (ae_entries r) n))"

text \<open>The block \<open>if (success && leaderCommit > commitIndex)\<close>.\<close>

definition advance_commit ::
  "int \<Rightarrow> RaftNode \<Rightarrow> KVStore \<Rightarrow> RaftNode \<times> KVStore \<times> cpp_exn option" where
  "advance_commit leaderCommit n s =
     (if leaderCommit > commitIndex n
      then
        (case apply_loop False (n\<lparr>commitIndex := min leaderCommit (getLogSize n - 1)\<rparr>) s [] of
           (n, s, _) \<Rightarrow>
             if int (length (log n)) \<ge> SNAPSHOT_THRESHOLD then take_snapshot n s
             else (n, s, None))
      else (n, s, None))"

text \<open>What the handler sends back; \<open>AE_Null\<close> is the JSON value \<open>null\<close> of an empty response.\<close>

datatype append_reply =
    AE_Reply AppendEntriesResponse
  | AE_Null
  | AE_Error            \<comment> \<open>an exception escaped: the reply is \<open>{"error": "Invalid JSON"}\<close>\<close>
  | AE_Hangs            \<comment> \<open>no reply: the handler thread never returns\<close>

text \<open>
  The body under the lock, once the term test is passed; \<open>now\<close> and \<open>rnd\<close> are the clock and
  \<open>rand()\<close>.  \<open>becomeFollower\<close> locks \<open>mtx\<close> again.
\<close>

definition accept_entries ::
  "int \<Rightarrow> nat \<Rightarrow> AppendEntriesRPC \<Rightarrow> RaftNode \<Rightarrow> KVStore \<Rightarrow>
   RaftNode \<times> KVStore \<times> append_reply" where
  "accept_entries now rnd r n s =
     (case (if ae_term r > currentTerm n \<or> state n = CANDIDATE
            then becomeFollower (ae_term r) n else Some n) of
        None \<Rightarrow> (n, s, AE_Hangs)
      | Some n \<Rightarrow>
          (let n = n\<lparr>lastHeartbeat := now, electionTimeout := 2000 + int (rnd mod 2000),
                     leaderId := ae_leaderId r\<rparr>;
               success = consistency_check r n;
               n = persistMetadata (if success then append_entries r n else n)
           in case (if success then advance_commit (ae_leaderCommit r) n s else (n, s, None)) of
                (n, s, None) \<Rightarrow>
                  (n, s, AE_Reply \<lparr>aer_term = currentTerm n, aer_success = success\<rparr>)
              | (n, s, Some e) \<Rightarrow> (n, s, AE_Error)))"

definition release :: "RaftNode \<Rightarrow> RaftNode" where
  "release n = n\<lparr>mtxHeld := False\<rparr>"

definition handle_AppendEntries ::
  "int \<Rightarrow> nat \<Rightarrow> AppendEntriesRPC \<Rightarrow> RaftNode \<Rightarrow> KVStore \<Rightarrow>
   RaftNode \<times> KVStore \<times> append_reply" where
  "handle_AppendEntries now rnd r n s =
     (let n = n\<lparr>metrics := (metrics n)\<lparr>appendEntriesReceived :=
                 appendEntriesReceived (metrics n) + 1\<rparr>\<rparr>
      in if mtxHeld n then (n, s, AE_Hangs)
         else
           (let n = n\<lparr>mtxHeld := True\<rparr>
            in if receivingSnapshot n \<and> snapshotLeaderId n = ae_leaderId r
               then (release n, s, AE_Null)
               else if ae_term r < currentTerm n
               then (release n, s,
                     AE_Reply \<lparr>aer_term = currentTerm n, aer_success = False\<rparr>)
               else
                 (case accept_entries now rnd r n s of
                    (n, s, AE_Hangs) \<Rightarrow> (n, s, AE_Hangs)
                  | (n, s, reply) \<Rightarrow> (release n, s, reply))))"

section \<open>Appending a contiguous batch\<close>

text \<open>The shape every sender produces: consecutive indices after \<open>prevLogIndex\<close>.\<close>

definition contiguous :: "int \<Rightarrow> logEntry list \<Rightarrow> bool" where
  "contiguous start es \<longleftrightarrow> (\<forall>i < length es. entry_index (es ! i) = start + int i)"

lemma contiguous_Cons:
  "contiguous start (e # es) \<longleftrightarrow> entry_index e = start \<and> contiguous (start + 1) es"
  by (auto simp: contiguous_def less_Suc_eq_0_disj nth_Cons' algebra_simps split: if_splits)

lemma contiguous_Nil [simp]: "contiguous start []"
  by (simp add: contiguous_def)

lemma log_wf_contiguous: "log_wf n \<longleftrightarrow> contiguous (base_index n) (log n)"
  by (simp add: log_wf_def contiguous_def)

lemma contiguous_append:
  "contiguous s (xs @ ys) \<longleftrightarrow> contiguous s xs \<and> contiguous (s + int (length xs)) ys"
  by (induction xs arbitrary: s) (simp_all add: contiguous_Cons algebra_simps)

lemma contiguous_take: "contiguous s xs \<Longrightarrow> contiguous s (take k xs)"
  by (simp add: contiguous_def)

lemma base_index_log [simp]: "base_index (n\<lparr>log := l\<rparr>) = base_index n"
  by (simp add: base_index_def)

lemma push_entries_contiguous:
  "contiguous (getLogSize n) es \<Longrightarrow> push_entries es n = n\<lparr>log := log n @ es\<rparr>"
proof (induction es arbitrary: n)
  case Nil
  then show ?case by (simp add: push_entries_def)
next
  case (Cons e es)
  let ?n = "n\<lparr>log := log n @ [e]\<rparr>"
  have "push_entry n e = ?n"
    using Cons.prems
    by (simp add: contiguous_Cons push_entry_def log_position_base getLogSize_def)
  moreover have "contiguous (getLogSize ?n) es"
    using Cons.prems by (simp add: contiguous_Cons getLogSize_def algebra_simps)
  ultimately show ?case using Cons.IH [of ?n] by (simp add: push_entries_def)
qed

text \<open>
  The first new entry is not there yet: either the log ends before it, or the entry in its place
  has another term.
\<close>

definition first_is_new :: "AppendEntriesRPC \<Rightarrow> RaftNode \<Rightarrow> bool" where
  "first_is_new r n \<longleftrightarrow>
     (case entry_at n (ae_prevLogIndex r + 1) of
        None \<Rightarrow> True
      | Some e \<Rightarrow> entry_term e \<noteq> entry_term (hd (ae_entries r)))"

definition log_prefix :: "AppendEntriesRPC \<Rightarrow> RaftNode \<Rightarrow> logEntry list" where
  "log_prefix r n = take (nat (ae_prevLogIndex r + 1 - base_index n)) (log n)"

lemma append_entries_new:
  assumes "contiguous (ae_prevLogIndex r + 1) (ae_entries r)" "ae_entries r \<noteq> []"
    and "base_index n \<le> ae_prevLogIndex r + 1" "ae_prevLogIndex r < getLogSize n"
    and "first_is_new r n"
  shows "append_entries r n = n\<lparr>log := log_prefix r n @ ae_entries r\<rparr>"
proof -
  let ?i = "log_position n (ae_prevLogIndex r + 1)"
  have i: "?i = ae_prevLogIndex r + 1 - base_index n" "0 \<le> ?i"
    using assms(3) by (simp_all add: log_position_base)
  obtain e es where es: "ae_entries r = e # es" using assms(2) by (cases "ae_entries r") auto
  show ?thesis
  proof (cases "?i < int (length (log n))")
    case True
    let ?n = "n\<lparr>log := take (nat ?i) (log n)\<rparr>"
    have "entry_at n (ae_prevLogIndex r + 1) = Some (log n ! nat ?i)"
      using True i(2) by (simp add: entry_at_def Let_def)
    then have "append_entries r n = push_entries (ae_entries r) ?n"
      using assms(5) es True i(2) by (simp add: append_entries_def first_is_new_def Let_def)
    moreover have "getLogSize ?n = ae_prevLogIndex r + 1"
      using True i by (simp add: getLogSize_def min_def)
    ultimately show ?thesis
      using assms(1) push_entries_contiguous [of ?n "ae_entries r"]
      by (simp add: log_prefix_def i(1))
  next
    case False
    then have "append_entries r n = push_entries (ae_entries r) n"
      using es by (simp add: append_entries_def Let_def)
    moreover have size: "getLogSize n = ae_prevLogIndex r + 1"
      using False assms(4) i(1) by (simp add: getLogSize_def)
    moreover have "log_prefix r n = log n"
      using size by (simp add: log_prefix_def getLogSize_def)
    ultimately show ?thesis using assms(1) push_entries_contiguous [of n "ae_entries r"] by simp
  qed
qed

lemma append_entries_present: "\<not> first_is_new r n \<Longrightarrow> append_entries r n = n"
  by (auto simp: append_entries_def first_is_new_def entry_at_def Let_def
      split: list.splits option.splits if_splits)

text \<open>The view after the append: the old entries up to \<open>prevLogIndex\<close>, then the new ones.\<close>

lemma append_entries_view:
  assumes "contiguous (ae_prevLogIndex r + 1) (ae_entries r)" "ae_entries r \<noteq> []"
    and "base_index n \<le> ae_prevLogIndex r + 1" "ae_prevLogIndex r < getLogSize n"
    and "first_is_new r n"
  shows "idx \<le> ae_prevLogIndex r \<Longrightarrow> entry_at (append_entries r n) idx = entry_at n idx"
    and "i < length (ae_entries r) \<Longrightarrow>
      entry_at (append_entries r n) (ae_prevLogIndex r + 1 + int i) = Some (ae_entries r ! i)"
    and "getLogSize (append_entries r n) =
      ae_prevLogIndex r + 1 + int (length (ae_entries r))"
proof -
  let ?p = "nat (ae_prevLogIndex r + 1 - base_index n)"
  have len: "length (log_prefix r n) = ?p"
    using assms(3,4) by (simp add: log_prefix_def getLogSize_def)
  note eq = append_entries_new [OF assms]
  show "entry_at (append_entries r n) idx = entry_at n idx" if "idx \<le> ae_prevLogIndex r"
  proof (cases "base_index n \<le> idx")
    case False
    then show ?thesis by (simp add: eq entry_at_def log_position_base Let_def)
  next
    case True
    define q where "q = nat (idx - base_index n)"
    have q: "idx = base_index n + int q" "q < ?p" "?p \<le> length (log n)"
      using True that assms(3,4) by (simp_all add: q_def getLogSize_def)
    have "(log_prefix r n @ ae_entries r) ! q = log n ! q"
      using q(2) len by (simp add: nth_append) (simp add: log_prefix_def)
    moreover have "q < length (log_prefix r n) + length (ae_entries r)" "q < length (log n)"
      using q(2,3) len by simp_all
    ultimately show ?thesis
      by (simp add: eq entry_at_def log_position_base Let_def q(1))
  qed
  show "entry_at (append_entries r n) (ae_prevLogIndex r + 1 + int i) = Some (ae_entries r ! i)"
    if "i < length (ae_entries r)"
  proof -
    have "nat (ae_prevLogIndex r + 1 + int i - base_index n) = ?p + i"
      using assms(3) by simp
    then show ?thesis
      using that assms(3)
      by (simp add: eq entry_at_def log_position_base Let_def nth_append len)
  qed
  show "getLogSize (append_entries r n) =
      ae_prevLogIndex r + 1 + int (length (ae_entries r))"
    using assms(3) by (simp add: eq getLogSize_def len)
qed

lemma append_entries_wf:
  assumes "contiguous (ae_prevLogIndex r + 1) (ae_entries r)" "ae_entries r \<noteq> []"
    and "base_index n \<le> ae_prevLogIndex r + 1" "ae_prevLogIndex r < getLogSize n"
    and "log_wf n"
  shows "log_wf (append_entries r n)"
proof (cases "first_is_new r n")
  case True
  have "int (length (log_prefix r n)) = ae_prevLogIndex r + 1 - base_index n"
    using assms(3,4) by (simp add: log_prefix_def getLogSize_def)
  then show ?thesis
    using append_entries_new [OF assms(1-4) True] assms(1,5)
    by (simp add: log_wf_contiguous contiguous_append contiguous_take log_prefix_def)
next
  case False
  then show ?thesis using assms(5) by (simp add: append_entries_present)
qed

text \<open>A check that succeeds pins \<open>prevLogIndex\<close> inside the log.\<close>

lemma consistency_check_bounds:
  assumes "consistency_check r n"
  shows "ae_prevLogIndex r < getLogSize n \<or> ae_prevLogIndex r < 0"
    and "0 \<le> ae_prevLogIndex r \<Longrightarrow> base_index n \<le> ae_prevLogIndex r + 1"
  using assms
  by (auto simp: consistency_check_def getLogSize_def base_index_def Let_def
      split: option.splits if_splits)

lemma consistency_check_term:
  "consistency_check r n \<Longrightarrow> 0 \<le> ae_prevLogIndex r \<Longrightarrow>
    getLogTerm (ae_prevLogIndex r) n = ae_prevLogTerm r"
  by (auto simp: consistency_check_def getLogTerm_def Let_def split: option.splits if_splits)

end
