(* ===== verification/Json.thy ===== *)
theory Json
  imports Base64 Snapshot_Transfer Replication
begin

text \<open>
  JSON values and the messages of the cluster as JSON.  Parsing and printing text is the job of the
  library \<open>nlohmann::json\<close>; what the sources do with values is modelled here: member access with
  a default (\<open>value\<close>), checked access (\<open>at\<close>), conversion to C++ types, and the \<open>to_json\<close> and
  \<open>from_json\<close> functions of \<open>raft_node.h\<close> and \<open>rpc_server.cpp\<close>.
\<close>

section \<open>Values\<close>

text \<open>Numbers are integers: the sources never write a floating-point number.\<close>

datatype json =
    JNull
  | JBool bool
  | JInt int
  | JString string
  | JArray "json list"
  | JObject "(string \<times> json) list"

text \<open>\<open>get<int>()\<close> takes integers, cast to 32 bits, and booleans.\<close>

definition narrow_int :: "int \<Rightarrow> int" where
  "narrow_int i = (i + 2 ^ 31) mod 2 ^ 32 - 2 ^ 31"

fun get_int :: "json \<Rightarrow> cpp_exn + int" where
  "get_int (JInt i) = Inr (narrow_int i)"
| "get_int (JBool b) = Inr (if b then 1 else 0)"
| "get_int _ = Inl Json_Error"

fun get_bool :: "json \<Rightarrow> cpp_exn + bool" where
  "get_bool (JBool b) = Inr b"
| "get_bool _ = Inl Json_Error"

fun get_string :: "json \<Rightarrow> cpp_exn + string" where
  "get_string (JString s) = Inr s"
| "get_string _ = Inl Json_Error"

text \<open>\<open>j.value(key, default)\<close>: only objects have members.\<close>

definition json_value :: "(json \<Rightarrow> cpp_exn + 'a) \<Rightarrow> json \<Rightarrow> string \<Rightarrow> 'a \<Rightarrow> cpp_exn + 'a" where
  "json_value conv j key def =
     (case j of
        JObject ms \<Rightarrow> (case map_of ms key of None \<Rightarrow> Inr def | Some v \<Rightarrow> conv v)
      | _ \<Rightarrow> Inl Json_Error)"

text \<open>\<open>j.at(key)\<close>\<close>

definition json_at :: "(json \<Rightarrow> cpp_exn + 'a) \<Rightarrow> json \<Rightarrow> string \<Rightarrow> cpp_exn + 'a" where
  "json_at conv j key =
     (case j of
        JObject ms \<Rightarrow> (case map_of ms key of None \<Rightarrow> Inl Json_Error | Some v \<Rightarrow> conv v)
      | _ \<Rightarrow> Inl Json_Error)"

text \<open>
  \<open>j[key]\<close> on a mutable value: a missing member reads as \<open>null\<close>, and so does one of \<open>null\<close>.
\<close>

definition json_member :: "json \<Rightarrow> string \<Rightarrow> cpp_exn + json" where
  "json_member j key =
     (case j of
        JObject ms \<Rightarrow> Inr (case map_of ms key of None \<Rightarrow> JNull | Some v \<Rightarrow> v)
      | JNull \<Rightarrow> Inr JNull
      | _ \<Rightarrow> Inl Json_Error)"

text \<open>The values a range-based \<open>for\<close> visits; \<open>empty()\<close> says whether there are any.\<close>

definition json_elems :: "json \<Rightarrow> json list" where
  "json_elems j =
     (case j of JNull \<Rightarrow> [] | JArray xs \<Rightarrow> xs | JObject ms \<Rightarrow> map snd ms | _ \<Rightarrow> [j])"

text \<open>Sequencing of computations that may throw.\<close>

definition and_then :: "cpp_exn + 'a \<Rightarrow> ('a \<Rightarrow> cpp_exn + 'b) \<Rightarrow> cpp_exn + 'b" where
  "and_then x f = (case x of Inl e \<Rightarrow> Inl e | Inr a \<Rightarrow> f a)"

lemma and_then_simps [simp]: "and_then (Inr a) f = f a" "and_then (Inl e) f = Inl e"
  by (simp_all add: and_then_def)

lemma narrow_int_range [simp]: "int32_range i \<Longrightarrow> narrow_int i = i"
  by (simp add: narrow_int_def int32_range_def)

lemma json_value_object [simp]:
  "json_value conv (JObject ms) key d =
    (case map_of ms key of None \<Rightarrow> Inr d | Some v \<Rightarrow> conv v)"
  by (simp add: json_value_def)

lemma json_at_object [simp]:
  "json_at conv (JObject ms) key =
    (case map_of ms key of None \<Rightarrow> Inl Json_Error | Some v \<Rightarrow> conv v)"
  by (simp add: json_at_def)

section \<open>Log entries and requests\<close>

definition logEntry_to_json :: "logEntry \<Rightarrow> json" where
  "logEntry_to_json e =
     JObject [(''term'', JInt (entry_term e)), (''index'', JInt (entry_index e)),
              (''command'', JString (entry_command e))]"

definition logEntry_from_json :: "json \<Rightarrow> cpp_exn + logEntry" where
  "logEntry_from_json j =
     and_then (json_at get_int j ''term'') (\<lambda>t.
     and_then (json_at get_int j ''index'') (\<lambda>i.
     and_then (json_at get_string j ''command'') (\<lambda>c.
       Inr \<lparr>entry_term = t, entry_index = i, entry_command = c\<rparr>)))"

definition RequestVote_to_json :: "RequestVoteRPC \<Rightarrow> json" where
  "RequestVote_to_json r =
     JObject [(''rpc'', JString ''RequestVote''), (''term'', JInt (rv_term r)),
              (''candidateId'', JInt (rv_candidateId r)),
              (''lastLogIndex'', JInt (rv_lastLogIndex r)),
              (''lastLogTerm'', JInt (rv_lastLogTerm r))]"

definition AppendEntries_to_json :: "AppendEntriesRPC \<Rightarrow> json" where
  "AppendEntries_to_json r =
     JObject [(''rpc'', JString ''AppendEntries''), (''term'', JInt (ae_term r)),
              (''leaderId'', JInt (ae_leaderId r)),
              (''prevLogIndex'', JInt (ae_prevLogIndex r)),
              (''prevLogTerm'', JInt (ae_prevLogTerm r)),
              (''entries'', JArray (map logEntry_to_json (ae_entries r))),
              (''leaderCommit'', JInt (ae_leaderCommit r))]"

text \<open>The message the chunk loop builds member by member.\<close>

definition chunk_to_json :: "InstallSnapshotRPC \<Rightarrow> json" where
  "chunk_to_json r =
     JObject [(''rpc'', JString ''InstallSnapshot''), (''term'', JInt (is_term r)),
              (''leaderId'', JInt (is_leaderId r)),
              (''lastIncludedIndex'', JInt (is_lastIncludedIndex r)),
              (''lastIncludedTerm'', JInt (is_lastIncludedTerm r)),
              (''offset'', JInt (is_offset r)), (''data'', JString (is_data r)),
              (''done'', JBool (is_done r)), (''chunkNum'', JInt (is_chunkNum r)),
              (''totalChunks'', JInt (is_totalChunks r))]"

section \<open>Reading requests, as the dispatcher does\<close>

definition read_RequestVote :: "json \<Rightarrow> cpp_exn + RequestVoteRPC" where
  "read_RequestVote j =
     and_then (json_value get_int j ''term'' 0) (\<lambda>t.
     and_then (json_value get_int j ''candidateId'' (- 1)) (\<lambda>c.
     and_then (json_value get_int j ''lastLogIndex'' (- 1)) (\<lambda>i.
     and_then (json_value get_int j ''lastLogTerm'' 0) (\<lambda>lt.
       Inr \<lparr>rv_term = t, rv_candidateId = c, rv_lastLogIndex = i, rv_lastLogTerm = lt\<rparr>))))"

text \<open>The entries stay JSON until they are appended.\<close>

definition read_AppendEntries :: "json \<Rightarrow> cpp_exn + AppendEntriesRPC \<times> json" where
  "read_AppendEntries j =
     and_then (json_value get_int j ''term'' 0) (\<lambda>t.
     and_then (json_value get_int j ''leaderId'' (- 1)) (\<lambda>l.
     and_then (json_value get_int j ''prevLogIndex'' (- 1)) (\<lambda>pi.
     and_then (json_value get_int j ''prevLogTerm'' 0) (\<lambda>pt.
     and_then (json_value Inr j ''entries'' (JArray [])) (\<lambda>es.
     and_then (json_value get_int j ''leaderCommit'' 0) (\<lambda>c.
       Inr (\<lparr>ae_term = t, ae_leaderId = l, ae_prevLogIndex = pi, ae_prevLogTerm = pt,
              ae_entries = [], ae_leaderCommit = c\<rparr>, es)))))))"

definition read_chunk :: "json \<Rightarrow> cpp_exn + InstallSnapshotRPC" where
  "read_chunk j =
     and_then (json_value get_int j ''term'' 0) (\<lambda>t.
     and_then (json_value get_int j ''leaderId'' (- 1)) (\<lambda>l.
     and_then (json_value get_int j ''lastIncludedIndex'' (- 1)) (\<lambda>ii.
     and_then (json_value get_int j ''lastIncludedTerm'' 0) (\<lambda>it.
     and_then (json_value get_int j ''offset'' 0) (\<lambda>off.
     and_then (json_value get_string j ''data'' []) (\<lambda>d.
     and_then (json_value get_bool j ''done'' False) (\<lambda>dn.
     and_then (json_value get_int j ''chunkNum'' (- 1)) (\<lambda>k.
     and_then (json_value get_int j ''totalChunks'' (- 1)) (\<lambda>n.
       Inr \<lparr>is_term = t, is_leaderId = l, is_lastIncludedIndex = ii, is_lastIncludedTerm = it,
            is_offset = off, is_data = d, is_done = dn, is_chunkNum = k,
            is_totalChunks = n\<rparr>)))))))))"

section \<open>Responses\<close>

definition vote_response_json :: "RequestVoteResponse \<Rightarrow> json" where
  "vote_response_json r =
     JObject [(''term'', JInt (rvr_term r)), (''voteGranted'', JBool (voteGranted r))]"

definition RequestVoteResponse_from_json :: "json \<Rightarrow> cpp_exn + RequestVoteResponse" where
  "RequestVoteResponse_from_json j =
     and_then (json_value get_int j ''term'' 0) (\<lambda>t.
     and_then (json_value get_bool j ''voteGranted'' False) (\<lambda>g.
       Inr \<lparr>rvr_term = t, voteGranted = g\<rparr>))"

definition append_response_json :: "AppendEntriesResponse \<Rightarrow> json" where
  "append_response_json r =
     JObject [(''term'', JInt (aer_term r)), (''success'', JBool (aer_success r))]"

definition AppendEntriesResponse_from_json :: "json \<Rightarrow> cpp_exn + AppendEntriesResponse" where
  "AppendEntriesResponse_from_json j =
     and_then (json_value get_int j ''term'' 0) (\<lambda>t.
     and_then (json_value get_bool j ''success'' False) (\<lambda>s.
       Inr \<lparr>aer_term = t, aer_success = s\<rparr>))"

definition install_reply_json :: "InstallSnapshotReply \<Rightarrow> json" where
  "install_reply_json r =
     JObject ([(''term'', JInt (isr_term r)), (''success'', JBool (isr_success r))] @
       (if isr_error r = [] then [] else [(''error'', JString (isr_error r))]))"

text \<open>The error object of the dispatcher's \<open>catch\<close>.\<close>

definition invalid_json :: json where
  "invalid_json = JObject [(''error'', JString ''Invalid JSON'')]"

text \<open>How the three senders read whatever came back; \<open>None\<close> is text that does not parse.\<close>

definition reply_of :: "(json \<Rightarrow> cpp_exn + 'r) \<Rightarrow> json option \<Rightarrow> 'r rpc_reply" where
  "reply_of conv t =
     (case t of None \<Rightarrow> Bad_Reply
      | Some j \<Rightarrow> (case conv j of Inl e \<Rightarrow> Bad_Reply | Inr r \<Rightarrow> Reply r))"

definition accepted_from_json :: "json \<Rightarrow> cpp_exn + bool" where
  "accepted_from_json j = json_value get_bool j ''success'' False"

section \<open>The unused codec of \<open>InstallSnapshotRPC\<close>\<close>

record snapshot_chunk =
  sc_term :: int
  sc_leaderId :: int
  sc_lastIncludedIndex :: int
  sc_lastIncludedTerm :: int
  sc_offset :: int
  sc_data :: bytes
  sc_done :: bool

definition InstallSnapshotRPC_to_json :: "snapshot_chunk \<Rightarrow> json" where
  "InstallSnapshotRPC_to_json p =
     JObject [(''term'', JInt (sc_term p)), (''leaderId'', JInt (sc_leaderId p)),
              (''lastIncludedIndex'', JInt (sc_lastIncludedIndex p)),
              (''lastIncludedTerm'', JInt (sc_lastIncludedTerm p)),
              (''offset'', JInt (sc_offset p)), (''data'', JString (base64Encode (sc_data p))),
              (''done'', JBool (sc_done p))]"

definition InstallSnapshotRPC_from_json :: "json \<Rightarrow> cpp_exn + snapshot_chunk" where
  "InstallSnapshotRPC_from_json j =
     and_then (json_at get_int j ''term'') (\<lambda>t.
     and_then (json_at get_int j ''leaderId'') (\<lambda>l.
     and_then (json_at get_int j ''lastIncludedIndex'') (\<lambda>ii.
     and_then (json_at get_int j ''lastIncludedTerm'') (\<lambda>it.
     and_then (json_at get_int j ''offset'') (\<lambda>off.
     and_then (json_at get_string j ''data'') (\<lambda>d.
     and_then (json_at get_bool j ''done'') (\<lambda>dn.
       Inr \<lparr>sc_term = t, sc_leaderId = l, sc_lastIncludedIndex = ii, sc_lastIncludedTerm = it,
            sc_offset = off, sc_data = base64Decode d, sc_done = dn\<rparr>)))))))"

section \<open>Decoding a batch\<close>

text \<open>The entries up to the first one that does not decode, and whether all do.\<close>

fun decode_entries :: "json list \<Rightarrow> logEntry list \<times> bool" where
  "decode_entries [] = ([], True)"
| "decode_entries (j # js) =
     (case logEntry_from_json j of
        Inl e \<Rightarrow> ([], False)
      | Inr e \<Rightarrow> (case decode_entries js of (es, ok) \<Rightarrow> (e # es, ok)))"

definition entry_range :: "logEntry \<Rightarrow> bool" where
  "entry_range e \<longleftrightarrow> int32_range (entry_term e) \<and> int32_range (entry_index e)"

lemma logEntry_round_trip:
  "entry_range e \<Longrightarrow> logEntry_from_json (logEntry_to_json e) = Inr e"
  by (simp add: logEntry_from_json_def logEntry_to_json_def entry_range_def)

lemma decode_encoded:
  "list_all entry_range es \<Longrightarrow> decode_entries (map logEntry_to_json es) = (es, True)"
  by (induction es) (simp_all add: logEntry_round_trip)

section \<open>Properties\<close>

definition vote_request_range :: "RequestVoteRPC \<Rightarrow> bool" where
  "vote_request_range r \<longleftrightarrow> int32_range (rv_term r) \<and> int32_range (rv_candidateId r) \<and>
     int32_range (rv_lastLogIndex r) \<and> int32_range (rv_lastLogTerm r)"

definition append_request_range :: "AppendEntriesRPC \<Rightarrow> bool" where
  "append_request_range r \<longleftrightarrow> int32_range (ae_term r) \<and> int32_range (ae_leaderId r) \<and>
     int32_range (ae_prevLogIndex r) \<and> int32_range (ae_prevLogTerm r) \<and>
     int32_range (ae_leaderCommit r) \<and> list_all entry_range (ae_entries r)"

definition chunk_range :: "InstallSnapshotRPC \<Rightarrow> bool" where
  "chunk_range r \<longleftrightarrow> int32_range (is_term r) \<and> int32_range (is_leaderId r) \<and>
     int32_range (is_lastIncludedIndex r) \<and> int32_range (is_lastIncludedTerm r) \<and>
     int32_range (is_offset r) \<and> int32_range (is_chunkNum r) \<and> int32_range (is_totalChunks r)"

lemmas request_codec_defs = RequestVote_to_json_def read_RequestVote_def AppendEntries_to_json_def
  read_AppendEntries_def chunk_to_json_def read_chunk_def json_elems_def

text \<open>
  Every request survives the wire: what the dispatcher reads member by member, with its
  defaults, from the JSON the sender wrote is the sender's message, the entries of a batch
  included.
\<close>

theorem requests_survive_wire:
  assumes "vote_request_range v" "append_request_range a" "chunk_range c"
  shows "read_RequestVote (RequestVote_to_json v) = Inr v \<and>
    (\<exists>es. read_AppendEntries (AppendEntries_to_json a) = Inr (a\<lparr>ae_entries := []\<rparr>, es) \<and>
       decode_entries (json_elems es) = (ae_entries a, True)) \<and>
    read_chunk (chunk_to_json c) = Inr c"
  using assms
  by (simp add: request_codec_defs vote_request_range_def append_request_range_def
      chunk_range_def decode_encoded)

theorem requests_survive_wire_witness:
  "read_RequestVote (RequestVote_to_json (demo_request 3 1)) = Inr (demo_request 3 1)"
  using requests_survive_wire [of "demo_request 3 1"
      "\<lparr>ae_term = 3, ae_leaderId = 1, ae_prevLogIndex = - 1, ae_prevLogTerm = 0,
        ae_entries = [demo_entry 3 0 ''PUT a 1''], ae_leaderCommit = 0\<rparr>"
      "\<lparr>is_term = 3, is_leaderId = 1, is_lastIncludedIndex = 9, is_lastIncludedTerm = 2,
        is_offset = 0, is_data = ''QUJD'', is_done = True, is_chunkNum = 0, is_totalChunks = 1\<rparr>"]
  by (simp add: vote_request_range_def append_request_range_def chunk_range_def entry_range_def
      demo_request_def demo_entry_def int32_range_def)

text \<open>
  Every response survives the wire, and an error object read as a response is a refusal in
  term 0: the defaults of \<open>value\<close> turn it into a reply instead of a parse failure.
\<close>

theorem responses_survive_wire:
  assumes "int32_range (rvr_term v)" "int32_range (aer_term a)"
  shows "reply_of RequestVoteResponse_from_json (Some (vote_response_json v)) = Reply v \<and>
    reply_of AppendEntriesResponse_from_json (Some (append_response_json a)) = Reply a \<and>
    reply_of accepted_from_json (Some (install_reply_json i)) = Reply (isr_success i) \<and>
    reply_of AppendEntriesResponse_from_json (Some invalid_json) =
      Reply \<lparr>aer_term = 0, aer_success = False\<rparr>"
  using assms
  by (simp add: reply_of_def RequestVoteResponse_from_json_def vote_response_json_def
      AppendEntriesResponse_from_json_def append_response_json_def accepted_from_json_def
      install_reply_json_def invalid_json_def)

theorem responses_survive_wire_witness:
  "reply_of RequestVoteResponse_from_json
      (Some (vote_response_json \<lparr>rvr_term = 4, voteGranted = True\<rparr>)) =
    Reply \<lparr>rvr_term = 4, voteGranted = True\<rparr>"
  using responses_survive_wire [of "\<lparr>rvr_term = 4, voteGranted = True\<rparr>"
      "\<lparr>aer_term = 4, aer_success = True\<rparr>"] by (simp add: int32_range_def)

text \<open>
  The chunk codec of \<open>rpc_server.cpp\<close> inverts: with Base64 inside, \<open>from_json\<close> of \<open>to_json\<close> is
  the identity on every payload.
\<close>

theorem chunk_codec_round_trip:
  assumes "int32_range (sc_term p)" "int32_range (sc_leaderId p)"
    and "int32_range (sc_lastIncludedIndex p)" "int32_range (sc_lastIncludedTerm p)"
    and "int32_range (sc_offset p)"
  shows "InstallSnapshotRPC_from_json (InstallSnapshotRPC_to_json p) = Inr p"
  using assms
  by (simp add: InstallSnapshotRPC_from_json_def InstallSnapshotRPC_to_json_def decode_encode)

theorem chunk_codec_round_trip_witness:
  "InstallSnapshotRPC_from_json (InstallSnapshotRPC_to_json
      \<lparr>sc_term = 1, sc_leaderId = 2, sc_lastIncludedIndex = 7, sc_lastIncludedTerm = 1,
       sc_offset = 512, sc_data = ''abc'', sc_done = False\<rparr>) =
    Inr \<lparr>sc_term = 1, sc_leaderId = 2, sc_lastIncludedIndex = 7, sc_lastIncludedTerm = 1,
       sc_offset = 512, sc_data = ''abc'', sc_done = False\<rparr>"
  by (rule chunk_codec_round_trip) (simp_all add: int32_range_def)

end
