(* ===== verification/Command_Line.thy ===== *)
theory Command_Line
  imports Text_Stream
begin

text \<open>
  The lexical part of \<open>server.cpp\<close>: trimming, upper case, quoted values, the named format of
  \<open>PUT\<close>, command aliases, and the \<open>std::stoi\<close> the commands read numbers with.  A stream is its
  unread characters; \<open>seekg\<close> back to a position is using the earlier characters again.
\<close>

section \<open>Words and values\<close>

text \<open>The four characters of \<open>trim\<close>: space, \<open>\t\<close>, \<open>\n\<close>, \<open>\r\<close>.\<close>

definition is_blank :: "char \<Rightarrow> bool" where
  "is_blank c \<longleftrightarrow> (of_char c :: nat) \<in> {9, 10, 13, 32}"

definition trim :: "string \<Rightarrow> string" where
  "trim s = rev (dropWhile is_blank (rev (dropWhile is_blank s)))"

definition to_upper :: "char \<Rightarrow> char" where
  "to_upper c =
     (let n = of_char c :: nat in if 97 \<le> n \<and> n \<le> 122 then char_of (n - 32) else c)"

definition toUpper :: "string \<Rightarrow> string" where
  "toUpper s = map to_upper s"

text \<open>The two quotation marks.\<close>

definition quotation :: char where "quotation = char_of (34::nat)"
definition apostrophe :: char where "apostrophe = char_of (39::nat)"

definition parseValue :: "string \<Rightarrow> string \<times> string" where
  "parseValue s =
     (case skip_ws s of
        [] \<Rightarrow> ([], [])
      | c # t \<Rightarrow>
          if c = quotation then getline quotation t
          else if c = apostrophe then getline apostrophe t
          else (case getline newline (c # t) of (value, rest) \<Rightarrow> (trim value, rest)))"

section \<open>The named format\<close>

definition is_key_flag :: "string \<Rightarrow> bool" where
  "is_key_flag token \<longleftrightarrow> toUpper token \<in> {''--KEY'', ''-K''}"

definition is_value_flag :: "string \<Rightarrow> bool" where
  "is_value_flag token \<longleftrightarrow> toUpper token \<in> {''--VALUE'', ''-V''}"

lemma length_skip_ws: "length (skip_ws s) \<le> length s"
  by (simp add: skip_ws_def length_dropWhile_le)

lemma read_token_shorter: "read_token s = (c # cs, rest) \<Longrightarrow> length rest < length s"
proof -
  assume r: "read_token s = (c # cs, rest)"
  have "(c # cs) @ rest = skip_ws s"
    using r takeWhile_dropWhile_id [of "\<lambda>c. \<not> is_space c" "skip_ws s"]
    by (simp add: read_token_def Let_def)
  then have "length ((c # cs) @ rest) = length (skip_ws s)" by simp
  then show ?thesis using length_skip_ws [of s] by simp
qed

lemma getline_shorter: "length (snd (getline d s)) \<le> length s"
  by (simp add: getline_def) (meson diff_le_self le_trans length_dropWhile_le)

lemma parseValue_shorter: "length (snd (parseValue s)) \<le> length s"
proof (cases "skip_ws s")
  case (Cons c t)
  have "length (snd (parseValue s)) \<le> length (c # t)"
    using getline_shorter [of quotation t] getline_shorter [of apostrophe t]
      getline_shorter [of newline "c # t"]
    by (auto simp: parseValue_def Cons split: prod.split)
  then show ?thesis using length_skip_ws [of s] Cons by simp
qed (simp add: parseValue_def)

text \<open>\<open>parseKeyValueFormat\<close>: the loop, and its result with the key and value it leaves.\<close>

function key_value_loop :: "string \<Rightarrow> string \<Rightarrow> string \<Rightarrow> string \<times> string" where
  "key_value_loop s key val =
     (case read_token s of
        ([], rest) \<Rightarrow> (key, val)
      | (c # cs, rest) \<Rightarrow>
          if is_key_flag (c # cs)
          then key_value_loop (snd (parseValue rest)) (fst (parseValue rest)) val
          else if is_value_flag (c # cs)
          then key_value_loop (snd (parseValue rest)) key (fst (parseValue rest))
          else key_value_loop rest key val)"
  by pat_completeness auto
termination
  by (relation "measure (\<lambda>(s, _, _). length s)")
    (auto dest!: read_token_shorter [OF sym] intro: le_less_trans [OF parseValue_shorter])

declare key_value_loop.simps [simp del]

definition parseKeyValueFormat :: "string \<Rightarrow> bool \<times> string \<times> string" where
  "parseKeyValueFormat s =
     (let kv = key_value_loop s [] [] in (fst kv \<noteq> [], fst kv, snd kv))"

section \<open>Command names\<close>

definition aliases :: "(string \<times> string) list" where
  "aliases =
     [(''G'', ''GET''), (''RETRIEVE'', ''GET''), (''FETCH'', ''GET''), (''READ'', ''GET''),
      (''P'', ''PUT''), (''SET'', ''PUT''), (''ADD'', ''PUT''), (''UPDATE'', ''PUT''),
      (''WRITE'', ''PUT''), (''D'', ''DELETE''), (''DEL'', ''DELETE''), (''REMOVE'', ''DELETE''),
      (''RM'', ''DELETE''), (''H'', ''HELP''), (''?'', ''HELP''), (''Q'', ''EXIT''),
      (''QUIT'', ''EXIT''), (''BYE'', ''EXIT''), (''S'', ''STATUS''), (''M'', ''METRICS'')]"

definition resolveCommandAlias :: "string \<Rightarrow> string" where
  "resolveCommandAlias cmd =
     (case map_of aliases (toUpper cmd) of Some c \<Rightarrow> c | None \<Rightarrow> toUpper cmd)"

section \<open>Numbers\<close>

definition is_digit :: "char \<Rightarrow> bool" where
  "is_digit c \<longleftrightarrow> (let n = of_char c :: nat in 48 \<le> n \<and> n \<le> 57)"

definition digits_value :: "string \<Rightarrow> int" where
  "digits_value ds = foldl (\<lambda>v c. 10 * v + (of_char c - 48)) 0 ds"

text \<open>
  \<open>std::stoi\<close>: white space, a sign, then as many digits as there are; the rest is ignored.
\<close>

definition stoi :: "string \<Rightarrow> cpp_exn + int" where
  "stoi s =
     (let t = skip_ws s;
          neg = (t \<noteq> [] \<and> hd t = CHR ''-'');
          u = (if t \<noteq> [] \<and> (hd t = CHR ''-'' \<or> hd t = CHR ''+'') then tl t else t);
          ds = takeWhile is_digit u;
          v = (if neg then - digits_value ds else digits_value ds)
      in if ds = [] then Inl Invalid_Argument
         else if int32_range v then Inr v
         else Inl Out_Of_Range)"

end
