(* ===== verification/Cli_Requests.thy ===== *)
theory Cli_Requests
  imports Json Command_Line
begin

text \<open>
  \<open>sendClientRequest\<close> of \<open>server.cpp\<close>: the search for a node that answers a request with
  \<open>OK\<close>.  A redirect is followed without counting the attempt, so the loop need not end; it is a
  \<open>partial_function\<close>, and \<open>None\<close> is a call that never returns.
\<close>

section \<open>The environment\<close>

record NodeInfo =
  host :: string
  port :: int

definition raft_nodes :: "NodeInfo list" where
  "raft_nodes =
     [\<lparr>host = ''127.0.0.1'', port = 5000\<rparr>, \<lparr>host = ''127.0.0.1'', port = 5001\<rparr>,
      \<lparr>host = ''127.0.0.1'', port = 5002\<rparr>]"

text \<open>
  The world \<open>'w\<close> holds the cluster.  \<open>cli_rpc\<close> prints a message and passes it to \<open>sendRPC\<close>
  (\<open>None\<close>: printing threw), \<open>cli_parse\<close> is the library's parser, \<open>cli_rand\<close> is \<open>rand()\<close>.
\<close>

record 'w cli_env =
  cli_rpc :: "NodeInfo \<Rightarrow> json \<Rightarrow> 'w \<Rightarrow> 'w \<times> string option"
  cli_parse :: "string \<Rightarrow> json option"
  cli_rand :: "'w \<Rightarrow> 'w \<times> nat"

section \<open>One pass of the loop\<close>

datatype attempt =
    Found json         \<comment> \<open>the answer is returned; its text parses to this value\<close>
  | Redirected int     \<comment> \<open>\<open>continue\<close>: the attempt is not counted\<close>
  | Refused int        \<comment> \<open>counted; the next node\<close>

definition random_node :: "'w cli_env \<Rightarrow> 'w \<Rightarrow> 'w \<times> int" where
  "random_node env w = (case cli_rand env w of (w, r) \<Rightarrow> (w, int (r mod length raft_nodes)))"

definition following :: "int \<Rightarrow> int" where
  "following current_node = (current_node + 1) mod int (length raft_nodes)"

text \<open>\<open>respJson["status"]\<close> throws on a value that is neither an object nor \<open>null\<close>.\<close>

definition read_answer :: "'w cli_env \<Rightarrow> int \<Rightarrow> json \<Rightarrow> 'w \<Rightarrow> 'w \<times> attempt" where
  "read_answer env current_node respJson w =
     (case json_member respJson ''status'' of
        Inl e \<Rightarrow> (w, Refused (following current_node))
      | Inr st \<Rightarrow>
          if st = JString ''OK'' then (w, Found respJson)
          else if st = JString ''redirect''
          then
            (case json_value get_int respJson ''leaderId'' (- 1) of
               Inl e \<Rightarrow> (w, Refused (following current_node))
             | Inr leader \<Rightarrow>
                 if leader = - 1 then map_prod id Redirected (random_node env w)
                 else (w, Redirected leader))
          else map_prod id Refused (random_node env w))"

definition attempt_node :: "'w cli_env \<Rightarrow> json \<Rightarrow> int \<Rightarrow> 'w \<Rightarrow> 'w \<times> attempt" where
  "attempt_node env msg current_node w =
     (case cli_rpc env (raft_nodes ! nat current_node) msg w of
        (w, None) \<Rightarrow> (w, Refused (following current_node))
      | (w, Some responseStr) \<Rightarrow>
          (case cli_parse env responseStr of
             None \<Rightarrow> (w, Refused (following current_node))
           | Some respJson \<Rightarrow> read_answer env current_node respJson w))"

section \<open>The loop\<close>

datatype request_result =
    Returned json
  | Out_Of_Bounds      \<comment> \<open>\<open>raft_nodes[current_node]\<close> past the vector: undefined\<close>

text \<open>The literal that is returned when every attempt failed, as the value it parses to.\<close>

definition unreachable :: json where
  "unreachable =
     JObject [(''status'', JString ''error''), (''msg'', JString ''All nodes unreachable'')]"

partial_function (option) request_loop ::
  "'w cli_env \<Rightarrow> json \<Rightarrow> nat \<Rightarrow> int \<Rightarrow> 'w \<Rightarrow> ('w \<times> request_result) option" where
  "request_loop env msg attempts current_node w =
     (if \<not> attempts < length raft_nodes then Some (w, Returned unreachable)
      else if current_node < 0 \<or> int (length raft_nodes) \<le> current_node
      then Some (w, Out_Of_Bounds)
      else
        (case attempt_node env msg current_node w of
           (w, Found j) \<Rightarrow> Some (w, Returned j)
         | (w, Redirected node) \<Rightarrow> request_loop env msg attempts node w
         | (w, Refused node) \<Rightarrow> request_loop env msg (attempts + 1) node w))"

definition sendClientRequest ::
  "'w cli_env \<Rightarrow> json \<Rightarrow> 'w \<Rightarrow> ('w \<times> request_result) option" where
  "sendClientRequest env msg w =
     (case random_node env w of (w, node) \<Rightarrow> request_loop env msg 0 node w)"

section \<open>What a call can return\<close>

text \<open>
  An answer that is passed on has the status \<open>OK\<close>; everything else ends as \<open>unreachable\<close>.
\<close>

lemma attempt_found:
  assumes "attempt_node env msg i w = (w', Found j)"
  shows "json_member j ''status'' = Inr (JString ''OK'')"
  using assms
  by (auto simp: attempt_node_def read_answer_def map_prod_def random_node_def
      split: prod.splits option.splits sum.splits if_splits)

lemma request_loop_result:
  assumes ret: "request_loop env msg k i w = Some (w', Returned j)"
  shows "j = unreachable \<or> json_member j ''status'' = Inr (JString ''OK'')"
proof -
  have "case r of (w', Returned j) \<Rightarrow>
      j = unreachable \<or> json_member j ''status'' = Inr (JString ''OK'')
    | _ \<Rightarrow> True" if "request_loop env msg k i w = Some r" for r
  proof (rule request_loop.raw_induct [where P = "\<lambda>env msg k i w r. case r of (w', Returned j) \<Rightarrow>
      j = unreachable \<or> json_member j ''status'' = Inr (JString ''OK'') | _ \<Rightarrow> True", OF _ that])
  qed (auto split: if_splits prod.splits attempt.splits dest: attempt_found)
  from this [OF ret] show ?thesis by simp
qed

lemma sendClientRequest_result:
  assumes "sendClientRequest env msg w = Some (w', Returned j)"
  shows "j = unreachable \<or> json_member j ''status'' = Inr (JString ''OK'')"
  using assms by (auto simp: sendClientRequest_def split: prod.splits dest: request_loop_result)

section \<open>When a call returns\<close>

text \<open>
  Redirects that lead somewhere: a rank of the node and the world that every redirect lowers.
\<close>

definition redirects_settle :: "'w cli_env \<Rightarrow> json \<Rightarrow> (int \<Rightarrow> 'w \<Rightarrow> nat) \<Rightarrow> bool" where
  "redirects_settle env msg rank \<longleftrightarrow>
     (\<forall>i w w' k. attempt_node env msg i w = (w', Redirected k) \<longrightarrow> rank k w' < rank i w)"

lemma request_loop_returns:
  assumes settle: "redirects_settle env msg rank"
  shows "\<exists>r. request_loop env msg k i w = Some r"
proof (induction "length raft_nodes - k" arbitrary: k i w rule: less_induct)
  case less
  note outer = less
  show ?case
  proof (induction "rank i w" arbitrary: i w rule: less_induct)
    case less
    obtain w' a where a: "attempt_node env msg i w = (w', a)" by fastforce
    show ?case
    proof (cases a)
      case (Redirected node)
      then have "rank node w' < rank i w"
        using settle a by (simp add: redirects_settle_def)
      from less [OF this] show ?thesis
        by (subst request_loop.simps) (simp add: a Redirected)
    next
      case (Refused node)
      have "\<exists>r. request_loop env msg (k + 1) node w' = Some r" if "k < length raft_nodes"
        using outer [of "k + 1" node w'] that by simp
      then show ?thesis
        by (subst request_loop.simps) (simp add: a Refused)
    qed (subst request_loop.simps, simp add: a)
  qed
qed

text \<open>A set of nodes and worlds in which every node redirects to a node of the set.\<close>

definition redirects_within :: "'w cli_env \<Rightarrow> json \<Rightarrow> (int \<Rightarrow> 'w \<Rightarrow> bool) \<Rightarrow> bool" where
  "redirects_within env msg S \<longleftrightarrow>
     (\<forall>i w. S i w \<longrightarrow> 0 \<le> i \<and> i < int (length raft_nodes) \<and>
        (\<exists>w' k. attempt_node env msg i w = (w', Redirected k) \<and> S k w'))"

lemma request_loop_diverges:
  assumes ring: "redirects_within env msg S" and "S i w" "k < length raft_nodes"
  shows "request_loop env msg k i w = None"
proof (rule ccontr)
  assume "request_loop env msg k i w \<noteq> None"
  then obtain r where r: "request_loop env msg k i w = Some r" by blast
  have "\<not> (redirects_within env msg S \<and> S i w \<and> k < length raft_nodes)"
  proof (rule request_loop.raw_induct [where P = "\<lambda>env msg k i w r.
      \<not> (redirects_within env msg S \<and> S i w \<and> k < length raft_nodes)", OF _ r])
    fix loop :: "'a cli_env \<Rightarrow> json \<Rightarrow> nat \<Rightarrow> int \<Rightarrow> 'a \<Rightarrow> ('a \<times> request_result) option"
      and e m j n v y
    assume IH: "\<And>e m j n v y. loop e m j n v = Some y \<Longrightarrow>
        \<not> (redirects_within e m S \<and> S n v \<and> j < length raft_nodes)"
      and eq: "(if \<not> j < length raft_nodes then Some (v, Returned unreachable)
        else if n < 0 \<or> int (length raft_nodes) \<le> n then Some (v, Out_Of_Bounds)
        else case attempt_node e m n v of (w, Found x) \<Rightarrow> Some (w, Returned x)
          | (w, Redirected node) \<Rightarrow> loop e m j node w
          | (w, Refused node) \<Rightarrow> loop e m (j + 1) node w) = Some y"
    show "\<not> (redirects_within e m S \<and> S n v \<and> j < length raft_nodes)"
    proof
      assume h: "redirects_within e m S \<and> S n v \<and> j < length raft_nodes"
      then obtain w' p where p: "attempt_node e m n v = (w', Redirected p)" "S p w'"
        "0 \<le> n" "n < int (length raft_nodes)"
        unfolding redirects_within_def by blast
      then have "loop e m j p w' = Some y" using eq h by simp
      with IH h p(2) show False by blast
    qed
  qed
  then show False using assms by blast
qed

text \<open>Every node refuses, and three refusals make the fixed error.\<close>

definition refuses_all :: "'w cli_env \<Rightarrow> json \<Rightarrow> bool" where
  "refuses_all env msg \<longleftrightarrow>
     (\<forall>i w. 0 \<le> i \<and> i < int (length raft_nodes) \<longrightarrow>
        (\<exists>w' k. attempt_node env msg i w = (w', Refused k) \<and>
           0 \<le> k \<and> k < int (length raft_nodes)))"

lemma request_loop_refused:
  assumes "refuses_all env msg" "0 \<le> i" "i < int (length raft_nodes)"
  shows "\<exists>w'. request_loop env msg k i w = Some (w', Returned unreachable)"
  using assms(2,3)
proof (induction "length raft_nodes - k" arbitrary: k i w)
  case 0
  then show ?case by (subst request_loop.simps) simp
next
  case (Suc d)
  obtain w' j where a: "attempt_node env msg i w = (w', Refused j)" "0 \<le> j"
    "j < int (length raft_nodes)"
    using assms(1) Suc.prems unfolding refuses_all_def by blast
  from Suc.hyps have "d = length raft_nodes - (k + 1)" "k < length raft_nodes" by simp_all
  with Suc.hyps(1) [of "k + 1" j w'] a Suc.prems show ?case
    by (subst request_loop.simps) simp
qed

lemma random_node_range: "random_node env w = (w', i) \<Longrightarrow> 0 \<le> i \<and> i < int (length raft_nodes)"
  by (auto simp: random_node_def raft_nodes_def split: prod.splits)

lemma sendClientRequest_refused:
  assumes "refuses_all env msg"
  shows "\<exists>w'. sendClientRequest env msg w = Some (w', Returned unreachable)"
proof -
  obtain w1 i where r: "random_node env w = (w1, i)" by fastforce
  show ?thesis
    using request_loop_refused [OF assms] random_node_range [OF r]
    by (simp add: sendClientRequest_def r)
qed

end
