(* ===== verification/Screens.thy ===== *)
theory Screens
  imports Json Command_Line Metrics_Model
begin

text \<open>
  The texts \<open>handle_client\<close> sends: the help, and the screens it fills with members of a node's
  reply.  The sources are UTF-8, so a character of the frames is three bytes.  A screen is a list
  of fields; rendering one reads its members in order and throws at the first that is not there.
\<close>

section \<open>Characters and frames\<close>

text \<open>The UTF-8 encoding of a code point between \<open>0x800\<close> and \<open>0xFFFF\<close>.\<close>

definition utf8 :: "nat \<Rightarrow> string" where
  "utf8 c = [char_of (224 + c div 4096), char_of (128 + c div 64 mod 64), char_of (128 + c mod 64)]"

definition bar :: string where "bar = utf8 0x2551"
definition light_bar :: string where "light_bar = utf8 0x2502"
definition tick :: string where "tick = utf8 0x2713"
definition cross :: string where "cross = utf8 0x2717"
definition arrow :: string where "arrow = utf8 0x2192"
definition warning :: string where "warning = utf8 0x26A0"
definition bullet :: string where "bullet = utf8 0x2022"
definition flash :: string where "flash = utf8 0x26A1"

definition frame :: "nat \<Rightarrow> nat \<Rightarrow> nat \<Rightarrow> nat \<Rightarrow> string" where
  "frame left dash right n = utf8 left @ concat (replicate n (utf8 dash)) @ utf8 right @ [newline]"

definition top :: "nat \<Rightarrow> string" where "top = frame 0x2554 0x2550 0x2557"
definition mid :: "nat \<Rightarrow> string" where "mid = frame 0x2560 0x2550 0x2563"
definition bottom :: "nat \<Rightarrow> string" where "bottom = frame 0x255A 0x2550 0x255D"
definition light_top :: "nat \<Rightarrow> string" where "light_top = frame 0x250C 0x2500 0x2510"
definition light_bottom :: "nat \<Rightarrow> string" where "light_bottom = frame 0x2514 0x2500 0x2518"

definition row :: "string \<Rightarrow> string" where "row s = bar @ s @ [newline]"
definition boxed :: "string \<Rightarrow> string" where "boxed s = bar @ s @ bar @ [newline]"

text \<open>\<open>\033[3J\033[H\033[2J\<close>\<close>

definition clear_screen :: string where
  "clear_screen =
     (let esc = char_of (27::nat) in esc # ''[3J'' @ esc # ''[H'' @ esc # ''[2J'')"

section \<open>Fields\<close>

datatype field =
    Text string
  | Int_At "string list"           \<comment> \<open>\<open>std::to_string(j[...].get<int>())\<close>\<close>
  | Long_At "string list"          \<comment> \<open>\<open>get<long long>()\<close>\<close>
  | Str_At "string list"           \<comment> \<open>\<open>get<std::string>()\<close>\<close>
  | Prefix_At nat "string list"    \<comment> \<open>\<open>get<std::string>().substr(0, n)\<close>\<close>

fun json_path :: "json \<Rightarrow> string list \<Rightarrow> cpp_exn + json" where
  "json_path j [] = Inr j"
| "json_path j (k # ks) = and_then (json_member j k) (\<lambda>v. json_path v ks)"

fun get_long :: "json \<Rightarrow> cpp_exn + int" where
  "get_long (JInt i) = Inr ((i + 2 ^ 63) mod 2 ^ 64 - 2 ^ 63)"
| "get_long (JBool b) = Inr (if b then 1 else 0)"
| "get_long _ = Inl Json_Error"

fun render_field :: "json \<Rightarrow> field \<Rightarrow> cpp_exn + string" where
  "render_field j (Text s) = Inr s"
| "render_field j (Int_At ks) =
     and_then (json_path j ks) (\<lambda>v. and_then (get_int v) (\<lambda>i. Inr (to_string i)))"
| "render_field j (Long_At ks) =
     and_then (json_path j ks) (\<lambda>v. and_then (get_long v) (\<lambda>i. Inr (to_string i)))"
| "render_field j (Str_At ks) = and_then (json_path j ks) get_string"
| "render_field j (Prefix_At n ks) =
     and_then (json_path j ks) (\<lambda>v. and_then (get_string v) (\<lambda>s. Inr (take n s)))"

fun render :: "json \<Rightarrow> field list \<Rightarrow> cpp_exn + string" where
  "render j [] = Inr []"
| "render j (f # fs) =
     and_then (render_field j f) (\<lambda>s. and_then (render j fs) (\<lambda>t. Inr (s @ t)))"

text \<open>A row that starts with the frame and ends with the line.\<close>

definition cells :: "field list \<Rightarrow> field list" where
  "cells fs = Text bar # fs @ [Text [newline]]"

section \<open>The screens\<close>

definition status_screen :: "field list" where
  "status_screen = concat
     [[Text (top 54)],
      [Text (boxed ''              CLUSTER STATUS                          '')],
      [Text (mid 54)],
      cells [Text '' Node ID:         '', Int_At [''node_id'']],
      cells [Text '' Term:            '', Int_At [''term'']],
      cells [Text '' Role:            '', Str_At [''role'']],
      cells [Text '' Leader ID:       '', Int_At [''leader_id'']],
      cells [Text '' Commit Index:    '', Int_At [''commit_index'']],
      cells [Text '' Last Applied:    '', Int_At [''last_applied'']],
      cells [Text '' Log Size:        '', Int_At [''log_size'']],
      [Text (bottom 54)]]"

definition metrics_screen :: "field list" where
  "metrics_screen = concat
     [[Text (top 54)],
      [Text (boxed ''              RAFT NODE METRICS                       '')],
      [Text (mid 54)],
      [Text (boxed '' RAFT STATE                                           '')],
      cells [Text ''   Term:            '', Int_At [''raft_state'', ''term'']],
      cells [Text ''   Role:            '', Str_At [''raft_state'', ''role'']],
      cells [Text ''   Leader ID:       '', Int_At [''raft_state'', ''leader_id'']],
      cells [Text ''   Voted For:       '', Int_At [''raft_state'', ''voted_for'']],
      [Text (mid 54)],
      [Text (boxed '' LOG STATE                                            '')],
      cells [Text ''   Log Size:        '', Int_At [''log_state'', ''log_size'']],
      cells [Text ''   Commit Index:    '', Int_At [''log_state'', ''commit_index'']],
      cells [Text ''   Last Applied:    '', Int_At [''log_state'', ''last_applied'']],
      [Text (mid 54)],
      [Text (boxed '' SNAPSHOTS                                            '')],
      cells [Text ''   Count:           '', Int_At [''snapshots'', ''count'']],
      cells [Text ''   Last Index:      '', Int_At [''snapshots'', ''last_index'']],
      cells [Text ''   Last Term:       '', Int_At [''snapshots'', ''last_term'']],
      [Text (mid 54)],
      [Text (boxed '' ELECTIONS                                            '')],
      cells [Text ''   Elections:       '', Int_At [''elections'', ''election_count'']],
      cells [Text ''   Leader Changes:  '', Int_At [''elections'', ''leader_changes'']],
      cells [Text ''   Votes Received:  '', Int_At [''elections'', ''votes_received'']],
      [Text (mid 54)],
      [Text (boxed '' RPC STATISTICS                                       '')],
      cells [Text ''   AppendEntries:   '', Int_At [''rpcs'', ''append_entries_sent''],
         Text '' sent / '', Int_At [''rpcs'', ''append_entries_received''], Text '' recv''],
      cells [Text ''   RequestVote:     '', Int_At [''rpcs'', ''request_votes_sent''],
         Text '' sent / '', Int_At [''rpcs'', ''request_votes_received''], Text '' recv''],
      cells [Text ''   InstallSnapshot: '', Int_At [''rpcs'', ''install_snapshots_sent''],
         Text '' sent / '', Int_At [''rpcs'', ''install_snapshots_received''], Text '' recv''],
      [Text (mid 54)],
      [Text (boxed '' CLIENT REQUESTS                                      '')],
      cells [Text ''   Received:        '', Int_At [''client_requests'', ''received'']],
      cells [Text ''   Succeeded:       '', Int_At [''client_requests'', ''succeeded'']],
      cells [Text ''   Failed:          '', Int_At [''client_requests'', ''failed'']],
      cells [Text ''   Redirected:      '', Int_At [''client_requests'', ''redirected'']],
      [Text (mid 54)],
      [Text (boxed '' PERFORMANCE                                          '')],
      cells [Text ''   Avg Response:    '', Long_At [''performance'', ''avg_response_time_ms''],
         Text '' ms''],
      cells [Text ''   Uptime:          '', Long_At [''uptime_seconds''], Text '' seconds''],
      [Text (bottom 54)]]"

definition logsize_screen :: "field list" where
  "logsize_screen = concat
     [[Text (top 54)],
      [Text (boxed ''              LOG INFORMATION                         '')],
      [Text (mid 54)],
      cells [Text '' Total Log Size:      '', Int_At [''total_log_size'']],
      cells [Text '' Physical Log Size:   '', Int_At [''physical_log_size'']],
      cells [Text '' Snapshot Index:      '', Int_At [''snapshot_index'']],
      cells [Text '' Commit Index:        '', Int_At [''commit_index'']],
      cells [Text '' Last Applied:        '', Int_At [''last_applied'']],
      [Text (bottom 54)]]"

definition maxRefreshes :: int where
  "maxRefreshes = 60"

definition watch_screen :: "int \<Rightarrow> int \<Rightarrow> field list" where
  "watch_screen refreshCount interval = concat
     [[Text clear_screen],
      [Text (top 54)],
      [Text (boxed ''           RAFT NODE METRICS (LIVE WATCH)             '')],
      [Text (mid 54)],
      [Text (boxed '' RAFT STATE                                           '')],
      cells [Text ''   Term:            '', Int_At [''raft_state'', ''term'']],
      cells [Text ''   Role:            '', Str_At [''raft_state'', ''role'']],
      cells [Text ''   Leader ID:       '', Int_At [''raft_state'', ''leader_id'']],
      [Text (mid 54)],
      [Text (boxed '' LOG STATE                                            '')],
      cells [Text ''   Log Size:        '', Int_At [''log_state'', ''log_size'']],
      cells [Text ''   Commit Index:    '', Int_At [''log_state'', ''commit_index'']],
      cells [Text ''   Last Applied:    '', Int_At [''log_state'', ''last_applied'']],
      [Text (mid 54)],
      [Text (boxed '' SNAPSHOTS                                            '')],
      cells [Text ''   Count:           '', Int_At [''snapshots'', ''count'']],
      cells [Text ''   Last Index:      '', Int_At [''snapshots'', ''last_index'']],
      [Text (mid 54)],
      [Text (boxed '' ELECTIONS                                            '')],
      cells [Text ''   Count:           '', Int_At [''elections'', ''election_count'']],
      cells [Text ''   Leader Changes:  '', Int_At [''elections'', ''leader_changes'']],
      [Text (mid 54)],
      [Text (boxed '' RPC STATISTICS                                       '')],
      cells [Text ''   AppendEntries:   '', Int_At [''rpcs'', ''append_entries_sent''],
         Text '' sent / '', Int_At [''rpcs'', ''append_entries_received''], Text '' recv''],
      cells [Text ''   RequestVote:     '', Int_At [''rpcs'', ''request_votes_sent''],
         Text '' sent / '', Int_At [''rpcs'', ''request_votes_received''], Text '' recv''],
      [Text (mid 54)],
      [Text (boxed '' CLIENT REQUESTS                                      '')],
      cells [Text ''   Total:           '', Int_At [''client_requests'', ''received'']],
      cells [Text ''   Succeeded:       '', Int_At [''client_requests'', ''succeeded'']],
      cells [Text ''   Failed:          '', Int_At [''client_requests'', ''failed'']],
      [Text (mid 54)],
      [Text (boxed '' PERFORMANCE                                          '')],
      cells [Text ''   Uptime:          '', Long_At [''uptime_seconds''], Text '' seconds''],
      [Text (bottom 54)],
      [Text [newline]],
      [Text (light_top 52)],
      [Text (light_bar @ '' Refresh: ''), Text (to_string refreshCount), Text ''/'',
         Text (to_string maxRefreshes), Text '' | Interval: '', Text (to_string interval),
         Text ''s | Next in '', Text (to_string interval), Text ''s'', Text [newline]],
      [Text (light_bar @ '' Type STOP, EXIT, or Q to quit watch mode           '' @ light_bar),
         Text [newline]],
      [Text (light_bottom 52)]]"

definition logs_head :: "field list" where
  "logs_head = concat
     [[Text (top 54)],
      [Text (boxed ''         RECENT LOG ENTRIES                           '')],
      [Text (mid 54)]]"

definition log_row :: "field list" where
  "log_row = concat
     [cells [Text '' Index: '', Int_At [''index''], Text '' | Term: '', Int_At [''term'']],
      cells [Text ''   Command: '', Prefix_At 40 [''command'']]]"

definition logs_foot :: "field list" where
  "logs_foot = concat
     [[Text (mid 54)],
      cells [Text '' Total: '', Int_At [''total_count''], Text '' | Showing: '',
         Int_At [''returned_count'']],
      [Text (bottom 54)]]"

definition cluster_head :: "field list" where
  "cluster_head = concat
     [[Text (top 54)],
      [Text (boxed ''         CLUSTER INFORMATION                          '')],
      [Text (mid 54)],
      cells [Text '' Cluster Size: '', Int_At [''cluster_size'']],
      cells [Text '' Current Leader: Node '', Int_At [''leader_id'']],
      [Text (mid 54)]]"

definition cluster_row :: "field list" where
  "cluster_row = concat
     [cells [Text '' Node '', Int_At [''node_id''], Text '': Port '', Int_At [''port''],
         Text '' | NextIdx='', Int_At [''next_index''], Text '' | MatchIdx='',
         Int_At [''match_index'']]]"

definition cluster_foot :: "field list" where
  "cluster_foot = [Text (bottom 54)]"

text \<open>The rows of the two lists: one per entry of the log, one per peer.\<close>

fun render_all :: "field list \<Rightarrow> json list \<Rightarrow> cpp_exn + string" where
  "render_all fs [] = Inr []"
| "render_all fs (j # js) =
     and_then (render j fs) (\<lambda>s. and_then (render_all fs js) (\<lambda>t. Inr (s @ t)))"

definition list_screen ::
  "field list \<Rightarrow> string \<Rightarrow> field list \<Rightarrow> field list \<Rightarrow> json \<Rightarrow> cpp_exn + string" where
  "list_screen head key rows foot j =
     and_then (render j head) (\<lambda>h.
     and_then (json_member j key) (\<lambda>xs.
     and_then (render_all rows (json_elems xs)) (\<lambda>r.
     and_then (render j foot) (\<lambda>f. Inr (h @ r @ f)))))"

section \<open>Fixed texts\<close>

definition welcome_text :: string where
  "welcome_text =
     top 52 @ boxed ''   Connected to RAFT Key-Value Store               '' @
     boxed (''   Type '' @ [apostrophe] @ ''HELP'' @ [apostrophe] @
            '' for available commands              '') @
     bottom 52 @ [newline]"

definition watch_banner :: "int \<Rightarrow> string" where
  "watch_banner interval =
     top 52 @ boxed ''          WATCH MODE ACTIVATED                      '' @ mid 52 @
     row ('' Refreshing every '' @ to_string interval @ '' seconds'') @
     row '' Max 60 refreshes (auto-stop)'' @ row [] @ row '' To stop watch mode, type:'' @
     row (''   '' @ bullet @ '' STOP'') @ row (''   '' @ bullet @ '' EXIT'') @
     row (''   '' @ bullet @ '' Q'') @ bottom 52 @ [newline]"

definition watch_farewell :: "bool \<Rightarrow> int \<Rightarrow> string" where
  "watch_farewell stopWatch refreshCount =
     [newline] @ top 52 @
     boxed (if stopWatch \<and> refreshCount < maxRefreshes
            then '' '' @ flash @ '' Watch mode stopped by user                      ''
            else '' '' @ flash @ '' Watch mode auto-stopped (max refreshes)         '') @
     row ('' Total refreshes: '' @ to_string refreshCount) @ bottom 52 @ [newline]"

definition cleared :: string where
  "cleared =
     clear_screen @ top 52 @ boxed ''   RAFT Key-Value Store - Screen Cleared            '' @
     bottom 52 @ [newline]"

definition goodbye :: "int \<Rightarrow> string" where
  "goodbye commandCount =
     top 52 @ boxed ''   Goodbye! Connection closing...                   '' @
     row (''   Session: '' @ to_string commandCount @ '' commands executed'') @ bottom 52"

definition getHelpText :: string where
  "getHelpText =
     top 54 @
     boxed ''         RAFT KEY-VALUE STORE - COMMANDS              '' @
     mid 54 @
     boxed '' BASIC COMMANDS                                       '' @
     boxed ''   PUT <key> <value>     - Add/update key-value       '' @
     boxed ''   GET <key>             - Retrieve value             '' @
     boxed ''   DELETE <key>          - Delete key                 '' @
     boxed ''                                                      '' @
     boxed '' ADVANCED FORMATS                                     '' @
     boxed ''   PUT --key <k> --value <v>  - Named parameters      '' @
     boxed (''   PUT <key> '' @ [quotation] @ ''value'' @ [quotation] @ ''     - Quoted values (spaces)     '') @
     boxed ''                                                      '' @
     boxed '' ADMIN COMMANDS                                       '' @
     boxed ''   STATUS                - Show cluster status        '' @
     boxed ''   METRICS               - Show detailed metrics      '' @
     boxed ''   LOGSIZE               - Show log information       '' @
     boxed ''   SNAPSHOT              - Trigger manual snapshot    '' @
     boxed ''   LOGS [count]          - Show recent log entries    '' @
     boxed ''   CLUSTER               - Show cluster information   '' @
     boxed ''   WATCH [seconds]       - Auto-refresh metrics       '' @
     boxed ''                                                      '' @
     boxed '' UTILITY COMMANDS                                     '' @
     boxed ''   HELP or ?             - Show this help             '' @
     boxed ''   HISTORY               - Show command history       '' @
     boxed ''   !!                    - Repeat last command        '' @
     boxed ''   !<n>                  - Repeat nth command         '' @
     boxed ''   STATS                 - Connection statistics      '' @
     boxed ''   CLEAR                 - Clear screen               '' @
     boxed ''   EXIT                  - Close connection           '' @
     boxed ''                                                      '' @
     boxed '' COMMAND ALIASES                                      '' @
     boxed ''   GET: g, fetch, read   PUT: p, set, add             '' @
     boxed ''   DELETE: d, del, rm    STATUS: s                    '' @
     boxed ''   METRICS: m            HELP: h, ?                   '' @
     boxed ''                                                      '' @
     boxed '' EXAMPLES                                             '' @
     boxed (''   put name '' @ [quotation] @ ''John Doe'' @ [quotation] @ ''   - Store value with spaces    '') @
     boxed ''   g name                - Get using alias            '' @
     boxed ''   status                - Check cluster state        '' @
     boxed ''   watch 5               - Auto-refresh every 5s      '' @
     boxed ''   logs 20               - View last 20 log entries   '' @
     bottom 54"

section \<open>\<open>Metrics::toString\<close>\<close>

text \<open>
  The report of \<open>metrics.h\<close>, which nothing calls; \<open>std::setw(w) << std::left\<close> pads on the right, and
  the alignment stays set for the rows that only give a width.
\<close>

definition pad_right :: "nat \<Rightarrow> string \<Rightarrow> string" where
  "pad_right w s = s @ replicate (w - length s) (CHR '' '')"

definition value_row :: "string \<Rightarrow> string \<Rightarrow> string" where
  "value_row label v = boxed (label @ pad_right 30 v)"

definition rpc_row :: "string \<Rightarrow> int \<Rightarrow> int \<Rightarrow> string" where
  "rpc_row label s r =
     boxed (label @ pad_right 10 (to_string s) @ '' sent / '' @ pad_right 10 (to_string r) @ '' recv   '')"

definition Metrics_toString :: "int \<Rightarrow> Metrics \<Rightarrow> string" where
  "Metrics_toString now m = concat
     [top 54,
      boxed ''              RAFT NODE METRICS                       '',
      mid 54,
      boxed '' RAFT STATE                                           '',
      value_row ''   Term:            '' (to_string (m_currentTerm m)),
      value_row ''   Role:            '' (m_role m),
      value_row ''   Leader ID:       '' (to_string (m_leaderId m)),
      value_row ''   Voted For:       '' (to_string (m_votedFor m)),
      mid 54,
      boxed '' LOG STATE                                            '',
      value_row ''   Log Size:        '' (to_string (m_logSize m)),
      value_row ''   Commit Index:    '' (to_string (m_commitIndex m)),
      value_row ''   Last Applied:    '' (to_string (m_lastApplied m)),
      mid 54,
      boxed '' SNAPSHOTS                                            '',
      value_row ''   Count:           '' (to_string (snapshotCount m)),
      value_row ''   Last Index:      '' (to_string (lastSnapshotIndex m)),
      value_row ''   Last Term:       '' (to_string (lastSnapshotTerm m)),
      mid 54,
      boxed '' ELECTIONS                                            '',
      value_row ''   Elections:       '' (to_string (electionCount m)),
      value_row ''   Leader Changes:  '' (to_string (leaderChanges m)),
      value_row ''   Votes Received:  '' (to_string (votesReceived m)),
      mid 54,
      boxed '' RPC STATISTICS                                       '',
      rpc_row ''   AppendEntries:   '' (appendEntriesSent m) (appendEntriesReceived m),
      rpc_row ''   RequestVote:     '' (requestVotesSent m) (requestVotesReceived m),
      rpc_row ''   InstallSnapshot: '' (installSnapshotsSent m) (installSnapshotsReceived m),
      mid 54,
      boxed '' CLIENT REQUESTS                                      '',
      value_row ''   Received:        '' (to_string (clientRequestsReceived m)),
      value_row ''   Succeeded:       '' (to_string (clientRequestsSucceeded m)),
      value_row ''   Failed:          '' (to_string (clientRequestsFailed m)),
      value_row ''   Redirected:      '' (to_string (clientRequestsRedirected m)),
      mid 54,
      boxed '' PERFORMANCE                                          '',
      value_row ''   Avg Response:    '' (to_string (avgResponseTimeMs m) @ '' ms''),
      value_row ''   Uptime:          '' (to_string (getUptimeSeconds now m) @ '' seconds''),
      bottom 54]"

end
