(* ===== verification/Transfer_Facts.thy ===== *)
theory Transfer_Facts
  imports Snapshot_Transfer
begin

text \<open>
  The chunk protocol end to end: the leader's loop against the follower's handler rebuilds the
  stream byte for byte and installs the leader's snapshot.
\<close>

lemma decode_nonempty: "(if d \<noteq> [] then base64Decode d else []) = base64Decode d"
  by (simp add: base64Decode_def)

lemma write_next_chunk:
  assumes "k \<le> length bs" "alloc (length (take (k + len) bs))"
  shows "write_chunk alloc (int k) (take len (drop k bs)) (take k bs) =
    Written (take (k + len) bs)"
proof -
  let ?c = "take len (drop k bs)"
  have sz: "nat (int k + int (length ?c)) = length (take (k + len) bs)"
    using assms(1) by simp
  have new: "k + length ?c = length (take (k + len) bs)" using assms(1) by simp
  have "take k bs @ ?c = take (k + len) bs" by (simp add: take_add)
  moreover have "\<not> int k + int (length ?c) < 0" by simp
  ultimately show ?thesis
    using assms sz new
    by (auto simp: write_chunk_def Let_def)
qed

section \<open>One chunk\<close>

text \<open>The follower between chunks: it holds the first \<open>k\<close> chunks of the stream.\<close>

definition receiving :: "int \<Rightarrow> bytes \<Rightarrow> nat \<Rightarrow> RaftNode \<Rightarrow> bool" where
  "receiving trm bs k n \<longleftrightarrow>
     \<not> mtxHeld n \<and> currentTerm n \<le> trm \<and> (k = 0 \<or> snapshotBuffer n = take (k * 512) bs)"

text \<open>The follower after the last chunk.\<close>

definition installed :: "Snapshot \<Rightarrow> RaftNode \<times> KVStore \<Rightarrow> bool" where
  "installed snap p \<longleftrightarrow>
     (case p of (n, s) \<Rightarrow>
        latestSnapshot n = Some snap \<and> snapshotFile n = Contents snap \<and> log n = [] \<and>
        lastApplied n = lastIncludedIndex snap \<and> commitIndex n = lastIncludedIndex snap \<and>
        snapshotBuffer n = [] \<and> dumpToMap s = kvState snap \<and> \<not> mtxHeld n)"

lemma becomeFollower_receiving:
  assumes "becomeFollower t n = Some n'" "currentTerm n < t"
  shows "snapshotBuffer n' = snapshotBuffer n" "currentTerm n' \<le> t" "mtxHeld n' = mtxHeld n"
  using assms by (auto simp: becomeFollower_def persistMetadata_def split: if_splits)

lemma accept_chunk_step:
  assumes "receiving trm bs k n" "k * 512 \<le> length bs"
    and "\<And>i. i \<le> length bs \<Longrightarrow> alloc i"
    and "is_offset r = int (k * 512)" "is_data r = base64Encode (take len (drop (k * 512) bs))"
    and "len = min (k * 512 + 512) (length bs) - k * 512" "len \<noteq> 0"
    and "is_done r \<longleftrightarrow> min (k * 512 + 512) (length bs) = length bs"
    and "deserializeSnapshot alloc junk bs = Inr snap"
    and "accept_chunk alloc junk r n s = (n', s', reply)"
  shows "\<exists>rep. reply = IS_Reply rep \<and> isr_success rep"
    and "if is_done r then installed snap (n', s') else receiving trm bs (k + 1) n'"
proof -
  let ?n = "if is_offset r = 0 then n\<lparr>snapshotBuffer := []\<rparr> else n"
  let ?buf = "take (k * 512 + len) bs"
  have old: "snapshotBuffer ?n = take (k * 512) bs"
    using assms(1,4) by (auto simp: receiving_def)
  have w: "write_chunk alloc (is_offset r)
      (if is_data r \<noteq> [] then base64Decode (is_data r) else []) (snapshotBuffer ?n) = Written ?buf"
  proof -
    have "(if is_data r \<noteq> [] then base64Decode (is_data r) else []) = take len (drop (k * 512) bs)"
      unfolding decode_nonempty by (simp only: assms(5) decode_encode)
    moreover have "write_chunk alloc (int (k * 512)) (take len (drop (k * 512) bs))
        (take (k * 512) bs) = Written ?buf"
      by (rule write_next_chunk) (use assms(2,3) in auto)
    ultimately show ?thesis unfolding old by (simp only: assms(4))
  qed
  have n: "\<not> mtxHeld ?n" "currentTerm ?n \<le> trm" using assms(1) by (auto simp: receiving_def)
  have "(\<exists>rep. reply = IS_Reply rep \<and> isr_success rep) \<and>
    (if is_done r then installed snap (n', s') else receiving trm bs (k + 1) n')"
  proof (cases "is_done r")
    case False
    then have "k * 512 + len = k * 512 + 512" using assms(6,7,8) by (cases "k * 512 + 512 \<le> length bs") auto
    then have "?buf = take ((k + 1) * 512) bs" by (simp add: algebra_simps)
    then show ?thesis
      using assms(10) w n False
      by (auto simp: accept_chunk_def Let_def receiving_def split: if_splits)
  next
    case True
    then have "?buf = bs" using assms(2,6,8) by simp
    then show ?thesis
      using assms(9,10) w n True
      by (auto simp: accept_chunk_def Let_def install_snapshot_def installed_def saveSnapshot_def
          persistMetadata_def loadFromMap_def dumpToMap_def split: if_splits)
  qed
  then show "\<exists>rep. reply = IS_Reply rep \<and> isr_success rep"
    and "if is_done r then installed snap (n', s') else receiving trm bs (k + 1) n'"
    by blast+
qed

lemma follower_end_step:
  assumes "receiving trm bs k n" "k * 512 \<le> length bs"
    and "\<And>i. i \<le> length bs \<Longrightarrow> alloc i"
    and "is_term r = trm"
    and "is_offset r = int (k * 512)" "is_data r = base64Encode (take len (drop (k * 512) bs))"
    and "len = min (k * 512 + 512) (length bs) - k * 512" "len \<noteq> 0"
    and "is_done r \<longleftrightarrow> min (k * 512 + 512) (length bs) = length bs"
    and "deserializeSnapshot alloc junk bs = Inr snap"
  obtains n' s' where "follower_end alloc junk (n, s) r = ((n', s'), Reply True)"
    and "if is_done r then installed snap (n', s') else receiving trm bs (k + 1) n'"
proof -
  let ?m = "n\<lparr>metrics := (metrics n)\<lparr>installSnapshotsReceived :=
    installSnapshotsReceived (metrics n) + 1\<rparr>\<rparr>"
  have m: "receiving trm bs k ?m" using assms(1) by (simp add: receiving_def)
  obtain b where b: "(if is_term r > currentTerm ?m then becomeFollower (is_term r) ?m
      else Some ?m) = Some b" "receiving trm bs k b"
  proof (cases "is_term r > currentTerm ?m")
    case True
    have "\<not> mtxHeld ?m" using m by (simp add: receiving_def)
    then obtain b where bf: "becomeFollower (is_term r) ?m = Some b"
      by (cases "becomeFollower (is_term r) ?m") (auto simp: becomeFollower_def split: if_splits)
    have "receiving trm bs k b"
      using becomeFollower_receiving [OF bf True] m assms(4) by (simp add: receiving_def)
    with bf True that show ?thesis by simp
  next
    case False
    with m that show ?thesis by simp
  qed
  obtain n' s' reply where a: "accept_chunk alloc junk r b s = (n', s', reply)"
    by (metis prod_cases3)
  note step = accept_chunk_step [OF b(2) assms(2) assms(3) assms(5-10) a]
  have "\<not> is_term r < currentTerm ?m" using m assms(4) by (simp add: receiving_def)
  then have "handle_InstallSnapshot alloc junk r (n, s) = ((n', s'), reply)"
    unfolding handle_InstallSnapshot_def Let_def prod.case b(1) by (simp add: a)
  then have "follower_end alloc junk (n, s) r = ((n', s'), Reply True)"
    using step(1) by (auto simp: follower_end_def)
  with step(2) that show ?thesis by blast
qed

section \<open>The whole transfer\<close>

lemma chunk_pending: "k < (L + 511) div 512 \<longleftrightarrow> k * 512 < (L :: nat)"
  using less_eq_div_iff_mult_less_eq [of 512 "Suc k" "L + 511"] by (auto simp: Suc_le_eq)

lemma chunk_short:
  "length (is_data (chunk_message leader snap bs 512 k)) \<le> 684"
proof -
  let ?c = "take (min (k * 512 + 512) (length bs) - k * 512) (drop (k * 512) bs)"
  have "length ?c \<le> 512" by auto
  then have "(length ?c + 2) div 3 \<le> (512 + 2) div 3" by (intro div_le_mono) simp
  then show ?thesis by (simp only: chunk_message_def Let_def length_base64Encode
        InstallSnapshotRPC.simps) simp
qed

lemma send_chunks_delivers:
  assumes bs: "\<And>i. i \<le> length bs \<Longrightarrow> alloc i" "deserializeSnapshot alloc junk bs = Inr snap"
    and fits: "\<And>m. length (is_data m) \<le> 684 \<Longrightarrow> dump_len m \<le> 2040"
  shows "\<lbrakk>receiving (currentTerm leader) bs k n; k * 512 < length bs\<rbrakk> \<Longrightarrow>
    \<exists>leader' q. send_chunks dump_len (follower_end alloc junk) snap bs i 512 k leader (n, s) =
        (leader', q, Transferred) \<and> installed snap q \<and>
      nextIndex leader' = (nextIndex leader)[i := lastIncludedIndex snap + 1] \<and>
      matchIndex leader' = (matchIndex leader)[i := lastIncludedIndex snap]"
proof (induction "length bs - k * 512" arbitrary: k leader n s rule: less_induct)
  case less
  let ?m = "chunk_message leader snap bs 512 k"
  let ?sent = "leader\<lparr>metrics := (metrics leader)\<lparr>installSnapshotsSent :=
    installSnapshotsSent (metrics leader) + 1\<rparr>\<rparr>"
  have done_iff: "is_done ?m \<longleftrightarrow> min (k * 512 + 512) (length bs) = length bs"
    by (simp add: chunk_message_def Let_def)
  obtain n' s' where f: "follower_end alloc junk (n, s) ?m = ((n', s'), Reply True)"
    and res: "if is_done ?m then installed snap (n', s')
      else receiving (currentTerm leader) bs (k + 1) n'"
    by (rule follower_end_step [OF less.prems(1) _ bs(1) _ _ _ refl _ done_iff bs(2)])
      (use less.prems(2) in \<open>auto simp: chunk_message_def Let_def\<close>)
  have pending: "k < (length bs + 512 - 1) div 512"
    using chunk_pending [of k "length bs"] less.prems(2) by simp
  have small: "\<not> dump_len ?m > 2040" using fits [OF chunk_short] by (simp add: not_less)
  show ?case
  proof (cases "is_done ?m")
    case True
    then have "\<not> k + 1 < (length bs + 512 - 1) div 512"
      using chunk_pending [of "k + 1" "length bs"] done_iff by simp
    then show ?thesis
      using True res pending small
      by (subst send_chunks.simps, simp add: Let_def f, subst send_chunks.simps) simp
  next
    case False
    then have more: "(k + 1) * 512 < length bs" using done_iff by (simp add: min_def split: if_splits)
    have "receiving (currentTerm ?sent) bs (k + 1) n'" using False res by simp
    moreover have "length bs - (k + 1) * 512 < length bs - k * 512" using less.prems(2) by simp
    ultimately have "\<exists>leader' q. send_chunks dump_len (follower_end alloc junk) snap bs i 512 (k + 1)
        ?sent (n', s') = (leader', q, Transferred) \<and> installed snap q \<and>
      nextIndex leader' = (nextIndex ?sent)[i := lastIncludedIndex snap + 1] \<and>
      matchIndex leader' = (matchIndex ?sent)[i := lastIncludedIndex snap]"
      using less.hyps [of "k + 1" ?sent n' s'] more by blast
    then
    obtain leader' q where "send_chunks dump_len (follower_end alloc junk) snap bs i 512 (k + 1)
        ?sent (n', s') = (leader', q, Transferred)" "installed snap q"
      "nextIndex leader' = (nextIndex leader)[i := lastIncludedIndex snap + 1]"
      "matchIndex leader' = (matchIndex leader)[i := lastIncludedIndex snap]"
      by auto
    then show ?thesis
      using False pending small by (subst send_chunks.simps) (simp add: Let_def f)
  qed
qed

lemma stream_not_empty: "0 < length (serializeSnapshot items snap)"
  by (simp add: serializeSnapshot_def int32_bytes_def)

lemma send_snapshot_delivers:
  assumes "enumerates items (kvState snap)" "list_all (pair_fits alloc) items"
    and "length items < 2 ^ 31" "int32_range (lastIncludedIndex snap)"
    and "int32_range (lastIncludedTerm snap)" "length (fst junk) = 4" "length (snd junk) = 4"
    and "\<And>i. i \<le> length (serializeSnapshot items snap) \<Longrightarrow> alloc i"
    and "\<And>m. length (is_data m) \<le> 684 \<Longrightarrow> dump_len m \<le> 2040"
    and "\<not> mtxHeld n" "currentTerm n \<le> currentTerm leader"
  shows "\<exists>leader' q. send_snapshot dump_len (follower_end alloc junk) snap items i leader (n, s) =
        (leader', q, Transferred) \<and> installed snap q \<and>
      nextIndex leader' = (nextIndex leader)[i := lastIncludedIndex snap + 1] \<and>
      matchIndex leader' = (matchIndex leader)[i := lastIncludedIndex snap]"
  unfolding send_snapshot_def
  by (rule send_chunks_delivers [OF assms(8) snapshot_stream_round_trip [OF assms(1-7)] assms(9)])
    (use assms(10,11) stream_not_empty in \<open>auto simp: receiving_def\<close>)

section \<open>Properties\<close>

text \<open>
  C15: Snapshot transfer end to end: over a connection that loses nothing, the leader's chunk loop
  against the follower's InstallSnapshot handler terminates successfully; the follower then has
  the leader's snapshot in memory and on disk, an empty log, both indices at the snapshot and the
  store of the snapshot; the leader's indices for that peer point behind the snapshot.
\<close>

theorem snapshot_transfer:
  assumes "enumerates items (kvState snap)" "list_all (pair_fits alloc) items"
    and "length items < 2 ^ 31" "int32_range (lastIncludedIndex snap)"
    and "int32_range (lastIncludedTerm snap)" "length (fst junk) = 4" "length (snd junk) = 4"
    and "\<And>i. i \<le> length (serializeSnapshot items snap) \<Longrightarrow> alloc i"
    and "\<And>m. length (is_data m) \<le> 684 \<Longrightarrow> dump_len m \<le> 2040"
    and "\<not> mtxHeld n" "currentTerm n \<le> currentTerm leader"
  shows "\<exists>leader' q. send_snapshot dump_len (follower_end alloc junk) snap items i leader (n, s) =
        (leader', q, Transferred) \<and> installed snap q \<and>
      nextIndex leader' = (nextIndex leader)[i := lastIncludedIndex snap + 1] \<and>
      matchIndex leader' = (matchIndex leader)[i := lastIncludedIndex snap]"
  using assms by (rule send_snapshot_delivers)

theorem snapshot_transfer_witness:
  "\<exists>leader' q. send_snapshot (\<lambda>m. 200 + length (is_data m))
        (follower_end (\<lambda>_. True) (''abcd'', ''abcd'')) demo_snapshot
        [(''a'', ''1''), (''b'', ''2'')] 0 (demo_node\<lparr>currentTerm := 4\<rparr>) (demo_node, empty_store) =
      (leader', q, Transferred) \<and> installed demo_snapshot q"
  using snapshot_transfer [OF demo_snapshot_items, of "\<lambda>_. True" "(''abcd'', ''abcd'')"
      "\<lambda>m. 200 + length (is_data m)" demo_node "demo_node\<lparr>currentTerm := 4\<rparr>" 0 empty_store]
  by (auto simp: demo_snapshot_def int32_range_def pair_fits_def string_fits_def
      demo_node_def RaftNode_new_def)

end
