(* ===== verification/Replication_Facts.thy ===== *)
theory Replication_Facts
  imports Replication
begin

text \<open>
  Facts about the whole AppendEntries handler: when it returns at all, what it leaves in the log,
  in the commit index, in the store and on disk.
\<close>

section \<open>Frames\<close>

lemma apply_loop_frame:
  "apply_loop chk n s res = (n', s', res') \<Longrightarrow> n' = n\<lparr>lastApplied := lastApplied n'\<rparr>"
proof (induction chk n s res rule: apply_loop.induct)
  case (1 chk n s res)
  let ?n = "n\<lparr>lastApplied := lastApplied n + 1\<rparr>"
  let ?p = "log_position ?n (lastApplied ?n)"
  show ?case
  proof (cases "lastApplied n < commitIndex n \<and> \<not> (chk \<and> shutdownRequested n)")
    case False
    then have "apply_loop chk n s res = (n, s, res)" by (subst apply_loop.simps) (auto simp: Let_def)
    with "1.prems" show ?thesis by simp
  next
    case True
    show ?thesis
    proof (cases "0 \<le> ?p \<and> ?p < int (length (log ?n))")
      case inside: True
      obtain t q where tq: "applyToStateMachine ?n (entry_command (log ?n ! nat ?p)) s = (t, q)"
        by fastforce
      have "apply_loop chk ?n t q = (n', s', res')"
        using "1.prems" True inside tq by (subst (asm) apply_loop.simps) (simp add: Let_def)
      from "1.IH"(1) [OF True refl refl inside tq [symmetric] this]
      show ?thesis by (rule trans) simp
    next
      case outside: False
      have "apply_loop chk ?n s res = (n', s', res')"
        using "1.prems" True outside by (subst (asm) apply_loop.simps) (auto simp: Let_def)
      from "1.IH"(2) [OF True refl refl outside this]
      show ?thesis by (rule trans) simp
    qed
  qed
qed

lemma apply_loop_fields:
  assumes "apply_loop chk n s res = (n', s', res')"
  obtains k where "n' = n\<lparr>lastApplied := k\<rparr>"
  by (rule that [OF apply_loop_frame [OF assms]])

text \<open>The commit step: the log and the vote stay, unless a snapshot is due.\<close>

lemma advance_commit_cases:
  assumes "advance_commit c n s = (n', s', x)" "int (length (log n)) < SNAPSHOT_THRESHOLD"
  obtains "c \<le> commitIndex n" "n' = n" "s' = s" "x = None"
    | k q where "c > commitIndex n"
      "apply_loop False (n\<lparr>commitIndex := min c (getLogSize n - 1)\<rparr>) s [] = (n', s', q)"
      "n' = n\<lparr>commitIndex := min c (getLogSize n - 1), lastApplied := k\<rparr>" "x = None"
proof (cases "c > commitIndex n")
  case False
  then have "n' = n" "s' = s" "x = None" using assms(1) by (simp_all add: advance_commit_def)
  with False show ?thesis by (intro that(1)) simp_all
next
  case True
  let ?n = "n\<lparr>commitIndex := min c (getLogSize n - 1)\<rparr>"
  obtain m t q where m: "apply_loop False ?n s [] = (m, t, q)" using prod_cases3 by blast
  obtain k where k: "m = ?n\<lparr>lastApplied := k\<rparr>" using apply_loop_fields [OF m] .
  have eq: "n' = m" "s' = t" "x = None"
    using assms True m k by (simp_all add: advance_commit_def)
  show ?thesis
  proof (rule that(2) [OF True])
    show "apply_loop False ?n s [] = (n', s', q)" using m eq by simp
    show "n' = n\<lparr>commitIndex := min c (getLogSize n - 1), lastApplied := k\<rparr>" using k eq by simp
  qed (rule eq(3))
qed

lemma advance_commit_small:
  assumes "advance_commit c n s = (n', s', x)" "int (length (log n)) < SNAPSHOT_THRESHOLD"
  shows "x = None" "log n' = log n" "latestSnapshot n' = latestSnapshot n"
    and "commitIndex n' = (if c > commitIndex n then min c (getLogSize n - 1) else commitIndex n)"
    and "currentTerm n' = currentTerm n" "votedFor n' = votedFor n" "state n' = state n"
    and "metadataFile n' = metadataFile n" "mtxHeld n' = mtxHeld n" "leaderId n' = leaderId n"
    and "receivingSnapshot n' = receivingSnapshot n"
  using assms by (auto elim!: advance_commit_cases)

lemma advance_commit_applies:
  assumes "advance_commit c n s = (n', s', x)" "int (length (log n)) < SNAPSHOT_THRESHOLD"
    and "\<not> shutdownRequested n" "c > commitIndex n"
  shows "s' = fst (run_commands n
      (pending_commands (n\<lparr>commitIndex := min c (getLogSize n - 1)\<rparr>)) (s, []))"
    and "lastApplied n' = max (lastApplied n) (min c (getLogSize n - 1))"
proof -
  let ?n = "n\<lparr>commitIndex := min c (getLogSize n - 1)\<rparr>"
  from assms(1,2) obtain q where "apply_loop False ?n s [] = (n', s', q)"
    using assms(4) by (auto elim!: advance_commit_cases)
  then show "s' = fst (run_commands n (pending_commands ?n) (s, []))"
    and "lastApplied n' = max (lastApplied n) (min c (getLogSize n - 1))"
    using assms(3) run_commands_cong [of ?n n] by (auto simp: apply_loop_correct)
qed

section \<open>When the handler returns\<close>

text \<open>
  The handler owns \<open>mtx\<close> when it calls \<open>becomeFollower\<close>, which locks it again: an AppendEntries
  that would make the node step down never returns, and the mutex stays locked.
\<close>

definition steps_down :: "AppendEntriesRPC \<Rightarrow> RaftNode \<Rightarrow> bool" where
  "steps_down r n \<longleftrightarrow>
     ae_term r > currentTerm n \<or> ae_term r = currentTerm n \<and> state n = CANDIDATE"

lemma handle_AE_stale:
  assumes "\<not> mtxHeld n" "\<not> receivingSnapshot n" "ae_term r < currentTerm n"
  shows "handle_AppendEntries now rnd r n s =
    (n\<lparr>metrics := (metrics n)\<lparr>appendEntriesReceived := appendEntriesReceived (metrics n) + 1\<rparr>\<rparr>,
     s, AE_Reply \<lparr>aer_term = currentTerm n, aer_success = False\<rparr>)"
  using assms by (simp add: handle_AppendEntries_def Let_def release_def)

lemma handle_AE_hang:
  assumes "mtxHeld n \<or> \<not> receivingSnapshot n \<and> steps_down r n"
    and "handle_AppendEntries now rnd r n s = (n', s', reply)"
  shows "reply = AE_Hangs" "mtxHeld n'" "s' = s"
    and "log n' = log n" "currentTerm n' = currentTerm n" "commitIndex n' = commitIndex n"
proof -
  have "accept_entries now rnd r m s = (m, s, AE_Hangs)"
    if "mtxHeld m" "currentTerm m = currentTerm n" "state m = state n" "steps_down r n" for m
    using that by (auto simp: accept_entries_def becomeFollower_def steps_down_def)
  then show "reply = AE_Hangs" "mtxHeld n'" "s' = s"
    and "log n' = log n" "currentTerm n' = currentTerm n" "commitIndex n' = commitIndex n"
    using assms by (auto simp: handle_AppendEntries_def Let_def steps_down_def split: if_splits)
qed

text \<open>Otherwise: the normal path, spelled out.\<close>

definition ae_received :: "int \<Rightarrow> nat \<Rightarrow> AppendEntriesRPC \<Rightarrow> RaftNode \<Rightarrow> RaftNode" where
  "ae_received now rnd r n =
     n\<lparr>metrics := (metrics n)\<lparr>appendEntriesReceived := appendEntriesReceived (metrics n) + 1\<rparr>,
       mtxHeld := True, lastHeartbeat := now, electionTimeout := 2000 + int (rnd mod 2000),
       leaderId := ae_leaderId r\<rparr>"

lemma consistency_check_cong:
  "log n' = log n \<Longrightarrow> latestSnapshot n' = latestSnapshot n \<Longrightarrow>
    consistency_check r n' = consistency_check r n"
  by (simp add: consistency_check_def Let_def split: option.splits)

lemma ae_received_simps [simp]:
  "log (ae_received now rnd r n) = log n"
  "latestSnapshot (ae_received now rnd r n) = latestSnapshot n"
  "currentTerm (ae_received now rnd r n) = currentTerm n"
  "votedFor (ae_received now rnd r n) = votedFor n"
  "state (ae_received now rnd r n) = state n"
  "commitIndex (ae_received now rnd r n) = commitIndex n"
  "lastApplied (ae_received now rnd r n) = lastApplied n"
  "shutdownRequested (ae_received now rnd r n) = shutdownRequested n"
  "base_index (ae_received now rnd r n) = base_index n"
  "getLogSize (ae_received now rnd r n) = getLogSize n"
  "log_wf (ae_received now rnd r n) = log_wf n"
  by (simp_all add: ae_received_def base_index_def getLogSize_def log_wf_def)

lemma ae_received_views [simp]:
  "consistency_check q (ae_received now rnd r n) = consistency_check q n"
  "entry_at (ae_received now rnd r n) = entry_at n"
  by (rule consistency_check_cong entry_at_cong; simp)+

lemma handle_AE_normal:
  assumes "\<not> mtxHeld n" "\<not> receivingSnapshot n" "ae_term r = currentTerm n"
    and "state n \<noteq> CANDIDATE"
  shows "handle_AppendEntries now rnd r n s =
    (let n1 = ae_received now rnd r n;
         ok = consistency_check r n;
         n2 = persistMetadata (if ok then append_entries r n1 else n1)
     in case (if ok then advance_commit (ae_leaderCommit r) n2 s else (n2, s, None)) of
          (n3, s', None) \<Rightarrow>
            (release n3, s', AE_Reply \<lparr>aer_term = currentTerm n3, aer_success = ok\<rparr>)
        | (n3, s', Some e) \<Rightarrow> (release n3, s', AE_Error))"
proof -
  have "consistency_check r (ae_received now rnd r n) = consistency_check r n" by simp
  then show ?thesis
    using assms
    by (simp add: handle_AppendEntries_def accept_entries_def Let_def ae_received_def
        split: prod.splits option.splits)
qed

lemma push_entries_frame: "\<exists>l. push_entries es n = n\<lparr>log := l\<rparr>"
proof (induction es arbitrary: n)
  case Nil
  then show ?case by (auto simp: push_entries_def intro: exI [of _ "log n"])
next
  case (Cons e es)
  obtain l where l: "push_entry n e = n\<lparr>log := l\<rparr>"
    by (cases "log_position n (entry_index e) \<ge> int (length (log n))")
      (auto simp: push_entry_def intro: that [of "log n"])
  obtain l' where "push_entries es (push_entry n e) = (push_entry n e)\<lparr>log := l'\<rparr>"
    using Cons.IH by blast
  then show ?case by (auto simp: push_entries_def l)
qed

lemma append_entries_log: "\<exists>l. append_entries r n = n\<lparr>log := l\<rparr>"
proof -
  let ?m = "n\<lparr>log := take (nat (log_position n (ae_prevLogIndex r + 1))) (log n)\<rparr>"
  obtain l where l: "push_entries (ae_entries r) n = n\<lparr>log := l\<rparr>" using push_entries_frame by blast
  obtain l' where "push_entries (ae_entries r) ?m = ?m\<lparr>log := l'\<rparr>"
    using push_entries_frame by blast
  then have l': "push_entries (ae_entries r) ?m = n\<lparr>log := l'\<rparr>" by simp
  have "append_entries r n \<in>
      {n\<lparr>log := log n\<rparr>, push_entries (ae_entries r) n, push_entries (ae_entries r) ?m}"
    by (simp add: append_entries_def Let_def split: list.split)
  then have "append_entries r n = n\<lparr>log := log n\<rparr> \<or> append_entries r n = n\<lparr>log := l\<rparr> \<or>
      append_entries r n = n\<lparr>log := l'\<rparr>"
    using l l' by auto
  then show ?thesis by blast
qed

lemma append_entries_frame [simp]:
  "currentTerm (append_entries r n) = currentTerm n" "votedFor (append_entries r n) = votedFor n"
  "commitIndex (append_entries r n) = commitIndex n" "state (append_entries r n) = state n"
  "lastApplied (append_entries r n) = lastApplied n"
  "shutdownRequested (append_entries r n) = shutdownRequested n"
  "latestSnapshot (append_entries r n) = latestSnapshot n"
  "receivingSnapshot (append_entries r n) = receivingSnapshot n"
  using append_entries_log [of r n] by auto

section \<open>What a returning handler leaves behind\<close>

text \<open>
  The premises of the normal path: nobody else is stuck in the node's mutex, the request is of the
  current term and the node does not stand for election; the log is short of the snapshot
  threshold.
\<close>

definition ae_normal :: "AppendEntriesRPC \<Rightarrow> RaftNode \<Rightarrow> bool" where
  "ae_normal r n \<longleftrightarrow>
     \<not> mtxHeld n \<and> \<not> receivingSnapshot n \<and> ae_term r = currentTerm n \<and> state n \<noteq> CANDIDATE \<and>
     int (length (log n) + length (ae_entries r)) < SNAPSHOT_THRESHOLD"

text \<open>The batch as a sender builds it, fitting the receiver's log where the check has passed.\<close>

definition ae_batch :: "AppendEntriesRPC \<Rightarrow> RaftNode \<Rightarrow> bool" where
  "ae_batch r n \<longleftrightarrow>
     contiguous (ae_prevLogIndex r + 1) (ae_entries r) \<and>
     base_index n \<le> ae_prevLogIndex r + 1 \<and> - 1 \<le> ae_prevLogIndex r \<and> 0 \<le> base_index n"

lemma push_entries_length: "length (log (push_entries es n)) \<le> length (log n) + length es"
proof (induction es arbitrary: n)
  case Nil
  then show ?case by (simp add: push_entries_def)
next
  case (Cons e es)
  have "length (log (push_entry n e)) \<le> Suc (length (log n))" by (simp add: push_entry_def)
  then show ?case using Cons.IH [of "push_entry n e"] by (simp add: push_entries_def)
qed

lemma append_entries_length:
  "length (log (append_entries r n)) \<le> length (log n) + length (ae_entries r)"
proof -
  let ?m = "n\<lparr>log := take (nat (log_position n (ae_prevLogIndex r + 1))) (log n)\<rparr>"
  have "append_entries r n \<in> {n, push_entries (ae_entries r) n, push_entries (ae_entries r) ?m}"
    by (simp add: append_entries_def Let_def split: list.split)
  then show ?thesis
    using push_entries_length [of "ae_entries r" n] push_entries_length [of "ae_entries r" ?m]
    by auto
qed

text \<open>The state after the append and before the commit.\<close>

definition ae_appended :: "int \<Rightarrow> nat \<Rightarrow> AppendEntriesRPC \<Rightarrow> RaftNode \<Rightarrow> RaftNode" where
  "ae_appended now rnd r n =
     persistMetadata
       (if consistency_check r n then append_entries r (ae_received now rnd r n)
        else ae_received now rnd r n)"

lemma release_simps [simp]:
  "log (release n) = log n" "latestSnapshot (release n) = latestSnapshot n"
  "currentTerm (release n) = currentTerm n" "votedFor (release n) = votedFor n"
  "state (release n) = state n" "commitIndex (release n) = commitIndex n"
  "lastApplied (release n) = lastApplied n" "metadataFile (release n) = metadataFile n"
  "mtxHeld (release n) = False" "leaderId (release n) = leaderId n"
  "receivingSnapshot (release n) = receivingSnapshot n"
  by (simp_all add: release_def)

lemma handle_AE_result:
  assumes "ae_normal r n" "handle_AppendEntries now rnd r n s = (n', s', reply)"
  shows "reply = AE_Reply \<lparr>aer_term = currentTerm n, aer_success = consistency_check r n\<rparr>"
    and "log n' = log (ae_appended now rnd r n)" "latestSnapshot n' = latestSnapshot n"
    and "currentTerm n' = currentTerm n" "votedFor n' = votedFor n" "state n' = state n"
    and "\<not> mtxHeld n'" "leaderId n' = ae_leaderId r"
    and "metadataFile n' = metadataFile (ae_appended now rnd r n)"
    and "commitIndex n' =
      (if consistency_check r n \<and> ae_leaderCommit r > commitIndex n
       then min (ae_leaderCommit r) (getLogSize n' - 1) else commitIndex n)"
    and "receivingSnapshot n' = receivingSnapshot n"
proof -
  let ?a = "ae_appended now rnd r n"
  have a: "latestSnapshot ?a = latestSnapshot n" "currentTerm ?a = currentTerm n"
    "votedFor ?a = votedFor n" "state ?a = state n" "commitIndex ?a = commitIndex n"
    "leaderId ?a = ae_leaderId r" "receivingSnapshot ?a = receivingSnapshot n"
    using append_entries_log [of r "ae_received now rnd r n"]
    by (auto simp: ae_appended_def persistMetadata_def ae_received_def)
  have len: "int (length (log ?a)) < SNAPSHOT_THRESHOLD"
    using assms(1) append_entries_length [of r "ae_received now rnd r n"]
    by (auto simp: ae_normal_def ae_appended_def)
  have pre: "\<not> mtxHeld n" "\<not> receivingSnapshot n" "ae_term r = currentTerm n"
    "state n \<noteq> CANDIDATE"
    using assms(1) by (simp_all add: ae_normal_def)
  have norm: "handle_AppendEntries now rnd r n s =
      (case (if consistency_check r n then advance_commit (ae_leaderCommit r) ?a s
             else (?a, s, None)) of
         (n3, s', None) \<Rightarrow>
           (release n3, s', AE_Reply \<lparr>aer_term = currentTerm n3, aer_success = consistency_check r n\<rparr>)
       | (n3, s', Some e) \<Rightarrow> (release n3, s', AE_Error))"
    by (rule handle_AE_normal [OF pre, unfolded Let_def, folded ae_appended_def])
  obtain n3 t x where ac: "advance_commit (ae_leaderCommit r) ?a s = (n3, t, x)"
    using prod_cases3 by blast
  note ac_facts = advance_commit_small [OF ac len]
  have size: "getLogSize n3 = getLogSize ?a"
    using ac_facts(2,3) by (simp add: getLogSize_def base_index_def)
  have relsize: "getLogSize (release m) = getLogSize m" for m
    by (simp add: getLogSize_def base_index_def)
  show "reply = AE_Reply \<lparr>aer_term = currentTerm n, aer_success = consistency_check r n\<rparr>"
    "log n' = log ?a" "latestSnapshot n' = latestSnapshot n"
    "currentTerm n' = currentTerm n" "votedFor n' = votedFor n" "state n' = state n"
    "\<not> mtxHeld n'" "leaderId n' = ae_leaderId r" "metadataFile n' = metadataFile ?a"
    "commitIndex n' =
      (if consistency_check r n \<and> ae_leaderCommit r > commitIndex n
       then min (ae_leaderCommit r) (getLogSize n' - 1) else commitIndex n)"
    "receivingSnapshot n' = receivingSnapshot n"
    using assms(2) norm ac ac_facts a size
    by (auto simp: relsize split: if_splits)
qed

lemma handle_AE_applies:
  assumes "ae_normal r n" "handle_AppendEntries now rnd r n s = (n', s', reply)"
    and "consistency_check r n" "ae_leaderCommit r > commitIndex n" "\<not> shutdownRequested n"
  shows "s' = fst (run_commands n (map entry_command
      (getLogEntries (lastApplied n + 1) (commitIndex n' + 1) n')) (s, []))"
    and "lastApplied n' = max (lastApplied n) (commitIndex n')"
proof -
  let ?a = "ae_appended now rnd r n"
  have a: "commitIndex ?a = commitIndex n" "lastApplied ?a = lastApplied n"
    "\<not> shutdownRequested ?a"
    using assms(5) by (simp_all add: ae_appended_def)
  have len: "int (length (log ?a)) < SNAPSHOT_THRESHOLD"
    using assms(1) append_entries_length [of r "ae_received now rnd r n"]
    by (auto simp: ae_normal_def ae_appended_def)
  obtain n3 t x where ac: "advance_commit (ae_leaderCommit r) ?a s = (n3, t, x)"
    using prod_cases3 by blast
  have x: "x = None" using advance_commit_small(1) [OF ac len] .
  have pre: "\<not> mtxHeld n" "\<not> receivingSnapshot n" "ae_term r = currentTerm n"
    "state n \<noteq> CANDIDATE"
    using assms(1) by (simp_all add: ae_normal_def)
  have n': "n' = release n3" "s' = t"
    using assms(2,3) ac x
    by (simp_all add: handle_AE_normal [OF pre, unfolded Let_def, folded ae_appended_def])
  have gt: "commitIndex ?a < ae_leaderCommit r" using assms(4) a(1) by simp
  note app = advance_commit_applies [OF ac len a(3) gt]
  have c: "commitIndex n' = min (ae_leaderCommit r) (getLogSize ?a - 1)"
    using advance_commit_small(4) [OF ac len] gt n'(1) by simp
  have "getLogEntries i j n' = getLogEntries i j ?a" for i j
    using advance_commit_small(2,3) [OF ac len] n'(1) by (intro getLogEntries_cong) simp_all
  moreover have "getLogEntries i j (?a\<lparr>commitIndex := k\<rparr>) = getLogEntries i j ?a" for i j k
    by (rule getLogEntries_cong) simp_all
  ultimately show "s' = fst (run_commands n (map entry_command
      (getLogEntries (lastApplied n + 1) (commitIndex n' + 1) n')) (s, []))"
    using app(1) n'(2) c a run_commands_cong [of ?a n] assms(5)
    by (simp add: pending_commands_def)
  show "lastApplied n' = max (lastApplied n) (commitIndex n')"
    using app(2) c n'(1) a(2) by simp
qed

lemma log_views:
  assumes "log a = log b" "latestSnapshot a = latestSnapshot b"
  shows "entry_at a = entry_at b" "getLogSize a = getLogSize b"
  using assms by (auto intro: entry_at_cong simp: getLogSize_def base_index_def)

lemma handle_AE_log:
  assumes "ae_normal r n" "handle_AppendEntries now rnd r n s = (n', s', reply)"
  shows "entry_at n' = entry_at (if consistency_check r n
      then append_entries r (ae_received now rnd r n) else n)"
    and "getLogSize n' = getLogSize (if consistency_check r n
      then append_entries r (ae_received now rnd r n) else n)"
  using handle_AE_result(2,3) [OF assms]
  by (intro log_views; simp add: ae_appended_def)+

section \<open>Properties\<close>

text \<open>A follower in term 1 with one entry, and messages of the leader of that term.\<close>

definition demo_follower :: RaftNode where
  "demo_follower = demo_node\<lparr>currentTerm := 1, log := [demo_entry 1 0 ''PUT a 1'']\<rparr>"

definition demo_append :: "int \<Rightarrow> int \<Rightarrow> logEntry list \<Rightarrow> int \<Rightarrow> AppendEntriesRPC" where
  "demo_append prev prevTerm es c =
     \<lparr>ae_term = 1, ae_leaderId = 1, ae_prevLogIndex = prev, ae_prevLogTerm = prevTerm,
      ae_entries = es, ae_leaderCommit = c\<rparr>"

lemmas demo_ae_defs = demo_append_def demo_follower_def demo_node_def RaftNode_new_def
  demo_entry_def

text \<open>
  C14: Replication: when the entry before the batch is there and the first new entry is not, the
  handler answers success; afterwards the log holds the old entries up to \<open>prevLogIndex\<close>, then
  exactly the batch, and nothing after it (a conflicting tail is gone), and this log is in the
  metadata file.
\<close>

theorem batch_is_replicated:
  assumes "ae_normal r n" "ae_batch r n" "ae_entries r \<noteq> []" "consistency_check r n"
    and "first_is_new r n" "handle_AppendEntries now rnd r n s = (n', s', reply)"
  shows "reply = AE_Reply \<lparr>aer_term = currentTerm n, aer_success = True\<rparr> \<and>
    (\<forall>idx \<le> ae_prevLogIndex r. entry_at n' idx = entry_at n idx) \<and>
    (\<forall>i < length (ae_entries r).
       entry_at n' (ae_prevLogIndex r + 1 + int i) = Some (ae_entries r ! i)) \<and>
    getLogSize n' = ae_prevLogIndex r + 1 + int (length (ae_entries r)) \<and>
    (\<exists>j. metadataFile n' = Contents j \<and> j_logEntries j = Some (log n'))"
proof -
  let ?m = "ae_received now rnd r n"
  have pre: "contiguous (ae_prevLogIndex r + 1) (ae_entries r)"
    "base_index ?m \<le> ae_prevLogIndex r + 1" "ae_prevLogIndex r < getLogSize ?m"
    "first_is_new r ?m"
    using assms(2,5) consistency_check_bounds [OF assms(4)]
    by (auto simp: ae_batch_def first_is_new_def getLogSize_def)
  note view = append_entries_view [OF pre(1) assms(3) pre(2-4)]
  have e: "entry_at n' = entry_at (append_entries r ?m)"
    "getLogSize n' = getLogSize (append_entries r ?m)"
    using handle_AE_log [OF assms(1,6)] assms(4) by simp_all
  have "\<forall>idx \<le> ae_prevLogIndex r. entry_at n' idx = entry_at n idx"
    "\<forall>i < length (ae_entries r).
       entry_at n' (ae_prevLogIndex r + 1 + int i) = Some (ae_entries r ! i)"
    "getLogSize n' = ae_prevLogIndex r + 1 + int (length (ae_entries r))"
    unfolding e using view by simp_all
  moreover have "\<exists>j. metadataFile n' = Contents j \<and> j_logEntries j = Some (log n')"
    using handle_AE_result(2,9) [OF assms(1,6)]
    by (simp add: ae_appended_def persistMetadata_def)
  moreover have "reply = AE_Reply \<lparr>aer_term = currentTerm n, aer_success = True\<rparr>"
    using handle_AE_result(1) [OF assms(1,6)] assms(4) by simp
  ultimately show ?thesis by blast
qed

theorem batch_is_replicated_witness:
  "getLogSize (fst (handle_AppendEntries 0 0
      (demo_append 0 1 [demo_entry 1 1 ''PUT b 2'', demo_entry 1 2 ''DELETE a''] 0)
      demo_follower empty_store)) = 3"
proof -
  let ?r = "demo_append 0 1 [demo_entry 1 1 ''PUT b 2'', demo_entry 1 2 ''DELETE a''] 0"
  obtain n' s' reply where h: "handle_AppendEntries 0 0 ?r demo_follower empty_store = (n', s', reply)"
    using prod_cases3 by blast
  have "getLogSize n' = ae_prevLogIndex ?r + 1 + int (length (ae_entries ?r))"
    using batch_is_replicated [OF _ _ _ _ _ h]
    by (simp add: demo_ae_defs ae_normal_def ae_batch_def contiguous_Cons SNAPSHOT_THRESHOLD_def
        consistency_check_def first_is_new_def entry_at_def log_position_def base_index_def)
  then show ?thesis using h by (simp add: demo_append_def)
qed

text \<open>
  When the first entry of the batch is already there with its term, the handler answers
  success and leaves the log alone, however many entries follow it in the batch: the sender, which
  sets \<open>matchIndex\<close> to the end of the batch, counts entries this node does not have.
\<close>

theorem rest_of_batch_dropped:
  assumes "ae_normal r n" "consistency_check r n" "\<not> first_is_new r n"
    and "handle_AppendEntries now rnd r n s = (n', s', reply)"
  shows "reply = AE_Reply \<lparr>aer_term = currentTerm n, aer_success = True\<rparr> \<and>
    entry_at n' = entry_at n \<and> getLogSize n' = getLogSize n"
proof -
  have "\<not> first_is_new r (ae_received now rnd r n)" using assms(3) by (simp add: first_is_new_def)
  then have "append_entries r (ae_received now rnd r n) = ae_received now rnd r n"
    by (rule append_entries_present)
  then show ?thesis
    using handle_AE_log [OF assms(1,4)] handle_AE_result(1) [OF assms(1,4)] assms(2) by simp
qed

theorem rest_of_batch_dropped_witness:
  "entry_at (fst (handle_AppendEntries 0 0
      (demo_append (- 1) 0 [demo_entry 1 0 ''PUT a 1'', demo_entry 1 1 ''PUT b 2''] 0)
      demo_follower empty_store)) 1 = None"
proof -
  let ?r = "demo_append (- 1) 0 [demo_entry 1 0 ''PUT a 1'', demo_entry 1 1 ''PUT b 2''] 0"
  obtain n' s' reply where h: "handle_AppendEntries 0 0 ?r demo_follower empty_store = (n', s', reply)"
    using prod_cases3 by blast
  have "entry_at n' = entry_at demo_follower"
    using rest_of_batch_dropped [OF _ _ _ h]
    by (simp add: demo_ae_defs ae_normal_def SNAPSHOT_THRESHOLD_def consistency_check_def
        first_is_new_def entry_at_def log_position_def)
  then show ?thesis
    using h by (simp add: demo_ae_defs entry_at_def log_position_def)
qed

text \<open>
  A refused batch changes nothing that is replicated: with a stale term, or without the entry
  before the batch, the answer is failure in the node's own term and the log, the commit index and
  the vote are as before.
\<close>

theorem refused_batch_harmless:
  assumes "\<not> mtxHeld n" "\<not> receivingSnapshot n"
    and "ae_term r < currentTerm n \<or> ae_normal r n \<and> \<not> consistency_check r n"
    and "handle_AppendEntries now rnd r n s = (n', s', reply)"
  shows "reply = AE_Reply \<lparr>aer_term = currentTerm n, aer_success = False\<rparr> \<and>
    log n' = log n \<and> commitIndex n' = commitIndex n \<and> currentTerm n' = currentTerm n \<and>
    votedFor n' = votedFor n \<and> state n' = state n"
  using assms(3)
proof
  assume "ae_term r < currentTerm n"
  from handle_AE_stale [OF assms(1,2) this, of now rnd s] assms(4) show ?thesis by auto
next
  assume "ae_normal r n \<and> \<not> consistency_check r n"
  then show ?thesis
    using handle_AE_result [of r n now rnd s n' s' reply] assms(4) by (simp add: ae_appended_def)
qed

theorem refused_batch_harmless_witness:
  "log (fst (handle_AppendEntries 0 0 (demo_append 5 1 [demo_entry 1 6 ''x''] 9)
      demo_follower empty_store)) = log demo_follower"
proof -
  let ?r = "demo_append 5 1 [demo_entry 1 6 ''x''] 9"
  obtain n' s' reply where h: "handle_AppendEntries 0 0 ?r demo_follower empty_store = (n', s', reply)"
    using prod_cases3 by blast
  have "log n' = log demo_follower"
    using refused_batch_harmless [OF _ _ _ h]
    by (simp add: demo_ae_defs ae_normal_def SNAPSHOT_THRESHOLD_def consistency_check_def)
  then show ?thesis using h by simp
qed

text \<open>
  C30: Commitment on the follower: after an accepted batch with a newer leader commit, the commit
  index is the smaller of the leader's and the own last index, and the store has received exactly
  the committed entries that were not applied before, in log order.
\<close>

theorem follower_commits:
  assumes "ae_normal r n" "handle_AppendEntries now rnd r n s = (n', s', reply)"
    and "consistency_check r n" "ae_leaderCommit r > commitIndex n" "\<not> shutdownRequested n"
  shows "commitIndex n' = min (ae_leaderCommit r) (getLogSize n' - 1) \<and>
    lastApplied n' = max (lastApplied n) (commitIndex n') \<and>
    s' = fst (run_commands n (map entry_command
      (getLogEntries (lastApplied n + 1) (commitIndex n' + 1) n')) (s, []))"
  using handle_AE_applies [OF assms] handle_AE_result(10) [OF assms(1,2)] assms(3,4) by simp

theorem follower_commits_witness:
  "commitIndex (fst (handle_AppendEntries 0 0 (demo_append 0 1 [demo_entry 1 1 ''PUT b 2''] 7)
      demo_follower empty_store)) \<le> 7"
proof -
  let ?r = "demo_append 0 1 [demo_entry 1 1 ''PUT b 2''] 7"
  obtain n' s' reply where h: "handle_AppendEntries 0 0 ?r demo_follower empty_store = (n', s', reply)"
    using prod_cases3 by blast
  have "commitIndex n' = min (ae_leaderCommit ?r) (getLogSize n' - 1)"
    using follower_commits [OF _ h]
    by (simp add: demo_ae_defs ae_normal_def SNAPSHOT_THRESHOLD_def consistency_check_def)
  then show ?thesis using h by (simp add: demo_append_def)
qed

text \<open>
  C32: The AppendEntries handler locks its mutex twice when it has to step down: a request of a
  newer term, or one of the own term that reaches a candidate, is never answered, changes nothing
  that is replicated, and leaves the mutex locked.
\<close>

theorem step_down_deadlocks:
  assumes "\<not> receivingSnapshot n" "steps_down r n"
    and "handle_AppendEntries now rnd r n s = (n', s', reply)"
  shows "reply = AE_Hangs \<and> mtxHeld n' \<and> s' = s \<and> log n' = log n \<and>
    currentTerm n' = currentTerm n"
  using handle_AE_hang [OF _ assms(3)] assms(1,2) by blast

theorem step_down_deadlocks_witness:
  "snd (snd (handle_AppendEntries 0 0 (demo_append (- 1) 0 [] 0) demo_node empty_store)) = AE_Hangs"
proof -
  let ?r = "demo_append (- 1) 0 [] 0"
  obtain n' s' reply where h: "handle_AppendEntries 0 0 ?r demo_node empty_store = (n', s', reply)"
    using prod_cases3 by blast
  then show ?thesis
    using step_down_deadlocks [OF _ _ h] by (simp add: demo_ae_defs steps_down_def)
qed

end
