(* ===== verification/Client.thy ===== *)
theory Client
  imports Transfer_Facts Replication_Facts
begin

text \<open>
  \<open>RaftNode::handleClientCommand\<close>: the leader's side of a client command.  The body is cut where
  the code does: the guards and the duplicate test, the append under the lock, one round trip per
  peer (with a snapshot transfer when a peer is too far behind), and the commit.

  \<open>net\<close> carries a message to a port and brings the reply back; it works on the peers' state
  together with the store, because every node of the process applies to the same store.
\<close>

section \<open>The environment of a leader\<close>

record 'p network =
  dump_length :: "InstallSnapshotRPC \<Rightarrow> nat"
  stream_order :: "Snapshot \<Rightarrow> (string \<times> string) list"
  send_append :: "int \<Rightarrow> 'p \<times> KVStore \<Rightarrow> AppendEntriesRPC \<Rightarrow>
    ('p \<times> KVStore) \<times> AppendEntriesResponse rpc_reply"
  send_install :: "int \<Rightarrow> 'p \<times> KVStore \<Rightarrow> InstallSnapshotRPC \<Rightarrow> ('p \<times> KVStore) \<times> bool rpc_reply"

section \<open>Guards\<close>

text \<open>The three tests before anything is written; \<open>None\<close> lets the command through.\<close>

definition client_guard :: "string \<Rightarrow> int \<Rightarrow> RaftNode \<Rightarrow> string option" where
  "client_guard clientId requestId n =
     (if shutdownRequested n then Some ''error: shutdown''
      else if state n \<noteq> LEADER then Some ''error: not leader''
      else if clientLastRequest n clientId = Some requestId
      then Some (case clientResultCache n clientId of None \<Rightarrow> [] | Some r \<Rightarrow> r)
      else None)"

text \<open>
  \<open>newIndex = getLogSize(); log.push_back(...)\<close>, under the lock.
\<close>

definition append_command :: "string \<Rightarrow> RaftNode \<Rightarrow> RaftNode" where
  "append_command cmd n =
     n\<lparr>log := log n @ [\<lparr>entry_term = currentTerm n, entry_index = getLogSize n,
                         entry_command = cmd\<rparr>]\<rparr>"

section \<open>One peer\<close>

definition client_message :: "int \<Rightarrow> nat \<Rightarrow> RaftNode \<Rightarrow> AppendEntriesRPC" where
  "client_message newIndex i n =
     (let nextIdx = nextIndex n ! i; prevIndex = nextIdx - 1
      in \<lparr>ae_term = currentTerm n, ae_leaderId = node_id n, ae_prevLogIndex = prevIndex,
          ae_prevLogTerm = getLogTerm prevIndex n,
          ae_entries = getLogEntries nextIdx (newIndex + 1) n,
          ae_leaderCommit = commitIndex n\<rparr>)"

text \<open>The reaction to a term newer than the leader's.\<close>

definition step_down :: "int \<Rightarrow> RaftNode \<Rightarrow> RaftNode" where
  "step_down t n =
     persistMetadata
       (n\<lparr>currentTerm := t, state := FOLLOWER,
          metrics := updateRole ''Follower''
            ((metrics n)\<lparr>m_currentTerm := t, m_votedFor := votedFor n\<rparr>),
          votedFor := - 1\<rparr>)"

text \<open>\<open>if (nextIndex[i] > 0) nextIndex[i]--\<close>\<close>

definition back_off :: "nat \<Rightarrow> RaftNode \<Rightarrow> RaftNode" where
  "back_off i n =
     (if nextIndex n ! i > 0 then n\<lparr>nextIndex := (nextIndex n)[i := nextIndex n ! i - 1]\<rparr> else n)"

text \<open>Where a command ends: an answer, an exception, a lock never granted, a crash.\<close>

datatype 'a client_result =
    Continues (result_of: 'a)
  | Answers (result_of: 'a) string
  | Throws (result_of: 'a) cpp_exn
  | Waits (result_of: 'a)
  | Crashes (result_of: 'a)

text \<open>A refused batch: back off and, if the peer is behind the snapshot, send the snapshot.\<close>

definition after_refusal ::
  "'p network \<Rightarrow> nat \<Rightarrow> RaftNode \<times> ('p \<times> KVStore) \<times> int \<Rightarrow>
   (RaftNode \<times> ('p \<times> KVStore) \<times> int) client_result" where
  "after_refusal net i q =
     (case q of (n, w, successCount) \<Rightarrow>
        let n = back_off i n
        in case latestSnapshot n of
             None \<Rightarrow> Continues (n, w, successCount)
           | Some snap \<Rightarrow>
               if nextIndex n ! i \<le> lastIncludedIndex snap
               then
                 (case send_snapshot (dump_length net) (send_install net (peerRpcPorts n ! i)) snap
                         (stream_order net snap) i n w of
                    (n, w, Division_By_Zero) \<Rightarrow> Crashes (n, w, successCount)
                  | (n, w, _) \<Rightarrow> Continues (n, w, successCount))
               else Continues (n, w, successCount))"

definition client_reply ::
  "'p network \<Rightarrow> int \<Rightarrow> nat \<Rightarrow> AppendEntriesResponse rpc_reply \<Rightarrow>
   RaftNode \<times> ('p \<times> KVStore) \<times> int \<Rightarrow> (RaftNode \<times> ('p \<times> KVStore) \<times> int) client_result" where
  "client_reply net newIndex i reply q =
     (case q of (n, w, successCount) \<Rightarrow>
        case reply of
          No_Reply \<Rightarrow> Continues (n, w, successCount)
        | Bad_Reply \<Rightarrow> Continues (n, w, successCount)
        | Reply resp \<Rightarrow>
            if aer_term resp > currentTerm n
            then
              (if mtxHeld n then Waits (n, w, successCount)
               else Answers (step_down (aer_term resp) n, w, successCount) ''leader step down'')
            else if aer_success resp
            then
              Continues (n\<lparr>nextIndex := (nextIndex n)[i := newIndex + 1],
                           matchIndex := (matchIndex n)[i := newIndex]\<rparr>, w, successCount + 1)
            else after_refusal net i (n, w, successCount))"

definition replicate_to ::
  "'p network \<Rightarrow> int \<Rightarrow> nat \<Rightarrow> RaftNode \<times> ('p \<times> KVStore) \<times> int \<Rightarrow>
   (RaftNode \<times> ('p \<times> KVStore) \<times> int) client_result" where
  "replicate_to net newIndex i q =
     (case q of (n, w, successCount) \<Rightarrow>
        if shutdownRequested n then Answers q ''error: shutdown''
        else
          (case send_append net (peerRpcPorts n ! i) w (client_message newIndex i n) of
             (w, reply) \<Rightarrow>
               client_reply net newIndex i reply
                 (n\<lparr>metrics := (metrics n)\<lparr>appendEntriesSent :=
                      appendEntriesSent (metrics n) + 1\<rparr>\<rparr>, w, successCount)))"

text \<open>\<open>for (size_t i = 0; i < peerRpcPorts.size(); i++)\<close>, over the list of positions.\<close>

fun replicate_all ::
  "'p network \<Rightarrow> int \<Rightarrow> nat list \<Rightarrow> RaftNode \<times> ('p \<times> KVStore) \<times> int \<Rightarrow>
   (RaftNode \<times> ('p \<times> KVStore) \<times> int) client_result" where
  "replicate_all net newIndex [] q = Continues q"
| "replicate_all net newIndex (i # is) q =
     (case replicate_to net newIndex i q of
        Continues q' \<Rightarrow> replicate_all net newIndex is q'
      | other \<Rightarrow> other)"

section \<open>Commit\<close>

text \<open>The block under the lock that applies, takes a snapshot and remembers the answer.\<close>

definition commit_and_apply ::
  "string \<Rightarrow> int \<Rightarrow> int \<Rightarrow> RaftNode \<Rightarrow> KVStore \<Rightarrow> (RaftNode \<times> KVStore) client_result" where
  "commit_and_apply clientId requestId newIndex n s =
     (case apply_loop True (n\<lparr>commitIndex := newIndex\<rparr>) s [] of
        (n, s, applyResult) \<Rightarrow>
          (case (if int (length (log n)) \<ge> SNAPSHOT_THRESHOLD then take_snapshot n s
                 else (n, s, None)) of
             (n, s, Some e) \<Rightarrow> Throws (n, s) e
           | (n, s, None) \<Rightarrow>
               Answers
                 (persistMetadata
                    (n\<lparr>clientLastRequest := (clientLastRequest n)(clientId \<mapsto> requestId),
                       clientResultCache := (clientResultCache n)(clientId \<mapsto> applyResult)\<rparr>), s)
                 applyResult))"

definition commit_command ::
  "string \<Rightarrow> int \<Rightarrow> int \<Rightarrow> int \<Rightarrow> RaftNode \<Rightarrow> KVStore \<Rightarrow> (RaftNode \<times> KVStore) client_result" where
  "commit_command clientId requestId newIndex successCount n s =
     (if shutdownRequested n then Answers (n, s) ''error: shutdown''
      else if getLogTerm newIndex n = currentTerm n \<and>
              successCount > int ((length (peerRpcPorts n) + 1) div 2)
      then
        (if mtxHeld n then Waits (n, s) else commit_and_apply clientId requestId newIndex n s)
      else Answers (n, s) ''error: not committed'')"

section \<open>The whole handler\<close>

definition handleClientCommand ::
  "'p network \<Rightarrow> string \<Rightarrow> int \<Rightarrow> string \<Rightarrow> string \<Rightarrow> string \<Rightarrow> RaftNode \<times> ('p \<times> KVStore) \<Rightarrow>
   (RaftNode \<times> ('p \<times> KVStore)) client_result" where
  "handleClientCommand net clientId requestId command key val q =
     (case q of (n, w) \<Rightarrow>
        case client_guard clientId requestId n of
          Some answer \<Rightarrow> Answers (n, w) answer
        | None \<Rightarrow>
            if mtxHeld n then Waits (n, w)
            else
              (let newIndex = getLogSize n;
                   n = append_command (sendCommand command key val) n
               in case replicate_all net newIndex [0..<length (peerRpcPorts n)] (n, w, 1) of
                    Answers (n, w, c) answer \<Rightarrow> Answers (n, w) answer
                  | Throws (n, w, c) e \<Rightarrow> Throws (n, w) e
                  | Waits (n, w, c) \<Rightarrow> Waits (n, w)
                  | Crashes (n, w, c) \<Rightarrow> Crashes (n, w)
                  | Continues (n, (p, s), c) \<Rightarrow>
                      (case commit_command clientId requestId newIndex c n s of
                         Answers (n, s) answer \<Rightarrow> Answers (n, (p, s)) answer
                       | Throws (n, s) e \<Rightarrow> Throws (n, (p, s)) e
                       | Waits (n, s) \<Rightarrow> Waits (n, (p, s))
                       | Crashes (n, s) \<Rightarrow> Crashes (n, (p, s))
                       | Continues (n, s) \<Rightarrow> Continues (n, (p, s)))))"

end
