(* ===== verification/Client_Facts.thy ===== *)
theory Client_Facts
  imports Client
begin

text \<open>
  What \<open>handleClientCommand\<close> guarantees: which fields a round of replication can touch, that a
  committed answer is backed by a majority of \<open>matchIndex\<close>, that the answer is the reply of the
  state machine, and that a repeated request is answered from the cache.
\<close>

section \<open>What sending a snapshot touches\<close>

text \<open>\<open>n'\<close> is \<open>n\<close> up to counters and to the indices kept for the peers in \<open>I\<close>.\<close>

definition peer_update :: "nat set \<Rightarrow> RaftNode \<Rightarrow> RaftNode \<Rightarrow> bool" where
  "peer_update I n n' \<longleftrightarrow>
     (\<exists>m nx mx. n' = n\<lparr>metrics := m, nextIndex := nx, matchIndex := mx\<rparr> \<and>
        length nx = length (nextIndex n) \<and> length mx = length (matchIndex n) \<and>
        request_balance m = request_balance (metrics n) \<and>
        (\<forall>j. j \<notin> I \<longrightarrow> nx ! j = nextIndex n ! j \<and> mx ! j = matchIndex n ! j))"

lemma peer_updateI:
  "\<lbrakk>n' = n\<lparr>metrics := m, nextIndex := nx, matchIndex := mx\<rparr>; length nx = length (nextIndex n);
    length mx = length (matchIndex n); request_balance m = request_balance (metrics n);
    \<And>j. j \<notin> I \<Longrightarrow> nx ! j = nextIndex n ! j \<and> mx ! j = matchIndex n ! j\<rbrakk>
   \<Longrightarrow> peer_update I n n'"
  unfolding peer_update_def by blast

lemma peer_update_metrics [intro]:
  "request_balance m = request_balance (metrics n) \<Longrightarrow> peer_update I n (n\<lparr>metrics := m\<rparr>)"
  by (rule peer_updateI [where m = m and nx = "nextIndex n" and mx = "matchIndex n"]) simp_all

lemma peer_update_trans [trans]:
  assumes "peer_update I a b" "peer_update I b c" shows "peer_update I a c"
proof -
  obtain m nx mx where b: "b = a\<lparr>metrics := m, nextIndex := nx, matchIndex := mx\<rparr>"
    "length nx = length (nextIndex a)" "length mx = length (matchIndex a)"
    "request_balance m = request_balance (metrics a)"
    "\<forall>j. j \<notin> I \<longrightarrow> nx ! j = nextIndex a ! j \<and> mx ! j = matchIndex a ! j"
    using assms(1) unfolding peer_update_def by blast
  obtain m' nx' mx' where c: "c = b\<lparr>metrics := m', nextIndex := nx', matchIndex := mx'\<rparr>"
    "length nx' = length (nextIndex b)" "length mx' = length (matchIndex b)"
    "request_balance m' = request_balance (metrics b)"
    "\<forall>j. j \<notin> I \<longrightarrow> nx' ! j = nextIndex b ! j \<and> mx' ! j = matchIndex b ! j"
    using assms(2) unfolding peer_update_def by blast
  have "c = a\<lparr>metrics := m', nextIndex := nx', matchIndex := mx'\<rparr>" unfolding c(1) b(1) by simp
  then show ?thesis
    by (rule peer_updateI) (use b(2-5) c(2-5) in \<open>simp_all add: b(1)\<close>)
qed

lemma peer_update_set [intro]:
  "peer_update {i} n (n\<lparr>nextIndex := (nextIndex n)[i := a], matchIndex := (matchIndex n)[i := b]\<rparr>)"
  by (rule peer_updateI [where m = "metrics n" and nx = "(nextIndex n)[i := a]" and
        mx = "(matchIndex n)[i := b]"])
    simp_all

lemma peer_update_back_off [intro]: "peer_update {i} n (back_off i n)"
  by (rule peer_updateI [where m = "metrics n" and mx = "matchIndex n" and nx = "if nextIndex n ! i > 0
        then (nextIndex n)[i := nextIndex n ! i - 1] else nextIndex n"])
    (simp_all add: back_off_def)

lemma peer_update_refl [intro]: "peer_update I n n"
  using peer_update_metrics [where m = "metrics n" and n = n] by simp

lemma peer_update_fields:
  assumes "peer_update I n n'"
  shows "shutdownRequested n' = shutdownRequested n" "log n' = log n"
    and "currentTerm n' = currentTerm n" "state n' = state n"
    and "latestSnapshot n' = latestSnapshot n" "peerRpcPorts n' = peerRpcPorts n"
    and "mtxHeld n' = mtxHeld n" "commitIndex n' = commitIndex n"
    and "lastApplied n' = lastApplied n" "clientLastRequest n' = clientLastRequest n"
    and "clientResultCache n' = clientResultCache n" "node_id n' = node_id n"
    and "length (nextIndex n') = length (nextIndex n)"
    and "length (matchIndex n') = length (matchIndex n)"
    and "j \<notin> I \<Longrightarrow> matchIndex n' ! j = matchIndex n ! j"
    and "request_balance (metrics n') = request_balance (metrics n)"
  using assms unfolding peer_update_def by auto

lemma peer_update_mono: "peer_update I n n' \<Longrightarrow> I \<subseteq> J \<Longrightarrow> peer_update J n n'"
  unfolding peer_update_def by blast

lemma send_chunks_update:
  "send_chunks dump_len peer snap bs i cs k n p = (n', p', r) \<Longrightarrow> peer_update {i} n n'"
proof (induction dump_len peer snap bs i cs k n p arbitrary: n' p' r rule: send_chunks.induct)
  case (1 dump_len peer snap bs i cs k n p)
  let ?m = "chunk_message n snap bs cs k"
  let ?n = "n\<lparr>metrics := (metrics n)\<lparr>installSnapshotsSent := installSnapshotsSent (metrics n) + 1\<rparr>\<rparr>"
  let ?next = "if is_done ?m then ?n\<lparr>nextIndex := (nextIndex ?n)[i := lastIncludedIndex snap + 1],
      matchIndex := (matchIndex ?n)[i := lastIncludedIndex snap]\<rparr> else ?n"
  show ?case
  proof (cases "k < (length bs + cs - 1) div cs")
    case False
    then show ?thesis using "1.prems" by (subst (asm) send_chunks.simps) (auto simp: Let_def)
  next
    case True
    show ?thesis
    proof (cases "dump_len ?m > 2040")
      case big: True
      show ?thesis
      proof (cases "cs div 2 = 0")
        case True
        then show ?thesis using "1.prems" big \<open>k < _\<close>
          by (subst (asm) send_chunks.simps) (auto simp: Let_def)
      next
        case False
        then have "send_chunks dump_len peer snap bs i (cs div 2) 0 n p = (n', p', r)"
          using "1.prems" big True by (subst (asm) send_chunks.simps) (simp add: Let_def)
        then show ?thesis by (rule "1.IH"(1) [OF refl True refl big False])
      qed
    next
      case small: False
      obtain q reply where q: "peer p ?m = (q, reply)" by fastforce
      show ?thesis
      proof (cases "reply = Reply True")
        case accepted: True
        then have "send_chunks dump_len peer snap bs i cs (k + 1) ?next q = (n', p', r)"
          using "1.prems" small True q by (subst (asm) send_chunks.simps) (simp add: Let_def)
        then have "peer_update {i} ?next n'"
          using "1.IH"(2) [OF refl True refl small q [symmetric] refl, of True] accepted by simp
        moreover have "peer_update {i} n ?n" by (rule peer_update_metrics) simp
        moreover have "peer_update {i} ?n ?next"
          using peer_update_set [of i ?n] by (auto simp del: RaftNode.simps)
        ultimately show ?thesis by (blast intro: peer_update_trans)
      next
        case False
        then have "n' = ?n"
          using "1.prems" small True q
          by (subst (asm) send_chunks.simps) (auto simp: Let_def split: rpc_reply.splits if_splits)
        then show ?thesis by (simp add: peer_update_metrics)
      qed
    qed
  qed
qed

section \<open>A round of replication\<close>

lemma after_refusal_update:
  assumes "after_refusal net i (n, w, c) = res"
  shows "peer_update {i} n (fst (result_of res))" "snd (snd (result_of res)) = c"
proof -
  let ?b = "back_off i n"
  have b: "peer_update {i} n ?b" by (rule peer_update_back_off)
  have "peer_update {i} n (fst (result_of res)) \<and> snd (snd (result_of res)) = c"
  proof (cases "\<exists>snap. latestSnapshot ?b = Some snap \<and> nextIndex ?b ! i \<le> lastIncludedIndex snap")
    case False
    then have "res = Continues (?b, w, c)"
      using assms by (auto simp: after_refusal_def Let_def split: option.splits)
    with b show ?thesis by (simp only: client_result.sel fst_conv snd_conv simp_thms)
  next
    case True
    then obtain snap where snap: "latestSnapshot ?b = Some snap"
      "nextIndex ?b ! i \<le> lastIncludedIndex snap" by blast
    obtain n' w' t where t: "send_snapshot (dump_length net)
        (send_install net (peerRpcPorts ?b ! i)) snap (stream_order net snap) i ?b w = (n', w', t)"
      using prod_cases3 by blast
    have "peer_update {i} ?b n'" using t unfolding send_snapshot_def by (rule send_chunks_update)
    with b have "peer_update {i} n n'" by (rule peer_update_trans)
    moreover have "res = (if t = Division_By_Zero then Crashes (n', w', c)
        else Continues (n', w', c))"
      using assms snap t unfolding after_refusal_def Let_def prod.case
      by (cases t) (simp_all only: option.case if_True prod.case transfer_result.case
          transfer_result.distinct if_False refl simp_thms if_P)
    ultimately show ?thesis by (simp split: if_splits)
  qed
  then show "peer_update {i} n (fst (result_of res))" "snd (snd (result_of res)) = c" by auto
qed

text \<open>What is known of the node after the exchange with one peer.\<close>

lemma replicate_to_update:
  assumes "replicate_to net k i (n, w, c) = Continues (n', w', c')" "i < length (matchIndex n)"
  shows "peer_update {i} n n'" "c' = c \<or> c' = c + 1 \<and> matchIndex n' ! i = k"
proof -
  let ?m = "n\<lparr>metrics := (metrics n)\<lparr>appendEntriesSent := appendEntriesSent (metrics n) + 1\<rparr>\<rparr>"
  obtain w1 reply where w1: "send_append net (peerRpcPorts n ! i) w (client_message k i n) = (w1, reply)"
    by fastforce
  have live: "\<not> shutdownRequested n" using assms(1) by (auto simp: replicate_to_def)
  then have r: "client_reply net k i reply (?m, w1, c) = Continues (n', w', c')"
    using assms(1) w1 by (simp add: replicate_to_def)
  have start: "peer_update {i} n ?m" by (rule peer_update_metrics) simp
  have "peer_update {i} ?m n' \<and> (c' = c \<or> c' = c + 1 \<and> matchIndex n' ! i = k)"
  proof (cases "\<exists>resp. reply = Reply resp")
    case False
    then have "(n', w', c') = (?m, w1, c)"
      using r by (cases reply) (simp_all add: client_reply_def)
    then show ?thesis by (simp add: peer_update_refl)
  next
    case True
    then obtain resp where resp: "reply = Reply resp" by blast
    then have up: "\<not> aer_term resp > currentTerm ?m"
      using r by (cases "mtxHeld n") (auto simp: client_reply_def)
    show ?thesis
    proof (cases "aer_success resp")
      case True
      let ?s = "?m\<lparr>nextIndex := (nextIndex ?m)[i := k + 1], matchIndex := (matchIndex ?m)[i := k]\<rparr>"
      have eq: "n' = ?s" and c: "c' = c + 1"
        using r True up resp by (simp_all add: client_reply_def)
      have "peer_update {i} ?m ?s" by (rule peer_update_set)
      moreover have "matchIndex ?s ! i = k" using assms(2) by simp
      ultimately show ?thesis unfolding eq c by blast
    next
      case False
      then have "after_refusal net i (?m, w1, c) = Continues (n', w', c')"
        using r up resp by (simp add: client_reply_def)
      from after_refusal_update [OF this] show ?thesis by simp
    qed
  qed
  then show "peer_update {i} n n'" "c' = c \<or> c' = c + 1 \<and> matchIndex n' ! i = k"
    using start by (auto intro: peer_update_trans)
qed

lemma replicate_all_update:
  "\<lbrakk>replicate_all net k is (n, w, c) = Continues (n', w', c'); distinct is;
    \<forall>i \<in> set is. i < length (matchIndex n)\<rbrakk> \<Longrightarrow>
   peer_update (set is) n n' \<and> c' \<le> c + int (card {i \<in> set is. matchIndex n' ! i = k})"
proof (induction "is" arbitrary: n w c)
  case Nil
  then show ?case by (auto simp: peer_update_refl)
next
  case (Cons i js)
  obtain n1 w1 c1 where r: "replicate_to net k i (n, w, c) = Continues (n1, w1, c1)"
    using Cons.prems(1) by (cases "replicate_to net k i (n, w, c)") auto
  have one: "peer_update {i} n n1" "c1 = c \<or> c1 = c + 1 \<and> matchIndex n1 ! i = k"
    using replicate_to_update [OF r] Cons.prems(3) by auto
  have rest: "peer_update (set js) n1 n'"
    "c' \<le> c1 + int (card {i \<in> set js. matchIndex n' ! i = k})"
    using Cons.IH [of n1 w1 c1] Cons.prems r peer_update_fields(14) [OF one(1)] by auto
  have "peer_update (set (i # js)) n n'"
    by (rule peer_update_trans [of _ n n1]; rule peer_update_mono)
      (use one(1) rest(1) in auto)
  moreover have "matchIndex n' ! i = matchIndex n1 ! i"
    using peer_update_fields(15) [OF rest(1), of i] Cons.prems(2) by simp
  moreover have "card {j \<in> set (i # js). matchIndex n' ! j = k} =
      card {j \<in> set js. matchIndex n' ! j = k} + (if matchIndex n' ! i = k then 1 else 0)"
  proof (cases "matchIndex n' ! i = k")
    case True
    then have "{j \<in> set (i # js). matchIndex n' ! j = k} =
        insert i {j \<in> set js. matchIndex n' ! j = k}" by auto
    then show ?thesis using Cons.prems(2) True by simp
  next
    case False
    then have "{j \<in> set (i # js). matchIndex n' ! j = k} =
        {j \<in> set js. matchIndex n' ! j = k}" by auto
    then show ?thesis using False by simp
  qed
  ultimately show ?case using one(2) rest(2) by auto
qed

text \<open>However the round ends, the log keeps the entry and the client table is untouched.\<close>

lemma step_down_fields [simp]:
  "log (step_down t n) = log n" "clientLastRequest (step_down t n) = clientLastRequest n"
  "clientResultCache (step_down t n) = clientResultCache n"
  "latestSnapshot (step_down t n) = latestSnapshot n" "currentTerm (step_down t n) = t"
  "state (step_down t n) = FOLLOWER" "votedFor (step_down t n) = - 1"
  "request_balance (metrics (step_down t n)) = request_balance (metrics n)"
  by (simp_all add: step_down_def persistMetadata_def)

definition same_tables :: "RaftNode \<Rightarrow> RaftNode \<Rightarrow> bool" where
  "same_tables n n' \<longleftrightarrow>
     log n' = log n \<and> latestSnapshot n' = latestSnapshot n \<and>
     clientLastRequest n' = clientLastRequest n \<and> clientResultCache n' = clientResultCache n \<and>
     request_balance (metrics n') = request_balance (metrics n)"

lemma same_tables_trans: "same_tables a b \<Longrightarrow> same_tables b c \<Longrightarrow> same_tables a c"
  by (simp add: same_tables_def)

lemma peer_update_tables: "peer_update I n n' \<Longrightarrow> same_tables n n'"
  using peer_update_fields [of I n n'] by (simp add: same_tables_def)

lemma client_reply_tables: "same_tables n (fst (result_of (client_reply net k i reply (n, w, c))))"
proof (cases "\<exists>resp. reply = Reply resp")
  case False
  then show ?thesis by (cases reply) (simp_all add: client_reply_def same_tables_def)
next
  case True
  then obtain resp where resp: "reply = Reply resp" by blast
  have "same_tables n (fst (result_of (after_refusal net i (n, w, c))))"
    using after_refusal_update(1) [OF refl] by (rule peer_update_tables)
  then show ?thesis
    by (simp add: client_reply_def resp same_tables_def)
qed

lemma replicate_to_tables: "same_tables (fst q) (fst (result_of (replicate_to net k i q)))"
proof -
  obtain n w c where q: "q = (n, w, c)" by (metis prod_cases3)
  let ?m = "n\<lparr>metrics := (metrics n)\<lparr>appendEntriesSent := appendEntriesSent (metrics n) + 1\<rparr>\<rparr>"
  have "same_tables n ?m" by (simp add: same_tables_def)
  then have "same_tables n (fst (result_of (client_reply net k i reply (?m, w', c))))" for reply w'
    using client_reply_tables by (rule same_tables_trans)
  moreover have "same_tables n n" by (simp add: same_tables_def)
  ultimately show ?thesis
    unfolding q replicate_to_def prod.case fst_conv
    by (cases "shutdownRequested n") (simp_all split: prod.split)
qed

lemma replicate_all_tables: "same_tables (fst q) (fst (result_of (replicate_all net k is q)))"
proof (induction "is" arbitrary: q)
  case Nil
  then show ?case by (simp add: same_tables_def)
next
  case (Cons i js)
  note step = replicate_to_tables [of q net k i]
  show ?case
  proof (cases "replicate_to net k i q")
    case (Continues q')
    then have "same_tables (fst q) (fst q')" using step by simp
    then show ?thesis using Cons.IH [of q'] Continues by (auto intro: same_tables_trans)
  qed (use step in simp_all)
qed

section \<open>Commit\<close>

lemma truncateLogSafe_only_log: "\<exists>l. truncateLogSafe k n = n\<lparr>log := l\<rparr>"
  by (auto simp: truncateLogSafe_def Let_def intro: exI [of _ "log n"])

lemma take_snapshot_frame:
  assumes "take_snapshot n s = (n', s', r)"
  shows "matchIndex n' = matchIndex n" "clientLastRequest n' = clientLastRequest n"
    and "clientResultCache n' = clientResultCache n" "state n' = state n"
    and "shutdownRequested n' = shutdownRequested n" "mp s' = mp s"
    and "peerRpcPorts n' = peerRpcPorts n" "commitIndex n' = commitIndex n"
    and "metrics n' = metrics n"
proof -
  obtain l where l: "truncateLogSafe (lastApplied n) (saveSnapshot \<lparr>lastIncludedIndex = lastApplied n,
      lastIncludedTerm = getLogTerm (lastApplied n) n, kvState = dumpToMap s\<rparr> n) =
    (saveSnapshot \<lparr>lastIncludedIndex = lastApplied n,
      lastIncludedTerm = getLogTerm (lastApplied n) n, kvState = dumpToMap s\<rparr> n)\<lparr>log := l\<rparr>"
    using truncateLogSafe_only_log by blast
  then show "matchIndex n' = matchIndex n" "clientLastRequest n' = clientLastRequest n"
    and "clientResultCache n' = clientResultCache n" "state n' = state n"
    and "shutdownRequested n' = shutdownRequested n" "mp s' = mp s"
    and "peerRpcPorts n' = peerRpcPorts n" "commitIndex n' = commitIndex n"
    and "metrics n' = metrics n"
    using assms
    by (auto simp: take_snapshot_def Let_def saveSnapshot_def persistMetadata_def
        writeAheadLog_truncate_def split: prod.splits option.splits)
qed

lemma commit_and_apply_answers:
  assumes "commit_and_apply clientId requestId k n s = Answers (n', s') a"
    and "\<not> shutdownRequested n"
  shows "clientLastRequest n' = (clientLastRequest n)(clientId \<mapsto> requestId)"
    and "clientResultCache n' = (clientResultCache n)(clientId \<mapsto> a)"
    and "state n' = state n" "\<not> shutdownRequested n'" "matchIndex n' = matchIndex n"
    and "commitIndex n' = k" "peerRpcPorts n' = peerRpcPorts n"
    and "a = snd (run_commands n (pending_commands (n\<lparr>commitIndex := k\<rparr>)) (s, []))"
    and "mp s' = mp (fst (run_commands n (pending_commands (n\<lparr>commitIndex := k\<rparr>)) (s, [])))"
proof -
  let ?n = "n\<lparr>commitIndex := k\<rparr>"
  let ?m = "?n\<lparr>lastApplied := max (lastApplied n) k\<rparr>"
  let ?run = "run_commands n (pending_commands ?n) (s, [])"
  have loop: "apply_loop True ?n s [] = (?m, fst ?run, snd ?run)"
    using apply_loop_correct [of ?n True s "[]"] assms(2) run_commands_cong [of ?n n] by simp
  obtain n1 s1 r where snap: "(if int (length (log ?m)) \<ge> SNAPSHOT_THRESHOLD
      then take_snapshot ?m (fst ?run) else (?m, fst ?run, None)) = (n1, s1, r)"
    by (metis prod_cases3)
  have frame: "matchIndex n1 = matchIndex n" "clientLastRequest n1 = clientLastRequest n"
    "clientResultCache n1 = clientResultCache n" "state n1 = state n"
    "shutdownRequested n1 = shutdownRequested n" "mp s1 = mp (fst ?run)"
    "peerRpcPorts n1 = peerRpcPorts n" "commitIndex n1 = k"
    using snap take_snapshot_frame [of ?m "fst ?run" n1 s1 r] by (auto split: if_splits)
  let ?last = "n1\<lparr>clientLastRequest := (clientLastRequest n1)(clientId \<mapsto> requestId),
      clientResultCache := (clientResultCache n1)(clientId \<mapsto> snd ?run)\<rparr>"
  have eq: "n' = persistMetadata ?last" "s' = s1" "a = snd ?run"
    using assms(1) unfolding commit_and_apply_def loop prod.case snap
    by (cases r; simp)+
  show "clientLastRequest n' = (clientLastRequest n)(clientId \<mapsto> requestId)"
    and "clientResultCache n' = (clientResultCache n)(clientId \<mapsto> a)"
    and "state n' = state n" "\<not> shutdownRequested n'" "matchIndex n' = matchIndex n"
    and "commitIndex n' = k" "peerRpcPorts n' = peerRpcPorts n"
    and "a = snd ?run" and "mp s' = mp (fst ?run)"
    using assms(2) frame by (simp_all add: eq persistMetadata_def)
qed

section \<open>The handler as a whole\<close>

text \<open>The node after the append, which every later step works on.\<close>

abbreviation appended :: "string \<Rightarrow> string \<Rightarrow> string \<Rightarrow> RaftNode \<Rightarrow> RaftNode" where
  "appended command key val n \<equiv> append_command (sendCommand command key val) n"

abbreviation client_round ::
  "'p network \<Rightarrow> string \<Rightarrow> string \<Rightarrow> string \<Rightarrow> RaftNode \<Rightarrow> 'p \<times> KVStore \<Rightarrow>
   (RaftNode \<times> ('p \<times> KVStore) \<times> int) client_result" where
  "client_round net command key val n w \<equiv>
     replicate_all net (getLogSize n) [0..<length (peerRpcPorts n)]
       (appended command key val n, w, 1)"

lemma append_command_fields [simp]:
  "clientLastRequest (append_command c n) = clientLastRequest n"
  "clientResultCache (append_command c n) = clientResultCache n"
  "state (append_command c n) = state n" "currentTerm (append_command c n) = currentTerm n"
  "shutdownRequested (append_command c n) = shutdownRequested n"
  "matchIndex (append_command c n) = matchIndex n"
  "peerRpcPorts (append_command c n) = peerRpcPorts n"
  "latestSnapshot (append_command c n) = latestSnapshot n"
  "lastApplied (append_command c n) = lastApplied n"
  "commitIndex (append_command c n) = commitIndex n" "mtxHeld (append_command c n) = mtxHeld n"
  by (simp_all add: append_command_def)

lemma append_command_view:
  "entry_at (append_command c n) (getLogSize n) =
    Some \<lparr>entry_term = currentTerm n, entry_index = getLogSize n, entry_command = c\<rparr>"
  "getLogSize (append_command c n) = getLogSize n + 1"
  by (simp_all add: append_command_def entry_at_def log_position_base getLogSize_def
      base_index_def Let_def)

text \<open>
  An answer that changed the client table went through the commit block, with a count that is a
  majority.
\<close>

lemma handle_committed:
  assumes "client_guard cid rid n = None"
    and "handleClientCommand net cid rid command key val (n, w) = Answers (n', w') a"
    and "clientLastRequest n' cid = Some rid"
  obtains n1 p1 s1 c where
    "client_round net command key val n w = Continues (n1, (p1, s1), c)"
    "commit_and_apply cid rid (getLogSize n) n1 s1 = Answers (n', snd w') a"
    "c > int ((length (peerRpcPorts n1) + 1) div 2)" "\<not> shutdownRequested n1"
    "getLogTerm (getLogSize n) n1 = currentTerm n1" "fst w' = p1"
proof -
  let ?round = "client_round net command key val n w"
  have fresh: "clientLastRequest n cid \<noteq> Some rid"
    using assms(1) by (auto simp: client_guard_def split: if_splits)
  have same: "clientLastRequest (fst (result_of ?round)) = clientLastRequest n"
    using replicate_all_tables [of "(appended command key val n, w, 1)" net "getLogSize n"
        "[0..<length (peerRpcPorts n)]"]
    by (simp add: same_tables_def)
  have free: "\<not> mtxHeld n"
    using assms(1,2) by (auto simp: handleClientCommand_def)
  note h = assms(2) [unfolded handleClientCommand_def prod.case assms(1) option.case Let_def
      if_not_P [OF free]]
  show thesis
  proof (cases ?round)
    case (Continues q)
    obtain n1 p1 s1 c where q: "q = (n1, (p1, s1), c)" by (metis prod.exhaust)
    then have same1: "clientLastRequest n1 = clientLastRequest n" using same Continues by simp
    show thesis
    proof (cases "\<not> shutdownRequested n1 \<and> \<not> mtxHeld n1 \<and>
        getLogTerm (getLogSize n) n1 = currentTerm n1 \<and>
        c > int ((length (peerRpcPorts n1) + 1) div 2)")
      case True
      then have "commit_command cid rid (getLogSize n) c n1 s1 =
          commit_and_apply cid rid (getLogSize n) n1 s1"
        by (simp add: commit_command_def)
      then have "commit_and_apply cid rid (getLogSize n) n1 s1 = Answers (n', snd w') a \<and> fst w' = p1"
        using h Continues q
        by (cases "commit_and_apply cid rid (getLogSize n) n1 s1") (auto split: prod.splits)
      then show thesis using that [OF _ _ _ _ _] True Continues q by blast
    next
      case False
      then have "n' = n1"
        using h Continues q by (auto simp: commit_command_def split: if_splits)
      then show thesis using same1 fresh assms(3) by simp
    qed
  next
    case (Answers q b)
    then have "n' = fst q" using h by (cases q) simp
    then show thesis using same fresh assms(3) Answers by simp
  qed (use h in \<open>auto split: prod.splits\<close>)
qed

lemma client_round_update:
  assumes "client_round net command key val n w = Continues (n1, w1, c)"
    and "length (matchIndex n) = length (peerRpcPorts n)"
  shows "peer_update {0..<length (peerRpcPorts n)} (appended command key val n) n1"
    and "c \<le> 1 + int (card {i. i < length (peerRpcPorts n) \<and> matchIndex n1 ! i = getLogSize n})"
proof -
  have "{i \<in> set [0..<length (peerRpcPorts n)]. matchIndex n1 ! i = getLogSize n} =
      {i. i < length (peerRpcPorts n) \<and> matchIndex n1 ! i = getLogSize n}" by auto
  then show "peer_update {0..<length (peerRpcPorts n)} (appended command key val n) n1"
    and "c \<le> 1 + int (card {i. i < length (peerRpcPorts n) \<and> matchIndex n1 ! i = getLogSize n})"
    using replicate_all_update [OF assms(1)] assms(2) by simp_all
qed

lemma client_commit_majority:
  assumes "client_guard cid rid n = None" "length (matchIndex n) = length (peerRpcPorts n)"
    and "handleClientCommand net cid rid command key val (n, w) = Answers (n', w') a"
    and "clientLastRequest n' cid = Some rid"
  shows "length (peerRpcPorts n) + 1 <
      2 * (card {i. i < length (peerRpcPorts n) \<and> matchIndex n' ! i = getLogSize n} + 1)"
    and "commitIndex n' = getLogSize n"
proof -
  obtain n1 p1 s1 c where c: "client_round net command key val n w = Continues (n1, (p1, s1), c)"
    "commit_and_apply cid rid (getLogSize n) n1 s1 = Answers (n', snd w') a"
    "c > int ((length (peerRpcPorts n1) + 1) div 2)" "\<not> shutdownRequested n1"
    by (rule handle_committed [OF assms(1,3,4)])
  note up = client_round_update [OF c(1) assms(2)]
  note fin = commit_and_apply_answers [OF c(2,4)]
  have "peerRpcPorts n1 = peerRpcPorts n" using peer_update_fields(6) [OF up(1)] by simp
  then have "(length (peerRpcPorts n) + 1) div 2 <
      card {i. i < length (peerRpcPorts n) \<and> matchIndex n' ! i = getLogSize n} + 1"
    using up(2) c(3) fin(5) by simp
  then show "length (peerRpcPorts n) + 1 <
      2 * (card {i. i < length (peerRpcPorts n) \<and> matchIndex n' ! i = getLogSize n} + 1)"
    by (simp add: div_less_iff_less_mult)
  show "commitIndex n' = getLogSize n" by (rule fin(6))
qed

lemma client_repeat:
  assumes "client_guard cid rid n = None" "length (matchIndex n) = length (peerRpcPorts n)"
    and "handleClientCommand net cid rid command key val (n, w) = Answers (n', w') a"
    and "clientLastRequest n' cid = Some rid"
  shows "handleClientCommand net' cid rid command' key' val' (n', w2) = Answers (n', w2) a"
proof -
  obtain n1 p1 s1 c where c: "client_round net command key val n w = Continues (n1, (p1, s1), c)"
    "commit_and_apply cid rid (getLogSize n) n1 s1 = Answers (n', snd w') a" "\<not> shutdownRequested n1"
    by (rule handle_committed [OF assms(1,3,4)])
  note up = peer_update_fields [OF client_round_update(1) [OF c(1) assms(2)]]
  note fin = commit_and_apply_answers [OF c(2,3)]
  have "state n = LEADER" using assms(1) by (auto simp: client_guard_def split: if_splits)
  then have "state n' = LEADER" using up(4) fin(3) by simp
  then have "client_guard cid rid n' = Some a"
    using fin(1,2,4) by (simp add: client_guard_def)
  then show ?thesis by (simp add: handleClientCommand_def)
qed

text \<open>
  With everything before the command applied, the answer is the reply of the state machine to this
  very command and its effect is in the store; what the peers did to the store is \<open>s1\<close>.
\<close>

lemma client_applies:
  assumes "client_guard cid rid n = None" "length (matchIndex n) = length (peerRpcPorts n)"
    and "handleClientCommand net cid rid command key val (n, w) = Answers (n', w') a"
    and "clientLastRequest n' cid = Some rid" "lastApplied n + 1 = getLogSize n"
  obtains s1 where "a = snd (applyToStateMachine n (sendCommand command key val) s1)"
    and "mp (snd w') = mp (fst (applyToStateMachine n (sendCommand command key val) s1))"
proof -
  let ?k = "getLogSize n"
  obtain n1 p1 s1 c where c: "client_round net command key val n w = Continues (n1, (p1, s1), c)"
    "commit_and_apply cid rid ?k n1 s1 = Answers (n', snd w') a" "\<not> shutdownRequested n1"
    by (rule handle_committed [OF assms(1,3,4)])
  note up = peer_update_fields [OF client_round_update(1) [OF c(1) assms(2)]]
  note fin = commit_and_apply_answers [OF c(2,3)]
  let ?n1 = "n1\<lparr>commitIndex := ?k\<rparr>"
  have "entry_at ?n1 ?k = entry_at (appended command key val n) ?k"
    using up(2,5) by (intro fun_cong [OF entry_at_cong]) simp_all
  moreover have "lastApplied ?n1 + 1 = ?k" using up(9) assms(5) by simp
  ultimately have "pending_commands ?n1 = [sendCommand command key val]"
    using getLogEntries_step [of ?k "?k + 1" ?n1] getLogEntries_empty [of "?k + 1" "?k + 1" ?n1]
    by (simp add: pending_commands_def append_command_view)
  moreover have "applyToStateMachine n1 = applyToStateMachine n"
    using up(1) by (intro apply_shutdown_only) simp
  ultimately show thesis using fin(8,9) that [of s1] by simp
qed

lemma client_put:
  assumes "client_guard cid rid n = None" "length (matchIndex n) = length (peerRpcPorts n)"
    and "handleClientCommand net cid rid ''PUT'' key val (n, w) = Answers (n', w') a"
    and "clientLastRequest n' cid = Some rid" "lastApplied n + 1 = getLogSize n"
    and "is_word key" "newline \<notin> set val"
  shows "a = ''OK''" "get key (snd w') = Some val"
proof -
  have "\<not> shutdownRequested n" using assms(1) by (auto simp: client_guard_def split: if_splits)
  note put = apply_sendCommand [OF is_word_verbs(1) assms(6,7) this]
  obtain s1 where "a = snd (applyToStateMachine n (sendCommand ''PUT'' key val) s1)"
    "mp (snd w') = mp (fst (applyToStateMachine n (sendCommand ''PUT'' key val) s1))"
    by (rule client_applies [OF assms(1-5)])
  then show "a = ''OK''" "get key (snd w') = Some val"
    by (simp_all add: put get_def put_def)
qed

text \<open>
  The entry with index 0 is never applied: a new node starts with \<open>lastApplied = 0\<close>, so the first
  command of a cluster is acknowledged with the empty string and has no effect.
\<close>

lemma first_command_not_applied:
  assumes "client_guard cid rid n = None" "length (matchIndex n) = length (peerRpcPorts n)"
    and "handleClientCommand net cid rid command key val (n, w) = Answers (n', w') a"
    and "clientLastRequest n' cid = Some rid" "getLogSize n \<le> lastApplied n"
  shows "a = []"
    and "\<exists>q n1 c. client_round net command key val n w = Continues (n1, q, c) \<and>
      mp (snd w') = mp (snd q)"
proof -
  let ?k = "getLogSize n"
  obtain n1 p1 s1 c where c: "client_round net command key val n w = Continues (n1, (p1, s1), c)"
    "commit_and_apply cid rid ?k n1 s1 = Answers (n', snd w') a" "\<not> shutdownRequested n1"
    by (rule handle_committed [OF assms(1,3,4)])
  note up = peer_update_fields [OF client_round_update(1) [OF c(1) assms(2)]]
  note fin = commit_and_apply_answers [OF c(2,3)]
  have "pending_commands (n1\<lparr>commitIndex := ?k\<rparr>) = []"
    using up(9) assms(5) by (simp add: pending_commands_def getLogEntries_empty)
  then show "a = []" "\<exists>q n1 c. client_round net command key val n w = Continues (n1, q, c) \<and>
      mp (snd w') = mp (snd q)"
    using fin(8,9) c(1) by auto
qed

section \<open>A run of the handler\<close>

text \<open>A network whose peers accept everything, and a leader with one applied entry.\<close>

definition agreeing_network :: "'p network" where
  "agreeing_network =
     \<lparr>dump_length = \<lambda>_. 0, stream_order = \<lambda>_. [],
      send_append = \<lambda>_ w m. (w, Reply \<lparr>aer_term = ae_term m, aer_success = True\<rparr>),
      send_install = \<lambda>_ w _. (w, No_Reply)\<rparr>"

definition demo_leader :: "logEntry list \<Rightarrow> RaftNode" where
  "demo_leader lg = demo_node\<lparr>currentTerm := 1, state := LEADER, log := lg\<rparr>"

lemmas demo_leader_defs = demo_leader_def demo_node_def RaftNode_new_def demo_entry_def

lemma agreeing_round_metrics:
  "\<exists>m. client_round agreeing_network c k v ((demo_leader lg)\<lparr>metrics := ms\<rparr>) w = Continues
    ((demo_leader lg)\<lparr>log := log (appended c k v ((demo_leader lg)\<lparr>metrics := ms\<rparr>)), metrics := m,
       nextIndex := [int (length lg) + 1, int (length lg) + 1],
       matchIndex := [int (length lg), int (length lg)]\<rparr>, w, 3)"
  by (simp add: demo_leader_defs agreeing_network_def append_command_def replicate_to_def
      client_message_def client_reply_def getLogSize_def base_index_def Let_def upt_rec)

lemma demo_leader_guard [simp]: "client_guard cid rid ((demo_leader lg)\<lparr>metrics := ms\<rparr>) = None"
  "client_guard cid rid (demo_leader lg) = None"
  by (simp_all add: client_guard_def demo_leader_defs)

lemma agreeing_answers_metrics:
  assumes "length lg < 2999"
  obtains n' w' a where "handleClientCommand agreeing_network cid rid c k v ((demo_leader lg)\<lparr>metrics := ms\<rparr>, w) =
      Answers (n', w') a" "clientLastRequest n' cid = Some rid"
proof -
  let ?L = "int (length lg)"
  obtain p s where w: "w = (p, s)" by (cases w) blast
  obtain m where r: "client_round agreeing_network c k v ((demo_leader lg)\<lparr>metrics := ms\<rparr>) w = Continues
    ((demo_leader lg)\<lparr>log := log (appended c k v ((demo_leader lg)\<lparr>metrics := ms\<rparr>)), metrics := m,
       nextIndex := [?L + 1, ?L + 1], matchIndex := [?L, ?L]\<rparr>, w, 3)"
    using agreeing_round_metrics by blast
  define n1 where "n1 = (demo_leader lg)\<lparr>log := log (appended c k v ((demo_leader lg)\<lparr>metrics := ms\<rparr>)), metrics := m,
       nextIndex := [?L + 1, ?L + 1], matchIndex := [?L, ?L]\<rparr>"
  have n1: "\<not> shutdownRequested n1" "\<not> mtxHeld n1" "getLogTerm ?L n1 = currentTerm n1"
    "length (peerRpcPorts n1) = 2" "length (log n1) = Suc (length lg)"
    by (simp_all add: n1_def demo_leader_defs append_command_def getLogTerm_def nth_append)
  obtain n2 s2 a where loop: "apply_loop True (n1\<lparr>commitIndex := ?L\<rparr>) s [] = (n2, s2, a)"
    using prod_cases3 by blast
  obtain j where "n2 = n1\<lparr>commitIndex := ?L, lastApplied := j\<rparr>"
    using apply_loop_fields [OF loop] by blast
  then have "log n2 = log n1" by simp
  then have com: "\<exists>n'. commit_command cid rid ?L 3 n1 s = Answers (n', s2) a \<and>
      clientLastRequest n' cid = Some rid"
    using n1 loop assms
    by (simp add: commit_command_def commit_and_apply_def SNAPSHOT_THRESHOLD_def persistMetadata_def)
  have free: "\<not> mtxHeld ((demo_leader lg)\<lparr>metrics := ms\<rparr>)" "getLogSize ((demo_leader lg)\<lparr>metrics := ms\<rparr>) = ?L"
    by (simp_all add: demo_leader_defs getLogSize_def base_index_def)
  obtain n' where "commit_command cid rid ?L 3 n1 s = Answers (n', s2) a"
    "clientLastRequest n' cid = Some rid" using com by blast
  then show thesis
    using that [of n' "(p, s2)" a] r free
    by (simp add: handleClientCommand_def demo_leader_guard Let_def w n1_def)
qed

lemma same_metrics: "n\<lparr>metrics := metrics n\<rparr> = (n :: RaftNode)"
  by simp

lemma agreeing_round:
  "\<exists>m. client_round agreeing_network c k v (demo_leader lg) w = Continues
    ((demo_leader lg)\<lparr>log := log (appended c k v (demo_leader lg)), metrics := m,
       nextIndex := [int (length lg) + 1, int (length lg) + 1],
       matchIndex := [int (length lg), int (length lg)]\<rparr>, w, 3)"
  by (rule agreeing_round_metrics [where ms = "metrics (demo_leader lg)" and lg = lg,
        unfolded same_metrics])

lemma agreeing_answers:
  assumes "length lg < 2999"
  obtains n' w' a where "handleClientCommand agreeing_network cid rid c k v (demo_leader lg, w) =
      Answers (n', w') a" "clientLastRequest n' cid = Some rid"
  by (rule agreeing_answers_metrics [OF assms, where ms = "metrics (demo_leader lg)",
        unfolded same_metrics])

lemma demo_leader_sizes [simp]:
  "length (matchIndex (demo_leader lg)) = length (peerRpcPorts (demo_leader lg))"
  "getLogSize (demo_leader lg) = int (length lg)" "lastApplied (demo_leader lg) = 0"
  by (simp_all add: demo_leader_defs getLogSize_def base_index_def)

section \<open>Properties\<close>

text \<open>
  C6: A command is acknowledged as committed only with a majority behind it: when
  \<open>handleClientCommand\<close> has recorded the request, \<open>matchIndex\<close> of more than half of the cluster
  (the leader included) is at the new entry and the commit index is that entry.
\<close>

theorem acknowledged_by_majority:
  assumes "client_guard cid rid n = None" "length (matchIndex n) = length (peerRpcPorts n)"
    and "handleClientCommand net cid rid command key val (n, w) = Answers (n', w') a"
    and "clientLastRequest n' cid = Some rid"
  shows "length (peerRpcPorts n) + 1 <
      2 * (card {i. i < length (peerRpcPorts n) \<and> matchIndex n' ! i = getLogSize n} + 1) \<and>
    commitIndex n' = getLogSize n"
  using client_commit_majority [OF assms] by blast

theorem acknowledged_by_majority_witness:
  "\<exists>n' w' a. handleClientCommand agreeing_network ''c'' 7 ''PUT'' ''k'' ''v''
      (demo_leader [demo_entry 1 0 ''GET x ''], ((), empty_store)) = Answers (n', w') a \<and>
    commitIndex n' = 1"
proof -
  let ?lg = "[demo_entry 1 0 ''GET x '']"
  obtain n' w' a where h: "handleClientCommand agreeing_network ''c'' 7 ''PUT'' ''k'' ''v''
      (demo_leader ?lg, ((), empty_store)) = Answers (n', w') a" "clientLastRequest n' ''c'' = Some 7"
    by (rule agreeing_answers [of ?lg "''c''" 7 "''PUT''" "''k''" "''v''" "((), empty_store)"]) simp_all
  then show ?thesis
    using acknowledged_by_majority [OF demo_leader_guard(2) demo_leader_sizes(1) h]
    by (intro exI [of _ n'] exI [of _ w'] exI [of _ a]) (simp del: demo_leader_sizes(1))
qed

text \<open>
  Exactly once: a client that repeats a request the leader has recorded gets the recorded
  answer, and nothing changes: no entry, no message, no effect on the store, whatever command the
  repetition carries.
\<close>

theorem repeated_request_cached:
  assumes "client_guard cid rid n = None" "length (matchIndex n) = length (peerRpcPorts n)"
    and "handleClientCommand net cid rid command key val (n, w) = Answers (n', w') a"
    and "clientLastRequest n' cid = Some rid"
  shows "handleClientCommand net' cid rid command' key' val' (n', w2) = Answers (n', w2) a"
  using assms by (rule client_repeat)

theorem repeated_request_cached_witness:
  "\<exists>n' w' a. handleClientCommand agreeing_network ''c'' 7 ''PUT'' ''k'' ''v''
      (demo_leader [demo_entry 1 0 ''GET x ''], ((), empty_store)) = Answers (n', w') a \<and>
    handleClientCommand agreeing_network ''c'' 7 ''DELETE'' ''k'' [] (n', w') = Answers (n', w') a"
proof -
  let ?lg = "[demo_entry 1 0 ''GET x '']"
  obtain n' w' a where h: "handleClientCommand agreeing_network ''c'' 7 ''PUT'' ''k'' ''v''
      (demo_leader ?lg, ((), empty_store)) = Answers (n', w') a" "clientLastRequest n' ''c'' = Some 7"
    by (rule agreeing_answers [of ?lg "''c''" 7 "''PUT''" "''k''" "''v''" "((), empty_store)"]) simp_all
  then show ?thesis
    using repeated_request_cached [OF demo_leader_guard(2) demo_leader_sizes(1) h] by blast
qed



text \<open>
  C33: The entry with index 0 is never applied, because a new node starts with \<open>lastApplied = 0\<close>:
  the first command of a cluster is committed and recorded, but its answer is the empty string and
  the store is what it was after the replication round.
\<close>

theorem first_command_lost:
  assumes "client_guard cid rid n = None" "length (matchIndex n) = length (peerRpcPorts n)"
    and "handleClientCommand net cid rid command key val (n, w) = Answers (n', w') a"
    and "clientLastRequest n' cid = Some rid" "log n = []" "latestSnapshot n = None"
    and "lastApplied n = 0"
  shows "a = [] \<and> (\<exists>q n1 c. client_round net command key val n w = Continues (n1, q, c) \<and>
      mp (snd w') = mp (snd q))"
  using first_command_not_applied [OF assms(1-4)] assms(5-7)
  by (simp add: getLogSize_def base_index_def)

theorem first_command_lost_witness:
  "\<exists>n' w'. handleClientCommand agreeing_network ''c'' 1 ''PUT'' ''k'' ''v''
      (demo_leader [], ((), empty_store)) = Answers (n', w') [] \<and> get ''k'' (snd w') = None"
proof -
  obtain n' w' a where h: "handleClientCommand agreeing_network ''c'' 1 ''PUT'' ''k'' ''v''
      (demo_leader [], ((), empty_store)) = Answers (n', w') a" "clientLastRequest n' ''c'' = Some 1"
    by (rule agreeing_answers [of "[]" "''c''" 1 "''PUT''" "''k''" "''v''" "((), empty_store)"]) simp_all
  note r = agreeing_round [where c = "''PUT''" and k = "''k''" and v = "''v''" and lg = "[]" and
      w = "((), empty_store)"]
  have "a = []" "mp (snd w') = mp empty_store"
    using first_command_lost [OF demo_leader_guard(2) demo_leader_sizes(1) h] r
    by (auto simp: demo_leader_defs)
  then show ?thesis
    using h(1) by (intro exI [of _ n'] exI [of _ w']) (simp add: get_def empty_store_def)
qed

end
