(* ===== verification/Rpc_Server.thy ===== *)
theory Rpc_Server
  imports Json Client_Facts
begin

text \<open>
  \<open>handle_node_client\<close> of \<open>rpc_server.cpp\<close>: one request of a connection, from the bytes received
  to the JSON sent back.  The state is the node, with the rest of the process as in \<open>Client\<close>: the
  peers and the shared store.
\<close>

section \<open>What a handler thread can end in\<close>

datatype rpc_outcome =
    Responds json      \<comment> \<open>the response is sent and the connection closed\<close>
  | No_Response        \<comment> \<open>the thread waits for a mutex for ever\<close>
  | Closed             \<comment> \<open>the connection is closed without an answer\<close>
  | Crashed            \<comment> \<open>undefined behaviour or a division by zero: the process is gone\<close>

section \<open>AppendEntries on a batch that does not decode\<close>

text \<open>
  Entries are decoded one by one inside the loop.  If one does not decode, the entries before it
  are in the log already, and the exception leaves the handler before \<open>persistMetadata\<close>; if the
  first entry is present the rest is never looked at.
\<close>

definition first_matches :: "logEntry \<Rightarrow> AppendEntriesRPC \<Rightarrow> RaftNode \<Rightarrow> bool" where
  "first_matches e r n \<longleftrightarrow>
     (let logInsertIndex = log_position n (ae_prevLogIndex r + 1)
      in 0 \<le> logInsertIndex \<and> logInsertIndex < int (length (log n)) \<and>
         entry_term (log n ! nat logInsertIndex) = entry_term e)"

definition accept_malformed ::
  "int \<Rightarrow> nat \<Rightarrow> AppendEntriesRPC \<Rightarrow> RaftNode \<Rightarrow> KVStore \<Rightarrow> RaftNode \<times> KVStore \<times> append_reply"
  where
  "accept_malformed now rnd r n s =
     (case (if ae_term r > currentTerm n \<or> state n = CANDIDATE
            then becomeFollower (ae_term r) n else Some n) of
        None \<Rightarrow> (n, s, AE_Hangs)
      | Some n \<Rightarrow>
          (let n = n\<lparr>lastHeartbeat := now, electionTimeout := 2000 + int (rnd mod 2000),
                     leaderId := ae_leaderId r\<rparr>
           in if \<not> consistency_check r n
              then (persistMetadata n, s,
                    AE_Reply \<lparr>aer_term = currentTerm n, aer_success = False\<rparr>)
              else (append_entries r n, s, AE_Error)))"

definition handle_malformed ::
  "int \<Rightarrow> nat \<Rightarrow> AppendEntriesRPC \<Rightarrow> RaftNode \<Rightarrow> KVStore \<Rightarrow> RaftNode \<times> KVStore \<times> append_reply"
  where
  "handle_malformed now rnd r n s =
     (let n = n\<lparr>metrics := (metrics n)\<lparr>appendEntriesReceived :=
                 appendEntriesReceived (metrics n) + 1\<rparr>\<rparr>
      in if mtxHeld n then (n, s, AE_Hangs)
         else
           (let n = n\<lparr>mtxHeld := True\<rparr>
            in if receivingSnapshot n \<and> snapshotLeaderId n = ae_leaderId r
               then (release n, s, AE_Null)
               else if ae_term r < currentTerm n
               then (release n, s,
                     AE_Reply \<lparr>aer_term = currentTerm n, aer_success = False\<rparr>)
               else
                 (case accept_malformed now rnd r n s of
                    (n, s, AE_Hangs) \<Rightarrow> (n, s, AE_Hangs)
                  | (n, s, reply) \<Rightarrow> (release n, s, reply))))"

text \<open>\<open>entries[0]\<close> needs an array; a range-based \<open>for\<close> does not.\<close>

definition handle_AppendEntries_json ::
  "int \<Rightarrow> nat \<Rightarrow> AppendEntriesRPC \<Rightarrow> json \<Rightarrow> RaftNode \<Rightarrow> KVStore \<Rightarrow>
   RaftNode \<times> KVStore \<times> append_reply" where
  "handle_AppendEntries_json now rnd r entries n s =
     (case decode_entries (json_elems entries) of
        (es, ok) \<Rightarrow>
          (let r = r\<lparr>ae_entries := es\<rparr>
           in case (es, entries) of
                ([], _) \<Rightarrow> if ok then handle_AppendEntries now rnd r n s
                          else handle_malformed now rnd r n s
              | (e # _, JArray _) \<Rightarrow>
                  if ok \<or> first_matches e r n then handle_AppendEntries now rnd r n s
                  else handle_malformed now rnd r n s
              | (e # _, _) \<Rightarrow>
                  if 0 \<le> log_position n (ae_prevLogIndex r + 1) \<and>
                     log_position n (ae_prevLogIndex r + 1) < int (length (log n))
                  then handle_malformed now rnd (r\<lparr>ae_entries := []\<rparr>) n s
                  else if ok then handle_AppendEntries now rnd r n s
                  else handle_malformed now rnd r n s))"

definition append_reply_outcome :: "append_reply \<Rightarrow> rpc_outcome" where
  "append_reply_outcome r =
     (case r of AE_Reply resp \<Rightarrow> Responds (append_response_json resp) | AE_Null \<Rightarrow> Responds JNull
      | AE_Error \<Rightarrow> Responds invalid_json | AE_Hangs \<Rightarrow> No_Response)"

section \<open>Client requests\<close>

record client_request =
  cr_command :: string
  cr_key :: string
  cr_value :: string
  cr_clientId :: string
  cr_requestId :: int

definition read_ClientRequest :: "json \<Rightarrow> cpp_exn + client_request" where
  "read_ClientRequest j =
     and_then (json_value get_string j ''command'' []) (\<lambda>c.
     and_then (json_value get_string j ''key'' []) (\<lambda>k.
     and_then (json_value get_string j ''value'' []) (\<lambda>v.
     and_then (json_value get_string j ''clientId'' []) (\<lambda>i.
     and_then (json_value get_int j ''requestId'' 0) (\<lambda>r.
       Inr \<lparr>cr_command = c, cr_key = k, cr_value = v, cr_clientId = i, cr_requestId = r\<rparr>)))))"

definition status_ok :: "(string \<times> json) list \<Rightarrow> json" where
  "status_ok ms = JObject ((''status'', JString ''OK'') # ms)"

definition status_error :: "string \<Rightarrow> json" where
  "status_error msg = JObject [(''status'', JString ''error''), (''msg'', JString msg)]"

definition count_succeeded :: "RaftNode \<Rightarrow> RaftNode" where
  "count_succeeded n = n\<lparr>metrics := (metrics n)\<lparr>clientRequestsSucceeded :=
     clientRequestsSucceeded (metrics n) + 1\<rparr>\<rparr>"

definition count_failed :: "RaftNode \<Rightarrow> RaftNode" where
  "count_failed n = n\<lparr>metrics := (metrics n)\<lparr>clientRequestsFailed :=
     clientRequestsFailed (metrics n) + 1\<rparr>\<rparr>"

text \<open>The three-way reading of \<open>handleClientCommand\<close>'s result.\<close>

definition client_response :: "string \<Rightarrow> string \<Rightarrow> RaftNode \<Rightarrow> RaftNode \<times> json" where
  "client_response command result n =
     (if result = ''OK'' then (count_succeeded n, status_ok [])
      else if result = ''key not found'' then (count_failed n, status_error result)
      else if command = ''GET''
      then (count_succeeded n, status_ok [(''value'', JString result)])
      else (count_failed n, status_error result))"

definition handle_ClientRequest ::
  "'p network \<Rightarrow> client_request \<Rightarrow> RaftNode \<times> ('p \<times> KVStore) \<Rightarrow>
   (RaftNode \<times> ('p \<times> KVStore)) \<times> rpc_outcome" where
  "handle_ClientRequest net c q =
     (case q of (n, w) \<Rightarrow>
        let n = n\<lparr>metrics := (metrics n)\<lparr>clientRequestsReceived :=
                    clientRequestsReceived (metrics n) + 1\<rparr>\<rparr>
        in if state n \<noteq> LEADER
           then
             ((n\<lparr>metrics := (metrics n)\<lparr>clientRequestsRedirected :=
                    clientRequestsRedirected (metrics n) + 1\<rparr>\<rparr>, w),
              Responds (JObject [(''status'', JString ''redirect''),
                                 (''leaderId'', JInt (leaderId n))]))
           else
             (case handleClientCommand net (cr_clientId c) (cr_requestId c) (cr_command c)
                     (cr_key c) (cr_value c) (n, w) of
                Answers (n, w) result \<Rightarrow>
                  (case client_response (cr_command c) result n of
                     (n, j) \<Rightarrow> ((n, w), Responds j))
              | Throws q e \<Rightarrow> (q, Responds invalid_json)
              | Waits q \<Rightarrow> (q, No_Response)
              | Crashes q \<Rightarrow> (q, Crashed)
              | Continues q \<Rightarrow> (q, No_Response)))"

section \<open>Reports\<close>

definition Metrics_toJson :: "int \<Rightarrow> Metrics \<Rightarrow> (string \<times> json) list" where
  "Metrics_toJson now m =
     [(''raft_state'', JObject
         [(''term'', JInt (m_currentTerm m)), (''role'', JString (m_role m)),
          (''voted_for'', JInt (m_votedFor m)), (''leader_id'', JInt (m_leaderId m))]),
      (''log_state'', JObject
         [(''log_size'', JInt (m_logSize m)), (''commit_index'', JInt (m_commitIndex m)),
          (''last_applied'', JInt (m_lastApplied m))]),
      (''snapshots'', JObject
         [(''count'', JInt (snapshotCount m)), (''last_index'', JInt (lastSnapshotIndex m)),
          (''last_term'', JInt (lastSnapshotTerm m))]),
      (''elections'', JObject
         [(''election_count'', JInt (electionCount m)),
          (''leader_changes'', JInt (leaderChanges m)),
          (''votes_received'', JInt (votesReceived m))]),
      (''rpcs'', JObject
         [(''append_entries_sent'', JInt (appendEntriesSent m)),
          (''append_entries_received'', JInt (appendEntriesReceived m)),
          (''request_votes_sent'', JInt (requestVotesSent m)),
          (''request_votes_received'', JInt (requestVotesReceived m)),
          (''install_snapshots_sent'', JInt (installSnapshotsSent m)),
          (''install_snapshots_received'', JInt (installSnapshotsReceived m))]),
      (''client_requests'', JObject
         [(''received'', JInt (clientRequestsReceived m)),
          (''succeeded'', JInt (clientRequestsSucceeded m)),
          (''failed'', JInt (clientRequestsFailed m)),
          (''redirected'', JInt (clientRequestsRedirected m))]),
      (''performance'', JObject
         [(''total_processing_time_ms'', JInt (totalProcessingTimeMs m)),
          (''avg_response_time_ms'', JInt (avgResponseTimeMs m))]),
      (''uptime_seconds'', JInt (getUptimeSeconds now m))]"

definition status_json :: "node_status \<Rightarrow> (string \<times> json) list" where
  "status_json st =
     [(''node_id'', JInt (st_node_id st)), (''term'', JInt (st_term st)),
      (''role'', JString (st_role st)), (''leader_id'', JInt (st_leader_id st)),
      (''commit_index'', JInt (st_commit_index st)),
      (''last_applied'', JInt (st_last_applied st)), (''log_size'', JInt (st_log_size st)),
      (''voted_for'', JInt (st_voted_for st)),
      (''snapshot_count'', JInt (st_snapshot_count st)),
      (''last_snapshot_index'', JInt (st_last_snapshot_index st))]"

definition handle_STATUS :: "RaftNode \<Rightarrow> RaftNode \<times> json" where
  "handle_STATUS n = (case getStatus n of (n, st) \<Rightarrow> (n, status_ok (status_json st)))"

definition handle_METRICS :: "int \<Rightarrow> RaftNode \<Rightarrow> RaftNode \<times> json" where
  "handle_METRICS now n =
     (let n = updateLogMetrics n in (n, status_ok (Metrics_toJson now (metrics n))))"

definition handle_LOGSIZE :: "RaftNode \<Rightarrow> json" where
  "handle_LOGSIZE n =
     status_ok
       [(''total_log_size'', JInt (getLogSize n)),
        (''physical_log_size'', JInt (int (length (log n)))),
        (''snapshot_index'',
           JInt (case latestSnapshot n of Some sn \<Rightarrow> lastIncludedIndex sn | None \<Rightarrow> 0)),
        (''commit_index'', JInt (commitIndex n)), (''last_applied'', JInt (lastApplied n))]"

definition handle_SNAPSHOT_NOW :: "RaftNode \<Rightarrow> KVStore \<Rightarrow> RaftNode \<times> KVStore \<times> rpc_outcome" where
  "handle_SNAPSHOT_NOW n s =
     (case triggerSnapshot n s of
        None \<Rightarrow> (n, s, No_Response)
      | Some (n, s, success) \<Rightarrow>
          (n, s,
           if success
           then
             (case latestSnapshot n of
                None \<Rightarrow> Crashed
              | Some sn \<Rightarrow>
                  Responds (status_ok
                    [(''message'', JString ''Snapshot created successfully''),
                     (''snapshot_index'', JInt (lastIncludedIndex sn)),
                     (''snapshot_term'', JInt (lastIncludedTerm sn))]))
           else
             Responds (JObject
               [(''status'', JString ''error''),
                (''message'', JString ''Failed to create snapshot (log may be empty)'')])))"

text \<open>The last \<open>count\<close> entries of the vector.\<close>

definition recent_logs :: "int \<Rightarrow> RaftNode \<Rightarrow> logEntry list" where
  "recent_logs count n = drop (nat (max 0 (int (length (log n)) - count))) (log n)"

definition handle_GET_LOGS :: "json \<Rightarrow> RaftNode \<Rightarrow> cpp_exn + json" where
  "handle_GET_LOGS j n =
     and_then (json_value get_int j ''count'' 10) (\<lambda>count.
       Inr (status_ok
         [(''logs'', JArray (map (\<lambda>e. JObject
             [(''index'', JInt (entry_index e)), (''term'', JInt (entry_term e)),
              (''command'', JString (entry_command e))]) (recent_logs count n))),
          (''total_count'', JInt (int (length (log n)))),
          (''returned_count'', JInt (int (length (recent_logs count n))))]))"

definition handle_CLUSTER_INFO :: "RaftNode \<Rightarrow> json" where
  "handle_CLUSTER_INFO n =
     status_ok
       [(''current_node_id'', JInt (node_id n)),
        (''cluster_size'', JInt (int (length (peerRpcPorts n)))),
        (''nodes'', JArray (map (\<lambda>i. JObject
           [(''node_id'', JInt (int i)), (''port'', JInt (peerRpcPorts n ! i)),
            (''next_index'', JInt (if i < length (nextIndex n) then nextIndex n ! i else - 1)),
            (''match_index'', JInt (if i < length (matchIndex n) then matchIndex n ! i else - 1))])
           [0..<length (peerRpcPorts n)])),
        (''leader_id'', JInt (leaderId n))]"

section \<open>The dispatcher\<close>

text \<open>
  What a handler reads from outside the node: the network, the allocator, the contents of
  uninitialised memory, the clock in milliseconds and \<open>rand()\<close>.
\<close>

record 'p rpc_env =
  env_net :: "'p network"
  env_alloc :: "nat \<Rightarrow> bool"
  env_junk :: "bytes \<times> bytes"
  env_now :: int
  env_rnd :: nat

text \<open>The \<open>InstallSnapshot\<close> branch has an exception handler of its own.\<close>

definition handle_InstallSnapshot_json ::
  "'p rpc_env \<Rightarrow> json \<Rightarrow> RaftNode \<times> KVStore \<Rightarrow> (RaftNode \<times> KVStore) \<times> rpc_outcome" where
  "handle_InstallSnapshot_json env j q =
     (case read_chunk j of
        Inl e \<Rightarrow>
          (q, Responds (install_reply_json
                \<lparr>isr_term = currentTerm (fst q), isr_success = False,
                 isr_error = ''handler_failed''\<rparr>))
      | Inr r \<Rightarrow>
          (case handle_InstallSnapshot (env_alloc env) (env_junk env) r q of
             (q, IS_Reply resp) \<Rightarrow> (q, Responds (install_reply_json resp))
           | (q, IS_Hangs) \<Rightarrow> (q, No_Response)
           | (q, IS_Undefined) \<Rightarrow> (q, Crashed)))"

definition handle_request ::
  "'p rpc_env \<Rightarrow> json \<Rightarrow> RaftNode \<times> ('p \<times> KVStore) \<Rightarrow>
   (RaftNode \<times> ('p \<times> KVStore)) \<times> rpc_outcome" where
  "handle_request env j q =
     (case q of (n, (p, s)) \<Rightarrow>
      case and_then (json_member j ''rpc'') get_string of
        Inl e \<Rightarrow> (q, Responds invalid_json)
      | Inr rpcType \<Rightarrow>
          if rpcType = ''RequestVote''
          then
            (case read_RequestVote j of
               Inl e \<Rightarrow> (q, Responds invalid_json)
             | Inr r \<Rightarrow>
                 (case handle_RequestVote r n of
                    (n, None) \<Rightarrow> ((n, (p, s)), No_Response)
                  | (n, Some resp) \<Rightarrow> ((n, (p, s)), Responds (vote_response_json resp))))
          else if rpcType = ''AppendEntries''
          then
            (case read_AppendEntries j of
               Inl e \<Rightarrow> (q, Responds invalid_json)
             | Inr (r, entries) \<Rightarrow>
                 (case handle_AppendEntries_json (env_now env) (env_rnd env) r entries n s of
                    (n, s, reply) \<Rightarrow> ((n, (p, s)), append_reply_outcome reply)))
          else if rpcType = ''ClientRequest''
          then
            (case read_ClientRequest j of
               Inl e \<Rightarrow> (q, Responds invalid_json)
             | Inr c \<Rightarrow> handle_ClientRequest (env_net env) c q)
          else if rpcType = ''STATUS''
          then (case handle_STATUS n of (n, r) \<Rightarrow> ((n, (p, s)), Responds r))
          else if rpcType = ''METRICS''
          then (case handle_METRICS (env_now env) n of (n, r) \<Rightarrow> ((n, (p, s)), Responds r))
          else if rpcType = ''LOGSIZE'' then (q, Responds (handle_LOGSIZE n))
          else if rpcType = ''SNAPSHOT_NOW''
          then (case handle_SNAPSHOT_NOW n s of (n, s, r) \<Rightarrow> ((n, (p, s)), r))
          else if rpcType = ''GET_LOGS''
          then
            (case handle_GET_LOGS j n of
               Inl e \<Rightarrow> (q, Responds invalid_json)
             | Inr r \<Rightarrow> (q, Responds r))
          else if rpcType = ''CLUSTER_INFO'' then (q, Responds (handle_CLUSTER_INFO n))
          else if rpcType = ''InstallSnapshot''
          then
            (case handle_InstallSnapshot_json env j (n, s) of
               ((n, s), r) \<Rightarrow> ((n, (p, s)), r))
          else (q, Responds (JObject [(''error'', JString ''Unknown RPC'')])))"

text \<open>
  One \<open>recv\<close> of at most 8191 bytes, read as a C string; \<open>parse\<close> is the library's parser.
\<close>

definition c_string :: "bytes \<Rightarrow> string" where
  "c_string bs = takeWhile (\<lambda>c. c \<noteq> char_of (0::nat)) bs"

definition handle_node_client ::
  "(string \<Rightarrow> json option) \<Rightarrow> 'p rpc_env \<Rightarrow> bytes \<Rightarrow> RaftNode \<times> ('p \<times> KVStore) \<Rightarrow>
   (RaftNode \<times> ('p \<times> KVStore)) \<times> rpc_outcome" where
  "handle_node_client parse env received q =
     (if stopRPC (fst q) then (q, Closed)
      else if received = [] then (q, Closed)
      else
        (case parse (c_string (take 8191 received)) of
           None \<Rightarrow> (q, Responds invalid_json)
         | Some j \<Rightarrow> handle_request env j q))"

section \<open>A request as its sender sees it\<close>

text \<open>
  \<open>sendRPC\<close> over a working connection: the request is printed and sent, the handler of the node
  behind the port runs, and one \<open>recv\<close> of at most 65535 bytes is read as a C string and parsed.
  An empty string means that nothing came back in time.
\<close>

definition sendRPC ::
  "(string \<Rightarrow> json option) \<Rightarrow> (json \<Rightarrow> string) \<Rightarrow> (json \<Rightarrow> cpp_exn + 'r) \<Rightarrow> 'p rpc_env \<Rightarrow> json \<Rightarrow>
   RaftNode \<times> ('p \<times> KVStore) \<Rightarrow> (RaftNode \<times> ('p \<times> KVStore)) \<times> 'r rpc_reply" where
  "sendRPC parse dump conv env request q =
     (case handle_node_client parse env (dump request) q of
        (q, Responds j) \<Rightarrow>
          (let response = c_string (take 65535 (dump j))
           in (q, if response = [] then No_Reply else reply_of conv (parse response)))
      | (q, _) \<Rightarrow> (q, No_Reply))"

end
