(* ===== verification/Cli_Session.thy ===== *)
theory Cli_Session
  imports Cli_Requests Screens Rpc_Server
begin

text \<open>
  \<open>handle_client\<close> of \<open>server.cpp\<close>: one connection of the command line server.  Every command is a
  function on the state of the connection, which keeps what was sent to the client; an exception
  that escapes ends the process, because the thread of a connection has no handler.
\<close>

section \<open>State\<close>

text \<open>
  The counters of all sockets are one static map; \<open>world\<close> is the cluster as \<open>cli_env\<close> sees it.
\<close>

record 'w cli_state =
  commandHistory :: "string list"
  commandCount :: int
  sessionStart :: int
  clientRequestCounter :: "int \<rightharpoonup> int"
  shutdownServer :: bool
  raftShutdownRequested :: bool
  sent :: "string list"
  world :: 'w

datatype line_result =
    Goes_On
  | Ends           \<comment> \<open>the connection is closed\<close>
  | Terminated     \<comment> \<open>an exception escaped: \<open>std::terminate\<close>\<close>
  | Undefined

text \<open>
  A non-blocking read while \<open>WATCH\<close> runs; the end of the connection reads as zero bytes.
\<close>

datatype poll = Input bytes | No_Input | Peer_Closed | Poll_Error

record 'w session_env = "'w cli_env" +
  cli_poll :: "'w \<Rightarrow> 'w \<times> poll"
  cli_now :: "'w \<Rightarrow> int"

definition transmit :: "string \<Rightarrow> 'w cli_state \<Rightarrow> 'w cli_state" where
  "transmit s st = st\<lparr>sent := sent st @ [s]\<rparr>"

definition reply_with :: "string \<Rightarrow> 'w cli_state \<Rightarrow> ('w cli_state \<times> line_result) option" where
  "reply_with s st = Some (transmit s st, Goes_On)"

text \<open>Ask the cluster and send the text made from the answer.\<close>

definition ask ::
  "('w, 'z) cli_env_scheme \<Rightarrow> json \<Rightarrow> (json \<Rightarrow> cpp_exn + string) \<Rightarrow> 'w cli_state \<Rightarrow>
   ('w cli_state \<times> line_result) option" where
  "ask env msg f st =
     (case sendClientRequest (cli_env.truncate env) msg (world st) of
        None \<Rightarrow> None
      | Some (w, Out_Of_Bounds) \<Rightarrow> Some (st\<lparr>world := w\<rparr>, Undefined)
      | Some (w, Returned j) \<Rightarrow>
          (case f j of
             Inl e \<Rightarrow> Some (st\<lparr>world := w\<rparr>, Terminated)
           | Inr s \<Rightarrow> reply_with s (st\<lparr>world := w\<rparr>)))"

section \<open>PUT, GET, DELETE\<close>

definition command_json :: "string \<Rightarrow> string \<Rightarrow> string \<Rightarrow> int \<Rightarrow> int \<Rightarrow> json" where
  "command_json command key val client_socket requestId =
     JObject [(''rpc'', JString ''ClientRequest''), (''command'', JString command),
              (''key'', JString key), (''value'', JString val),
              (''clientId'', JString (''client-'' @ to_string client_socket)),
              (''requestId'', JInt requestId)]"

text \<open>The three-way test on the status that the commands share.\<close>

definition answer_text :: "(cpp_exn + string) \<Rightarrow> string \<Rightarrow> json \<Rightarrow> cpp_exn + string" where
  "answer_text ok failed respJson =
     and_then (json_member respJson ''status'') (\<lambda>st.
       if st = JString ''OK'' then ok
       else if st = JString ''redirect''
       then
         render respJson
           [Text (arrow @ '' Redirected to leader node ''), Int_At [''leaderId''], Text [newline]]
       else Inr failed)"

definition about_key :: "string \<Rightarrow> string \<Rightarrow> string \<Rightarrow> string" where
  "about_key mark key what =
     mark @ '' Key '' @ [apostrophe] @ key @ [apostrophe] @ what @ [newline]"

definition put_text :: "string \<Rightarrow> json \<Rightarrow> cpp_exn + string" where
  "put_text key =
     answer_text (Inr (about_key tick key '' added successfully.''))
       (about_key cross key '' cannot be added.'')"

definition get_text :: "string \<Rightarrow> json \<Rightarrow> cpp_exn + string" where
  "get_text key respJson =
     answer_text
       (render respJson
          [Text (utf8 0x250C @ utf8 0x2500 @ '' Key: '' @ key @ [newline]),
           Text (utf8 0x2514 @ utf8 0x2500 @ '' Value: ''), Str_At [''value''], Text [newline]])
       (about_key cross key '' does not exist.'') respJson"

definition delete_text :: "string \<Rightarrow> json \<Rightarrow> cpp_exn + string" where
  "delete_text key =
     answer_text (Inr (about_key tick key '' deleted successfully.''))
       (about_key cross key '' does not exist.'')"

text \<open>The arguments of \<open>PUT\<close>: the named format if it starts with a key flag; \<open>None\<close> asks for it.\<close>

definition put_arguments :: "string \<Rightarrow> (string \<times> string) option" where
  "put_arguments rest =
     (let s = skip_ws rest
      in if is_key_flag (fst (read_token s))
         then
           (case parseKeyValueFormat s of
              (True, key, val) \<Rightarrow> Some (key, val)
            | (False, _) \<Rightarrow> None)
         else
           (case read_token s of (key, r) \<Rightarrow> Some (key, fst (parseValue r))))"

definition do_PUT ::
  "('w, 'z) cli_env_scheme \<Rightarrow> int \<Rightarrow> int \<Rightarrow> string \<Rightarrow> 'w cli_state \<Rightarrow>
   ('w cli_state \<times> line_result) option" where
  "do_PUT env client_socket requestId rest st =
     (case put_arguments rest of
        None \<Rightarrow> reply_with (cross @ '' Usage: PUT --key <key> --value <value>'' @ [newline]) st
      | Some (key, val) \<Rightarrow>
          if key = [] \<or> val = []
          then reply_with (cross @ '' Usage: PUT <key> <value>'' @ [newline]) st
          else ask env (command_json ''PUT'' key val client_socket requestId) (put_text key) st)"

definition do_GET ::
  "('w, 'z) cli_env_scheme \<Rightarrow> int \<Rightarrow> int \<Rightarrow> string \<Rightarrow> 'w cli_state \<Rightarrow>
   ('w cli_state \<times> line_result) option" where
  "do_GET env client_socket requestId rest st =
     (let key = fst (read_token rest)
      in if key = [] then reply_with (cross @ '' Usage: GET <key>'' @ [newline]) st
         else ask env (command_json ''GET'' key [] client_socket requestId) (get_text key) st)"

definition do_DELETE ::
  "('w, 'z) cli_env_scheme \<Rightarrow> int \<Rightarrow> int \<Rightarrow> string \<Rightarrow> 'w cli_state \<Rightarrow>
   ('w cli_state \<times> line_result) option" where
  "do_DELETE env client_socket requestId rest st =
     (let key = fst (read_token rest)
      in if key = [] then reply_with (cross @ '' Usage: DELETE <key>'' @ [newline]) st
         else ask env (command_json ''DELETE'' key [] client_socket requestId) (delete_text key) st)"

section \<open>Administration\<close>

definition rpc_only :: "string \<Rightarrow> json" where
  "rpc_only name = JObject [(''rpc'', JString name)]"

definition admin_text :: "(json \<Rightarrow> cpp_exn + string) \<Rightarrow> (json \<Rightarrow> cpp_exn + string) \<Rightarrow> json \<Rightarrow> cpp_exn + string"
  where
  "admin_text ok failed respJson =
     and_then (json_member respJson ''status'') (\<lambda>st.
       if st = JString ''OK'' then ok respJson else failed respJson)"

definition failed_to :: "string \<Rightarrow> json \<Rightarrow> cpp_exn + string" where
  "failed_to what respJson = Inr (cross @ '' Failed to get '' @ what @ [newline])"

definition status_text :: "json \<Rightarrow> cpp_exn + string" where
  "status_text = admin_text (\<lambda>j. render j status_screen) (failed_to ''status'')"

definition metrics_text :: "json \<Rightarrow> cpp_exn + string" where
  "metrics_text = admin_text (\<lambda>j. render j metrics_screen) (failed_to ''metrics'')"

definition logsize_text :: "json \<Rightarrow> cpp_exn + string" where
  "logsize_text = admin_text (\<lambda>j. render j logsize_screen) (failed_to ''log size'')"

definition snapshot_text :: "json \<Rightarrow> cpp_exn + string" where
  "snapshot_text =
     admin_text
       (\<lambda>j. render j
          [Text (tick @ '' ''), Str_At [''message''], Text ([newline] @ ''  Snapshot Index: ''),
           Int_At [''snapshot_index''], Text ([newline] @ ''  Snapshot Term:  ''),
           Int_At [''snapshot_term''], Text [newline]])
       (\<lambda>j. render j [Text (cross @ '' ''), Str_At [''message''], Text [newline]])"

definition logs_text :: "json \<Rightarrow> cpp_exn + string" where
  "logs_text = admin_text (list_screen logs_head ''logs'' log_row logs_foot) (failed_to ''logs'')"

definition cluster_text :: "json \<Rightarrow> cpp_exn + string" where
  "cluster_text =
     admin_text (list_screen cluster_head ''nodes'' cluster_row cluster_foot)
       (failed_to ''cluster info'')"

text \<open>The digits among the characters of the argument.\<close>

definition logs_count :: "string \<Rightarrow> cpp_exn + int" where
  "logs_count countStr =
     (let digits = filter is_digit countStr
      in and_then (if digits = [] then Inr 10 else stoi digits) (\<lambda>count.
           Inr (if count \<le> 0 then 10 else count)))"

definition do_LOGS ::
  "('w, 'z) cli_env_scheme \<Rightarrow> string \<Rightarrow> 'w cli_state \<Rightarrow> ('w cli_state \<times> line_result) option" where
  "do_LOGS env rest st =
     (case logs_count (fst (read_token rest)) of
        Inl e \<Rightarrow> Some (st, Terminated)
      | Inr count \<Rightarrow>
          ask env (JObject [(''rpc'', JString ''GET_LOGS''), (''count'', JInt count)]) logs_text st)"

section \<open>WATCH\<close>

definition watch_interval :: "string \<Rightarrow> int" where
  "watch_interval intervalStr =
     (case stoi intervalStr of
        Inl e \<Rightarrow> 2
      | Inr i \<Rightarrow> if i < 1 then 2 else if i > 60 then 60 else i)"

definition stops_watch :: "bytes \<Rightarrow> bool" where
  "stops_watch received \<longleftrightarrow>
     toUpper (trim (c_string (take 255 received))) \<in> {''STOP'', ''EXIT'', ''Q'', ''QUIT''}"

text \<open>The sleep between two refreshes: one poll every tenth of a second.\<close>

fun watch_wait :: "('w \<Rightarrow> 'w \<times> poll) \<Rightarrow> nat \<Rightarrow> 'w \<Rightarrow> 'w \<times> bool" where
  "watch_wait polls 0 w = (w, False)"
| "watch_wait polls (Suc chunks) w =
     (case polls w of
        (w, Input received) \<Rightarrow>
          if stops_watch received then (w, True) else watch_wait polls chunks w
      | (w, Poll_Error) \<Rightarrow> (w, True)
      | (w, _) \<Rightarrow> watch_wait polls chunks w)"

text \<open>
  The refresh loop.  A refresh is counted when the metrics arrive; \<open>None\<close> is a loop that never
  ends.
\<close>

partial_function (option) watch_loop ::
  "'w session_env \<Rightarrow> int \<Rightarrow> int \<Rightarrow> 'w cli_state \<Rightarrow> ('w cli_state \<times> line_result) option" where
  "watch_loop env interval refreshCount st =
     (if \<not> refreshCount < maxRefreshes
      then reply_with (watch_farewell False refreshCount) st
      else
        (case sendClientRequest (cli_env.truncate env) (rpc_only ''METRICS'') (world st) of
           None \<Rightarrow> None
         | Some (w, Out_Of_Bounds) \<Rightarrow> Some (st\<lparr>world := w\<rparr>, Undefined)
         | Some (w, Returned j) \<Rightarrow>
             (case and_then (json_member j ''status'') (\<lambda>status.
                     if status = JString ''OK''
                     then and_then (render j (watch_screen (refreshCount + 1) interval))
                            (\<lambda>output. Inr (Some output))
                     else Inr None) of
                Inl e \<Rightarrow> Some (st\<lparr>world := w\<rparr>, Terminated)
              | Inr out \<Rightarrow>
                  (case watch_wait (cli_poll env) (nat (interval * 10)) w of
                     (w, stopWatch) \<Rightarrow>
                       (let count = (case out of None \<Rightarrow> refreshCount | Some s \<Rightarrow> refreshCount + 1);
                            st = (case out of None \<Rightarrow> st | Some s \<Rightarrow> transmit s st)\<lparr>world := w\<rparr>
                        in if stopWatch then reply_with (watch_farewell True count) st
                           else watch_loop env interval count st)))))"

definition do_WATCH :: "'w session_env \<Rightarrow> string \<Rightarrow> 'w cli_state \<Rightarrow> ('w cli_state \<times> line_result) option"
  where
  "do_WATCH env rest st =
     (let interval = watch_interval (fst (read_token rest))
      in watch_loop env interval 0 (transmit (watch_banner interval) st))"

section \<open>Local commands\<close>

definition history_lines :: "string list \<Rightarrow> string" where
  "history_lines hist =
     (let start = nat (max 0 (int (length hist) - 20))
      in concat (map (\<lambda>i. row ('' '' @ to_string (int i + 1) @ ''. '' @ hist ! i))
           [start..<length hist]))"

definition history_text :: "string list \<Rightarrow> string" where
  "history_text hist =
     top 54 @ boxed ''              COMMAND HISTORY                         '' @ mid 54 @
     history_lines hist @ bottom 54"

definition stats_text :: "int \<Rightarrow> int \<Rightarrow> 'w cli_state \<Rightarrow> string" where
  "stats_text now client_socket st =
     top 54 @ boxed ''           CONNECTION STATISTICS                      '' @ mid 54 @
     row ('' Client ID:       '' @ ''client-'' @ to_string client_socket) @
     row ('' Commands run:    '' @ to_string (commandCount st)) @
     row ('' History size:    '' @ to_string (int (length (commandHistory st)))) @
     row ('' Session time:    '' @ to_string ((now - sessionStart st) div 1000) @ '' seconds'') @
     bottom 54"

text \<open>\<open>!!\<close> and \<open>!n\<close>; the history already ends with the line itself.\<close>

datatype recall = As_Typed | Repeat string | Not_In_History string | Bad_Number

definition recall_line :: "string list \<Rightarrow> string \<Rightarrow> recall" where
  "recall_line hist command =
     (if command = ''!!''
      then
        (if 2 \<le> length hist then Repeat (hist ! (length hist - 2))
         else Not_In_History (cross @ '' No previous command in history.'' @ [newline]))
      else if 1 < length command \<and> hd command = CHR ''!'' \<and> is_digit (command ! 1)
      then
        (case stoi (tl command) of
           Inl e \<Rightarrow> Bad_Number
         | Inr n \<Rightarrow>
             if 0 \<le> n - 1 \<and> n - 1 < int (length hist) then Repeat (hist ! nat (n - 1))
             else Not_In_History (cross @ '' Invalid history index.'' @ [newline]))
      else As_Typed)"

section \<open>Dispatch\<close>

definition admin_password :: string where
  "admin_password = ''admin123''"

text \<open>The commands that concern the session itself.\<close>

definition session_command ::
  "'w session_env \<Rightarrow> int \<Rightarrow> string \<Rightarrow> string \<Rightarrow> 'w cli_state \<Rightarrow> ('w cli_state \<times> line_result) option" where
  "session_command env client_socket command rest st =
     (if command = ''HELP'' then reply_with getHelpText st
      else if command = ''HISTORY'' then reply_with (history_text (commandHistory st)) st
      else if command = ''STATS''
      then reply_with (stats_text (cli_now env (world st)) client_socket st) st
      else if command = ''CLEAR'' then reply_with cleared st
      else if command = ''EXIT-RAFT''
      then
        (if fst (read_token rest) = admin_password
         then reply_with (warning @ '' Raft shutdown signal sent.'' @ [newline])
                (st\<lparr>raftShutdownRequested := True\<rparr>)
         else reply_with (cross @ '' Incorrect password.'' @ [newline]) st)
      else if command = ''EXIT-SERVER''
      then
        (if fst (read_token rest) = admin_password
         then
           Some ((transmit (warning @ '' Shutting down CLI server...'' @ [newline]) st)
                   \<lparr>shutdownServer := True\<rparr>, Ends)
         else reply_with (cross @ '' Invalid password.'' @ [newline]) st)
      else if command = ''EXIT'' then Some (transmit (goodbye (commandCount st)) st, Ends)
      else
        reply_with
          (cross @ '' Unknown command: '' @ [apostrophe] @ command @ [apostrophe] @ [newline] @
           ''   Type '' @ [apostrophe] @ ''HELP'' @ [apostrophe] @ '' for available commands.'' @
           [newline]) st)"

definition run_command ::
  "'w session_env \<Rightarrow> int \<Rightarrow> int \<Rightarrow> string \<Rightarrow> string \<Rightarrow> 'w cli_state \<Rightarrow>
   ('w cli_state \<times> line_result) option" where
  "run_command env client_socket requestId command rest st =
     (if command = ''PUT'' then do_PUT env client_socket requestId rest st
      else if command = ''GET'' then do_GET env client_socket requestId rest st
      else if command = ''DELETE'' then do_DELETE env client_socket requestId rest st
      else if command = ''STATUS'' then ask env (rpc_only ''STATUS'') status_text st
      else if command = ''METRICS'' then ask env (rpc_only ''METRICS'') metrics_text st
      else if command = ''LOGSIZE'' then ask env (rpc_only ''LOGSIZE'') logsize_text st
      else if command = ''SNAPSHOT'' then ask env (rpc_only ''SNAPSHOT_NOW'') snapshot_text st
      else if command = ''LOGS'' then do_LOGS env rest st
      else if command = ''CLUSTER'' then ask env (rpc_only ''CLUSTER_INFO'') cluster_text st
      else if command = ''WATCH'' then do_WATCH env rest st
      else session_command env client_socket command rest st)"

text \<open>
  \<open>iss >> command\<close> on the recalled line keeps the old word if there is none.
\<close>

definition first_word :: "string \<Rightarrow> string \<Rightarrow> string \<times> string" where
  "first_word line old =
     (case read_token line of ([], rest) \<Rightarrow> (old, rest) | (c # cs, rest) \<Rightarrow> (c # cs, rest))"

text \<open>One pass of the loop, from the bytes of one \<open>recv\<close>.\<close>

definition client_line ::
  "'w session_env \<Rightarrow> int \<Rightarrow> bytes \<Rightarrow> 'w cli_state \<Rightarrow> ('w cli_state \<times> line_result) option" where
  "client_line env client_socket received st =
     (let command_line = trim (c_string (take 4095 received))
      in if command_line = [] then Some (st, Goes_On)
         else
           (let st = st\<lparr>commandHistory := commandHistory st @ [command_line],
                        commandCount := commandCount st + 1\<rparr>;
                word = fst (read_token command_line)
            in if word = [] then Some (st, Goes_On)
               else
                 (let requestId =
                        (case clientRequestCounter st client_socket of None \<Rightarrow> 0 | Some c \<Rightarrow> c) + 1;
                      st = st\<lparr>clientRequestCounter :=
                                (clientRequestCounter st)(client_socket \<mapsto> requestId)\<rparr>
                  in case recall_line (commandHistory st) word of
                       As_Typed \<Rightarrow>
                         run_command env client_socket requestId (resolveCommandAlias word)
                           (snd (read_token command_line)) st
                     | Not_In_History msg \<Rightarrow> reply_with msg st
                     | Bad_Number \<Rightarrow> Some (st, Terminated)
                     | Repeat line \<Rightarrow>
                         run_command env client_socket requestId
                           (resolveCommandAlias (fst (first_word line word)))
                           (snd (first_word line word))
                           (transmit (''Repeating: '' @ line @ [newline]) st))))"

text \<open>A connection: the welcome, then one pass for every \<open>recv\<close> that brings something.\<close>

fun client_lines ::
  "'w session_env \<Rightarrow> int \<Rightarrow> bytes list \<Rightarrow> 'w cli_state \<Rightarrow> ('w cli_state \<times> line_result) option" where
  "client_lines env client_socket [] st = Some (st, Ends)"
| "client_lines env client_socket (b # bs) st =
     (if b = [] then Some (st, Ends)
      else
        (case client_line env client_socket b st of
           Some (st, Goes_On) \<Rightarrow> client_lines env client_socket bs st
         | r \<Rightarrow> r))"

definition handle_client ::
  "'w session_env \<Rightarrow> int \<Rightarrow> bytes list \<Rightarrow> 'w cli_state \<Rightarrow> ('w cli_state \<times> line_result) option" where
  "handle_client env client_socket inputs st =
     client_lines env client_socket inputs
       (transmit welcome_text (st\<lparr>commandHistory := [], commandCount := 0,
          sessionStart := cli_now env (world st)\<rparr>))"

end
