(* ===== verification/Heartbeat.thy ===== *)
theory Heartbeat
  imports Client_Facts
begin

text \<open>
  \<open>send_heartbeats\<close>: the thread a leader runs to replicate its log.  One iteration sends every
  peer either the snapshot (if the peer needs entries that are gone) or a batch of at most 20
  entries, and moves the peer's indices on the reply.
\<close>

section \<open>One peer\<close>

definition MAX_ENTRIES_PER_BATCH :: int where
  "MAX_ENTRIES_PER_BATCH = 20"

text \<open>\<open>snapshot && nextIdx <= snapshot->lastIncludedIndex\<close>\<close>

definition needs_snapshot :: "nat \<Rightarrow> RaftNode \<Rightarrow> bool" where
  "needs_snapshot i n =
     (case latestSnapshot n of None \<Rightarrow> False
      | Some snap \<Rightarrow> nextIndex n ! i \<le> lastIncludedIndex snap)"

definition heartbeat_message :: "nat \<Rightarrow> RaftNode \<Rightarrow> AppendEntriesRPC" where
  "heartbeat_message i n =
     (let nextIdx = nextIndex n ! i; prevIndex = nextIdx - 1; currentLogSize = getLogSize n;
          entries =
            (if nextIdx < currentLogSize
             then getLogEntries nextIdx (min (nextIdx + MAX_ENTRIES_PER_BATCH) currentLogSize) n
             else [])
      in \<lparr>ae_term = currentTerm n, ae_leaderId = node_id n, ae_prevLogIndex = prevIndex,
          ae_prevLogTerm = getLogTerm prevIndex n, ae_entries = entries,
          ae_leaderCommit = commitIndex n\<rparr>)"

datatype 'a heartbeat_result =
    Next_Peer 'a        \<comment> \<open>the loop over the peers goes on\<close>
  | Leaves_Loop 'a      \<comment> \<open>\<open>break\<close> out of the loop over the peers\<close>
  | Thread_Ends 'a      \<comment> \<open>\<open>return\<close>\<close>
  | Heartbeat_Waits 'a  \<comment> \<open>waits for a mutex for ever\<close>
  | Heartbeat_Crashes 'a

text \<open>The reply; \<open>now\<close> is the clock.\<close>

definition heartbeat_reply ::
  "int \<Rightarrow> nat \<Rightarrow> int \<Rightarrow> int \<Rightarrow> AppendEntriesResponse rpc_reply \<Rightarrow> RaftNode \<Rightarrow> RaftNode heartbeat_result"
  where
  "heartbeat_reply now i nextIdx sent reply n =
     (if \<not> runningHeartbeats n \<or> shutdownRequested n then Leaves_Loop n
      else
        (case reply of
           No_Reply \<Rightarrow> Next_Peer n
         | Bad_Reply \<Rightarrow> Next_Peer n
         | Reply resp \<Rightarrow>
             if aer_term resp > currentTerm n
             then
               (if mtxHeld n then Heartbeat_Waits n
                else
                  Thread_Ends (persistMetadata
                    (n\<lparr>currentTerm := aer_term resp, state := FOLLOWER,
                       metrics := updateRole ''Follower''
                         ((metrics n)\<lparr>m_currentTerm := aer_term resp, m_votedFor := votedFor n\<rparr>),
                       votedFor := - 1, runningHeartbeats := False, lastHeartbeat := now\<rparr>)))
             else if aer_success resp \<and> sent \<noteq> 0
             then
               Next_Peer (n\<lparr>nextIndex := (nextIndex n)[i := nextIdx + sent],
                            matchIndex := (matchIndex n)[i := nextIdx + sent - 1]\<rparr>)
             else if \<not> aer_success resp then Next_Peer (back_off i n)
             else Next_Peer n))"

definition exchange_batch ::
  "'p network \<Rightarrow> int \<Rightarrow> nat \<Rightarrow> RaftNode \<Rightarrow> 'p \<times> KVStore \<Rightarrow>
   (RaftNode \<times> ('p \<times> KVStore)) heartbeat_result" where
  "exchange_batch net now i n w =
     (let msg = heartbeat_message i n
      in case send_append net (peerRpcPorts n ! i) w msg of
           (w, reply) \<Rightarrow>
             map_heartbeat_result (\<lambda>n. (n, w))
               (heartbeat_reply now i (nextIndex n ! i) (int (length (ae_entries msg))) reply
                  (n\<lparr>metrics := (metrics n)\<lparr>appendEntriesSent :=
                       appendEntriesSent (metrics n) + 1\<rparr>\<rparr>)))"

definition heartbeat_to ::
  "'p network \<Rightarrow> int \<Rightarrow> nat \<Rightarrow> RaftNode \<times> ('p \<times> KVStore) \<Rightarrow>
   (RaftNode \<times> ('p \<times> KVStore)) heartbeat_result" where
  "heartbeat_to net now i q =
     (case q of (n, w) \<Rightarrow>
        if \<not> runningHeartbeats n \<or> shutdownRequested n then Leaves_Loop (n, w)
        else
          (case latestSnapshot n of
             Some snap \<Rightarrow>
               if nextIndex n ! i \<le> lastIncludedIndex snap
               then
                 (case send_snapshot (dump_length net) (send_install net (peerRpcPorts n ! i)) snap
                         (stream_order net snap) i n w of
                    (n, w, Division_By_Zero) \<Rightarrow> Heartbeat_Crashes (n, w)
                  | (n, w, _) \<Rightarrow> Next_Peer (n, w))
               else exchange_batch net now i n w
           | None \<Rightarrow> exchange_batch net now i n w))"

section \<open>One iteration\<close>

fun heartbeat_all ::
  "'p network \<Rightarrow> int \<Rightarrow> nat list \<Rightarrow> RaftNode \<times> ('p \<times> KVStore) \<Rightarrow>
   (RaftNode \<times> ('p \<times> KVStore)) heartbeat_result" where
  "heartbeat_all net now [] q = Next_Peer q"
| "heartbeat_all net now (i # js) q =
     (case heartbeat_to net now i q of
        Next_Peer q' \<Rightarrow> heartbeat_all net now js q'
      | other \<Rightarrow> other)"

text \<open>
  The body of the \<open>while\<close> with its condition; \<open>Next_Peer\<close> and \<open>Leaves_Loop\<close> go round again
  unless a shutdown was requested.  The last component says whether the thread goes on.
\<close>

definition heartbeat_round ::
  "'p network \<Rightarrow> int \<Rightarrow> RaftNode \<times> ('p \<times> KVStore) \<Rightarrow> (RaftNode \<times> ('p \<times> KVStore)) \<times> bool" where
  "heartbeat_round net now q =
     (let n = fst q
      in if runningHeartbeats n \<and> state n = LEADER \<and> \<not> shutdownRequested n
         then
           (case heartbeat_all net now [0..<length (peerRpcPorts n)] q of
              Next_Peer q \<Rightarrow> (q, \<not> shutdownRequested (fst q))
            | Leaves_Loop q \<Rightarrow> (q, \<not> shutdownRequested (fst q))
            | Thread_Ends q \<Rightarrow> (q, False)
            | Heartbeat_Waits q \<Rightarrow> (q, False)
            | Heartbeat_Crashes q \<Rightarrow> (q, False))
         else (q, False))"

section \<open>Batches\<close>

lemma getLogEntries_contiguous:
  assumes "log_wf n" "base_index n \<le> a" shows "contiguous a (getLogEntries a b n)"
  using assms nth_getLogEntries [of _ a b n] entry_at_index
  by (fastforce simp: contiguous_def max_def)

lemma heartbeat_batch:
  assumes "log_wf n" "base_index n \<le> nextIndex n ! i"
  shows "contiguous (ae_prevLogIndex (heartbeat_message i n) + 1)
      (ae_entries (heartbeat_message i n))"
    and "length (ae_entries (heartbeat_message i n)) =
      nat (min 20 (getLogSize n - nextIndex n ! i))"
    and "j < length (ae_entries (heartbeat_message i n)) \<Longrightarrow>
      entry_at n (nextIndex n ! i + int j) = Some (ae_entries (heartbeat_message i n) ! j)"
  using assms getLogEntries_contiguous [of n "nextIndex n ! i"]
    nth_getLogEntries [of j "nextIndex n ! i"
      "min (nextIndex n ! i + MAX_ENTRIES_PER_BATCH) (getLogSize n)" n]
  by (auto simp: heartbeat_message_def Let_def length_getLogEntries MAX_ENTRIES_PER_BATCH_def
      max_def)

lemma client_batch:
  assumes "log_wf n" "base_index n \<le> nextIndex n ! i" "k < getLogSize n"
  shows "contiguous (ae_prevLogIndex (client_message k i n) + 1) (ae_entries (client_message k i n))"
    and "length (ae_entries (client_message k i n)) = nat (k + 1 - nextIndex n ! i)"
    and "j < length (ae_entries (client_message k i n)) \<Longrightarrow>
      entry_at n (nextIndex n ! i + int j) = Some (ae_entries (client_message k i n) ! j)"
  using assms getLogEntries_contiguous [of n "nextIndex n ! i"]
    nth_getLogEntries [of j "nextIndex n ! i" "k + 1" n]
  by (auto simp: client_message_def Let_def length_getLogEntries max_def)

text \<open>A peer that needs no snapshot is sent entries the leader still has.\<close>

lemma no_snapshot_needed: "\<not> needs_snapshot i n \<Longrightarrow> 0 \<le> nextIndex n ! i \<Longrightarrow>
    base_index n \<le> nextIndex n ! i"
  by (auto simp: needs_snapshot_def base_index_def split: option.splits)

end
