(* ===== verification/Log_Match.thy ===== *)
theory Log_Match
  imports Replication_Facts
begin

text \<open>
  Raft's log matching for two logs, and what a batch cut out of one of them does to the other:
  the AppendEntries handler keeps its log or takes over a prefix of the sender's.
\<close>

section \<open>The common part of two logs\<close>

fun common_len :: "'a list \<Rightarrow> 'a list \<Rightarrow> nat" where
  "common_len (x # xs) (y # ys) = (if x = y then Suc (common_len xs ys) else 0)"
| "common_len _ _ = 0"

lemma common_len_bounds: "common_len xs ys \<le> length xs" "common_len xs ys \<le> length ys"
  by (induction xs ys rule: common_len.induct) auto

lemma take_common_len: "take (common_len xs ys) xs = take (common_len xs ys) ys"
  by (induction xs ys rule: common_len.induct) auto

lemma take_le_common: "k \<le> common_len xs ys \<Longrightarrow> take k xs = take k ys"
  by (metis min.absorb1 take_common_len take_take)

lemma common_len_ge: "\<lbrakk>take k xs = take k ys; k \<le> length xs; k \<le> length ys\<rbrakk> \<Longrightarrow> k \<le> common_len xs ys"
proof (induction xs ys arbitrary: k rule: common_len.induct)
  case (1 x xs y ys)
  then show ?case by (cases k) auto
qed simp_all

lemma common_len_prefix: "common_len xs (take k xs) = min k (length xs)"
proof (induction xs arbitrary: k)
  case (Cons x xs)
  then show ?case by (cases k) simp_all
qed simp

text \<open>
  The log matching property: entries with the same position and term have the same past.
\<close>

definition logs_match :: "logEntry list \<Rightarrow> logEntry list \<Rightarrow> bool" where
  "logs_match xs ys \<longleftrightarrow>
     (\<forall>i < min (length xs) (length ys).
        entry_term (xs ! i) = entry_term (ys ! i) \<longrightarrow> take (Suc i) xs = take (Suc i) ys)"

lemma logs_match_common:
  assumes "logs_match xs ys" "i < length xs" "i < length ys"
  shows "entry_term (xs ! i) = entry_term (ys ! i) \<longleftrightarrow> i < common_len xs ys"
proof
  assume "entry_term (xs ! i) = entry_term (ys ! i)"
  then have "take (Suc i) xs = take (Suc i) ys" using assms by (simp add: logs_match_def)
  then show "i < common_len xs ys" using common_len_ge [of "Suc i" xs ys] assms by simp
next
  assume "i < common_len xs ys"
  then have "take (Suc i) xs = take (Suc i) ys" by (intro take_le_common) simp
  then have "take (Suc i) xs ! i = take (Suc i) ys ! i" by simp
  then show "entry_term (xs ! i) = entry_term (ys ! i)" by simp
qed

lemma logs_match_prefix: "logs_match xs (take k xs)"
  by (simp add: logs_match_def min_def)

lemma logs_match_sym: "logs_match xs ys \<Longrightarrow> logs_match ys xs"
  by (simp add: logs_match_def min.commute)

lemma logs_match_refl: "logs_match xs xs"
  by (simp add: logs_match_def)

lemma logs_match_Nil [simp]: "logs_match [] xs" "logs_match xs []"
  by (simp_all add: logs_match_def)

lemma logs_match_take: "logs_match xs ys \<Longrightarrow> logs_match (take k xs) ys"
  by (auto simp: logs_match_def min_def split: if_splits)

lemma logs_match_snoc:
  assumes "logs_match xs ys" "length xs < length ys \<Longrightarrow> entry_term (ys ! length xs) \<noteq> entry_term e"
  shows "logs_match (xs @ [e]) ys"
  unfolding logs_match_def
proof (intro allI impI)
  fix i assume i: "i < min (length (xs @ [e])) (length ys)"
    and t: "entry_term ((xs @ [e]) ! i) = entry_term (ys ! i)"
  have "i \<noteq> length xs" using i t assms(2) by auto
  then have "i < length xs" using i by simp
  then show "take (Suc i) (xs @ [e]) = take (Suc i) ys"
    using assms(1) i t by (simp add: logs_match_def nth_append)
qed

section \<open>Logs without a snapshot\<close>

lemma plain_log:
  assumes "latestSnapshot n = None"
  shows "base_index n = 0" "getLogSize n = int (length (log n))"
    and "entry_at n idx = (if 0 \<le> idx \<and> idx < int (length (log n)) then Some (log n ! nat idx) else None)"
    and "getLogTerm idx n = (if 0 \<le> idx \<and> idx < int (length (log n)) then entry_term (log n ! nat idx) else 0)"
  using assms
  by (auto simp: base_index_def getLogSize_def entry_at_def log_position_def getLogTerm_def Let_def)

text \<open>
  A batch cut out of a log: its first entry has position \<open>k\<close>, and there are at most \<open>m\<close> of them.
\<close>

definition batch_at :: "AppendEntriesRPC \<Rightarrow> logEntry list \<Rightarrow> nat \<Rightarrow> nat \<Rightarrow> bool" where
  "batch_at r xs k m \<longleftrightarrow>
     k \<le> length xs \<and> ae_prevLogIndex r = int k - 1 \<and>
     ae_prevLogTerm r = (if k = 0 then 0 else entry_term (xs ! (k - 1))) \<and>
     ae_entries r = take m (drop k xs)"

lemma batch_check:
  assumes "batch_at r xs k m" "latestSnapshot f = None" "logs_match xs (log f)"
  shows "consistency_check r f \<longleftrightarrow> k \<le> common_len xs (log f)"
proof (cases k)
  case 0
  then show ?thesis using assms(1) by (simp add: consistency_check_def batch_at_def)
next
  case (Suc j)
  then show ?thesis
    using assms logs_match_common [OF assms(3), of j] common_len_bounds [of xs "log f"]
    by (auto simp: consistency_check_def batch_at_def)
qed

lemma batch_append:
  assumes "batch_at r xs k m" "latestSnapshot f = None" "logs_match xs (log f)" "contiguous 0 xs"
    and "k \<le> common_len xs (log f)"
  shows "log (append_entries r f) =
    (if k = common_len xs (log f) \<and> k < length xs \<and> m \<noteq> 0 then take (k + m) xs else log f)"
proof (cases "k < length xs \<and> m \<noteq> 0")
  case False
  then have "ae_entries r = []" using assms(1) by (auto simp: batch_at_def)
  then show ?thesis using False by (auto simp: append_entries_def)
next
  case True
  note b = assms(1) [unfolded batch_at_def]
  have M: "common_len xs (log f) \<le> length xs" "common_len xs (log f) \<le> length (log f)"
    by (rule common_len_bounds)+
  have ne: "ae_entries r \<noteq> []" "hd (ae_entries r) = xs ! k"
    using b True by (auto simp: hd_drop_conv_nth)
  have first: "first_is_new r f \<longleftrightarrow> k = common_len xs (log f)"
    using True M assms(5) logs_match_common [OF assms(3), of k] assms(2) b ne(2)
    by (auto simp: first_is_new_def plain_log)
  show ?thesis
  proof (cases "k = common_len xs (log f)")
    case False
    then show ?thesis using first append_entries_present by simp
  next
    case eq: True
    have "contiguous 0 (take k xs @ drop k xs)" using assms(4) by simp
    then have "contiguous (int k) (drop k xs)"
      using b unfolding contiguous_append by (simp add: min_absorb2)
    then have "contiguous (ae_prevLogIndex r + 1) (ae_entries r)" using b by (simp add: contiguous_take)
    then have "log (append_entries r f) = log_prefix r f @ ae_entries r"
      using eq M first append_entries_new [of r f] ne(1) assms(2) b by (simp add: plain_log)
    also have "log_prefix r f = take k xs"
      using eq assms(2) take_common_len [of xs "log f"] b by (simp add: log_prefix_def plain_log)
    finally show ?thesis using True eq b by (simp add: take_add)
  qed
qed

end
