(* ===== verification/Catch_Up.thy ===== *)
theory Catch_Up
  imports Heartbeat Log_Match
begin

text \<open>
  Heartbeats against real followers: the network that delivers every message to the handler of the
  node behind the port, and the proof that a follower of the same term ends up with the leader's
  log however far apart the two logs are at the start.
\<close>

section \<open>A network of live nodes\<close>

text \<open>
  How the leader reads a reply: \<open>value\<close> on the JSON \<open>null\<close> throws, and \<open>{"error": ...}\<close> is an
  object without the two members, so both take their defaults.
\<close>

definition read_append_reply :: "append_reply \<Rightarrow> AppendEntriesResponse rpc_reply" where
  "read_append_reply r =
     (case r of AE_Reply resp \<Rightarrow> Reply resp | AE_Null \<Rightarrow> Bad_Reply | AE_Error \<Rightarrow> Reply \<lparr>aer_term = 0, aer_success = False\<rparr>
      | AE_Hangs \<Rightarrow> No_Reply)"

text \<open>
  \<open>nodes\<close> maps a port to the node that listens there; \<open>now\<close> and \<open>rnd\<close> are the receivers' clock
  and \<open>rand()\<close>.
\<close>

definition deliver_append ::
  "int \<Rightarrow> nat \<Rightarrow> int \<Rightarrow> (int \<rightharpoonup> RaftNode) \<times> KVStore \<Rightarrow> AppendEntriesRPC \<Rightarrow>
   ((int \<rightharpoonup> RaftNode) \<times> KVStore) \<times> AppendEntriesResponse rpc_reply" where
  "deliver_append now rnd port w msg =
     (case fst w port of
        None \<Rightarrow> (w, No_Reply)
      | Some f \<Rightarrow>
          (case handle_AppendEntries now rnd msg f (snd w) of
             (f, s, reply) \<Rightarrow> (((fst w)(port \<mapsto> f), s), read_append_reply reply)))"

definition deliver_install ::
  "(nat \<Rightarrow> bool) \<Rightarrow> bytes \<times> bytes \<Rightarrow> int \<Rightarrow> (int \<rightharpoonup> RaftNode) \<times> KVStore \<Rightarrow> InstallSnapshotRPC \<Rightarrow>
   ((int \<rightharpoonup> RaftNode) \<times> KVStore) \<times> bool rpc_reply" where
  "deliver_install alloc junk port w msg =
     (case fst w port of
        None \<Rightarrow> (w, No_Reply)
      | Some f \<Rightarrow>
          (case follower_end alloc junk (f, snd w) msg of
             ((f, s), reply) \<Rightarrow> (((fst w)(port \<mapsto> f), s), reply)))"

definition live_network ::
  "(InstallSnapshotRPC \<Rightarrow> nat) \<Rightarrow> (Snapshot \<Rightarrow> (string \<times> string) list) \<Rightarrow> (nat \<Rightarrow> bool) \<Rightarrow>
   bytes \<times> bytes \<Rightarrow> int \<Rightarrow> nat \<Rightarrow> (int \<rightharpoonup> RaftNode) network" where
  "live_network dump_len order alloc junk now rnd =
     \<lparr>dump_length = dump_len, stream_order = order, send_append = deliver_append now rnd,
      send_install = deliver_install alloc junk\<rparr>"

section \<open>One exchange\<close>

text \<open>A leader and a follower that have not taken a snapshot, in the same term.\<close>

definition follows :: "RaftNode \<Rightarrow> RaftNode \<Rightarrow> bool" where
  "follows n f \<longleftrightarrow>
     latestSnapshot n = None \<and> latestSnapshot f = None \<and> log_wf n \<and> log_wf f \<and>
     \<not> mtxHeld f \<and> \<not> receivingSnapshot f \<and> currentTerm f = currentTerm n \<and>
     state f \<noteq> CANDIDATE \<and> logs_match (log n) (log f) \<and>
     int (length (log n) + 20) < SNAPSHOT_THRESHOLD \<and> int (length (log f) + 20) < SNAPSHOT_THRESHOLD"

definition leads :: "nat \<Rightarrow> RaftNode \<Rightarrow> bool" where
  "leads i n \<longleftrightarrow>
     runningHeartbeats n \<and> \<not> shutdownRequested n \<and> i < length (nextIndex n) \<and>
     0 \<le> nextIndex n ! i \<and> nextIndex n ! i \<le> int (length (log n))"

lemma plain_batch:
  assumes "latestSnapshot n = None" "nextIndex n ! i = int k" "k \<le> length (log n)"
  shows "ae_entries (heartbeat_message i n) = take 20 (drop k (log n))"
    and "ae_prevLogIndex (heartbeat_message i n) = int k - 1"
    and "ae_prevLogTerm (heartbeat_message i n) = getLogTerm (int k - 1) n"
    and "ae_term (heartbeat_message i n) = currentTerm n"
proof -
  have "nat (int k + 20) = k + 20" by arith
  with assms show "ae_entries (heartbeat_message i n) = take 20 (drop k (log n))"
    and "ae_prevLogIndex (heartbeat_message i n) = int k - 1"
    and "ae_prevLogTerm (heartbeat_message i n) = getLogTerm (int k - 1) n"
    and "ae_term (heartbeat_message i n) = currentTerm n"
  by (auto simp: heartbeat_message_def Let_def getLogEntries_def MAX_ENTRIES_PER_BATCH_def plain_log
      min_def max_def nat_diff_distrib')
qed

text \<open>The follower's side.\<close>

lemma follower_step:
  assumes "follows n f" "nextIndex n ! i = int k" "k \<le> length (log n)"
    and "handle_AppendEntries now rnd (heartbeat_message i n) f s = (f', s', reply)"
  defines "M \<equiv> common_len (log n) (log f)"
  shows "reply = AE_Reply \<lparr>aer_term = currentTerm n, aer_success = (k \<le> M)\<rparr>"
    and "log f' = (if k = M \<and> M < length (log n) then take (M + 20) (log n) else log f)"
    and "follows n f'"
proof -
  let ?r = "heartbeat_message i n"
  note f = assms(1) [unfolded follows_def]
  have snap: "latestSnapshot n = None" "latestSnapshot f = None" using f by simp_all
  have wf: "contiguous 0 (log n)" "contiguous 0 (log f)"
    using f plain_log(1) [OF snap(1)] plain_log(1) [OF snap(2)] by (simp_all add: log_wf_contiguous)
  note batch = plain_batch [OF snap(1) assms(2,3)]
  have part: "batch_at ?r (log n) k 20"
    using batch assms(3) plain_log(4) [OF snap(1)] by (cases k) (auto simp: batch_at_def)
  have match: "logs_match (log n) (log f)" using f by simp
  have normal: "ae_normal ?r f" using f by (auto simp: ae_normal_def batch)
  note res = handle_AE_result [OF normal assms(4)]
  note check = batch_check [OF part snap(2) match, folded M_def]
  show "reply = AE_Reply \<lparr>aer_term = currentTerm n, aer_success = (k \<le> M)\<rparr>"
    using res(1) check f by simp
  show L: "log f' = (if k = M \<and> M < length (log n) then take (M + 20) (log n) else log f)"
    using batch_append [OF part _ _ wf(1), of "ae_received now rnd ?r f"] res(2) check snap(2) match
    by (auto simp: ae_appended_def M_def)
  have "contiguous 0 (log f')" using L wf by (simp add: contiguous_take)
  then have wf': "log_wf f'"
    using plain_log(1) [of f'] res(3) snap(2) by (simp add: log_wf_contiguous)
  show "follows n f'"
    using f L res wf' logs_match_prefix [of "log n" "M + 20"] by (auto simp: follows_def)
qed

text \<open>The leader's side of the same exchange, over the network of live nodes.\<close>

lemma exchange_step:
  fixes n :: RaftNode and nodes :: "int \<rightharpoonup> RaftNode"
  assumes "follows n f" "leads i n" "nodes (peerRpcPorts n ! i) = Some f"
    and "nextIndex n ! i = int k"
  defines "M \<equiv> common_len (log n) (log f)"
  obtains n' nodes' s' f' where
    "heartbeat_to (live_network dl ord alloc junk now rnd) t i (n, (nodes, s)) =
      Next_Peer (n', (nodes', s'))"
    "follows n' f'" "leads i n'" "nodes' (peerRpcPorts n' ! i) = Some f'" "log n' = log n"
    "nextIndex n' ! i = (if k \<le> M then int (k + min 20 (length (log n) - k)) else int k - 1)"
    "log f' = (if k = M \<and> M < length (log n) then take (M + 20) (log n) else log f)"
proof -
  let ?net = "live_network dl ord alloc junk now rnd"
  let ?r = "heartbeat_message i n" and ?p = "peerRpcPorts n ! i"
  let ?m = "n\<lparr>metrics := (metrics n)\<lparr>appendEntriesSent := appendEntriesSent (metrics n) + 1\<rparr>\<rparr>"
  note n = assms(2) [unfolded leads_def]
  have k: "k \<le> length (log n)" using n assms(4) by simp
  have snap: "latestSnapshot n = None" using assms(1) by (simp add: follows_def)
  note batch = plain_batch [OF snap assms(4) k]
  obtain f' s' reply where h: "handle_AppendEntries now rnd ?r f s = (f', s', reply)"
    using prod_cases3 by blast
  note fs = follower_step [OF assms(1,4) k h, folded M_def]
  define n' where "n' = (if k \<le> M
    then (if k < length (log n)
      then ?m\<lparr>nextIndex := (nextIndex n)[i := int (k + min 20 (length (log n) - k))],
              matchIndex := (matchIndex n)[i := int (k + min 20 (length (log n) - k)) - 1]\<rparr>
      else ?m)
    else back_off i ?m)"
  have "int (length (ae_entries ?r)) = int (min 20 (length (log n) - k))"
    by (simp add: batch min.commute)
  then have reply: "heartbeat_reply t i (nextIndex n ! i) (int (length (ae_entries ?r)))
      (read_append_reply reply) ?m = Next_Peer n'"
    using n k assms(4) by (auto simp: heartbeat_reply_def read_append_reply_def fs(1) n'_def)
  have "send_append ?net ?p (nodes, s) ?r = ((nodes(?p \<mapsto> f'), s'), read_append_reply reply)"
    by (simp add: live_network_def deliver_append_def assms(3) h)
  then have step: "heartbeat_to ?net t i (n, (nodes, s)) = Next_Peer (n', (nodes(?p \<mapsto> f'), s'))"
    using n snap reply by (simp add: heartbeat_to_def exchange_batch_def Let_def)
  have frame: "peer_update {i} ?m n'"
    using peer_update_set [of i ?m] peer_update_back_off [of i ?m] by (auto simp: n'_def)
  moreover have "peer_update {i} n ?m" by (rule peer_update_metrics) simp
  ultimately have "peer_update {i} n n'" by (rule peer_update_trans [rotated])
  note up = peer_update_fields [OF this]
  have run: "runningHeartbeats n' = runningHeartbeats n"
    by (simp add: n'_def back_off_def)
  have nxt: "nextIndex n' ! i =
      (if k \<le> M then int (k + min 20 (length (log n) - k)) else int k - 1)"
    using n assms(4) k by (auto simp: n'_def back_off_def M_def)
  have "log_wf n' = log_wf n" using up(2,5) by (simp add: log_wf_def base_index_def)
  then have "follows n' f'" using fs(3) up(2,3,5) by (simp add: follows_def)
  moreover have "leads i n'" using n up(1,2,13) run nxt k by (auto simp: leads_def)
  moreover have "(nodes(?p \<mapsto> f')) (peerRpcPorts n' ! i) = Some f'" using up(6) by simp
  ultimately show thesis using that [OF step _ _ _ up(2) nxt fs(2)] by blast
qed

section \<open>Convergence\<close>

text \<open>The exchanges with one peer in consecutive iterations of the heartbeat thread.\<close>

fun heartbeats ::
  "'p network \<Rightarrow> int \<Rightarrow> nat \<Rightarrow> nat \<Rightarrow> RaftNode \<times> ('p \<times> KVStore) \<Rightarrow>
   (RaftNode \<times> ('p \<times> KVStore)) heartbeat_result" where
  "heartbeats net t i 0 q = Next_Peer q"
| "heartbeats net t i (Suc k) q =
     (case heartbeat_to net t i q of
        Next_Peer q' \<Rightarrow> heartbeats net t i k q'
      | other \<Rightarrow> other)"

text \<open>
  What is left: first the entries that do not agree yet; then, below the common part, the way up
  and back down, and above it the way down.
\<close>

definition distance :: "nat \<Rightarrow> logEntry list \<Rightarrow> logEntry list \<Rightarrow> nat \<times> nat" where
  "distance k ls fs =
     (let M = common_len ls fs
      in (length ls - M, if k < M then Suc (length ls) + M - k else k - M))"

lemma distance_decreases:
  assumes "k \<le> length ls" "common_len ls fs < length ls"
  shows "(distance (if k \<le> common_len ls fs then k + min 20 (length ls - k) else k - 1) ls
      (if k = common_len ls fs then take (common_len ls fs + 20) ls else fs), distance k ls fs)
    \<in> less_than <*lex*> less_than"
  using assms common_len_prefix [of ls "common_len ls fs + 20"]
  by (auto simp: distance_def Let_def)

lemma heartbeats_converge:
  assumes "follows n f" "leads i n" "nodes (peerRpcPorts n ! i) = Some f"
  shows "\<exists>k n' nodes' s' f'.
    heartbeats (live_network dl ord alloc junk now rnd) t i k (n, (nodes, s)) =
      Next_Peer (n', (nodes', s')) \<and>
    nodes' (peerRpcPorts n' ! i) = Some f' \<and> log n' = log n \<and>
    take (length (log n)) (log f') = log n"
  using assms
proof (induction "distance (nat (nextIndex n ! i)) (log n) (log f)" arbitrary: n f nodes s
    rule: wf_induct_rule [OF wf_lex_prod [OF wf_less_than wf_less_than]])
  case (1 n f nodes s)
  let ?net = "live_network dl ord alloc junk now rnd"
  let ?M = "common_len (log n) (log f)" and ?k = "nat (nextIndex n ! i)"
  show ?case
  proof (cases "?M < length (log n)")
    case False
    then have "?M = length (log n)" using common_len_bounds(1) [of "log n" "log f"] by simp
    then have "take (length (log n)) (log f) = log n"
      using take_common_len [of "log n" "log f"] by simp
    then have "heartbeats ?net t i 0 (n, (nodes, s)) = Next_Peer (n, (nodes, s)) \<and>
        nodes (peerRpcPorts n ! i) = Some f \<and> log n = log n \<and>
        take (length (log n)) (log f) = log n"
      using "1.prems"(3) by simp
    then show ?thesis by blast
  next
    case True
    have k: "nextIndex n ! i = int ?k" "?k \<le> length (log n)"
      using "1.prems"(2) by (auto simp: leads_def)
    obtain n' nodes' s' f' where
      step: "heartbeat_to ?net t i (n, (nodes, s)) = Next_Peer (n', (nodes', s'))"
      and inv: "follows n' f'" "leads i n'" "nodes' (peerRpcPorts n' ! i) = Some f'"
      and log: "log n' = log n"
      and nxt: "nextIndex n' ! i =
        (if ?k \<le> ?M then int (?k + min 20 (length (log n) - ?k)) else int ?k - 1)"
      and flog: "log f' = (if ?k = ?M \<and> ?M < length (log n) then take (?M + 20) (log n) else log f)"
      by (rule exchange_step [of n f i nodes ?k, OF "1.prems" k(1)])
    have "nat (nextIndex n' ! i) =
        (if ?k \<le> ?M then ?k + min 20 (length (log n) - ?k) else ?k - 1)"
      unfolding nxt by auto
    moreover have "log f' = (if ?k = ?M then take (?M + 20) (log n) else log f)"
      using flog True by simp
    ultimately have "(distance (nat (nextIndex n' ! i)) (log n') (log f'),
        distance ?k (log n) (log f)) \<in> less_than <*lex*> less_than"
      using distance_decreases [OF k(2) True] log by simp
    from "1.hyps" [of n' f' nodes' s', OF this inv] obtain j n2 nodes2 s2 f2 where
      "heartbeats ?net t i j (n', (nodes', s')) = Next_Peer (n2, (nodes2, s2))"
      "nodes2 (peerRpcPorts n2 ! i) = Some f2" "log n2 = log n"
      "take (length (log n)) (log f2) = log n"
      using log by auto
    then have "heartbeats ?net t i (Suc j) (n, (nodes, s)) = Next_Peer (n2, (nodes2, s2)) \<and>
        nodes2 (peerRpcPorts n2 ! i) = Some f2 \<and> log n2 = log n \<and>
        take (length (log n)) (log f2) = log n"
      using step by simp
    then show ?thesis by blast
  qed
qed

section \<open>Properties\<close>

text \<open>
  C13: Convergence: a live follower of the leader's term catches up by heartbeats alone.  However
  far the logs are apart and wherever \<open>nextIndex\<close> starts, finitely many exchanges end with the
  leader's whole log at the front of the follower's, although the handler drops batches whose
  first entry it already has.
\<close>

theorem followers_catch_up:
  assumes "follows n f" "leads i n" "nodes (peerRpcPorts n ! i) = Some f"
  shows "\<exists>k n' nodes' s' f'.
    heartbeats (live_network dl ord alloc junk now rnd) t i k (n, (nodes, s)) =
      Next_Peer (n', (nodes', s')) \<and>
    nodes' (peerRpcPorts n' ! i) = Some f' \<and> log n' = log n \<and>
    take (length (log n)) (log f') = log n"
  using assms by (rule heartbeats_converge)

text \<open>The leader has three entries; the follower has the first and an old one in the second place.\<close>

definition behind_leader :: RaftNode where
  "behind_leader = (demo_leader [demo_entry 1 0 ''PUT a 1'', demo_entry 2 1 ''PUT b 2'',
     demo_entry 2 2 ''PUT c 3''])\<lparr>runningHeartbeats := True, nextIndex := [3, 3]\<rparr>"

definition diverged_follower :: RaftNode where
  "diverged_follower = demo_node\<lparr>currentTerm := 1,
     log := [demo_entry 1 0 ''PUT a 1'', demo_entry 1 1 ''PUT z 9'']\<rparr>"

theorem followers_catch_up_witness:
  "\<exists>k n' nodes' s' f'. heartbeats (live_network (\<lambda>_. 0) (\<lambda>_. []) (\<lambda>_. True) ([], []) 0 0) 0 0 k
      (behind_leader, ([5001 \<mapsto> diverged_follower], empty_store)) = Next_Peer (n', (nodes', s')) \<and>
    nodes' (peerRpcPorts n' ! 0) = Some f' \<and> log n' = log behind_leader \<and>
    take (length (log behind_leader)) (log f') = log behind_leader"
  by (rule followers_catch_up [of _ diverged_follower])
    (simp_all add: follows_def leads_def logs_match_def log_wf_def base_index_def less_Suc_eq
      behind_leader_def diverged_follower_def demo_leader_defs SNAPSHOT_THRESHOLD_def)

end
