(* ===== verification/Rpc_Facts.thy ===== *)
theory Rpc_Facts
  imports Rpc_Server Catch_Up
begin

text \<open>
  What the dispatcher guarantees: the client counters balance, requests it cannot read change
  nothing, and a message that takes the way through JSON has the effect of the direct call that
  the theories about replication and transfer work with.
\<close>

section \<open>Counters\<close>

abbreviation balance :: "RaftNode \<Rightarrow> int" where
  "balance n \<equiv> request_balance (metrics n)"

lemma commit_and_apply_balance:
  "balance (fst (result_of (commit_and_apply cid rid k n s))) = balance n"
proof -
  obtain n1 s1 a where loop: "apply_loop True (n\<lparr>commitIndex := k\<rparr>) s [] = (n1, s1, a)"
    using prod_cases3 by blast
  obtain j where n1: "n1 = n\<lparr>commitIndex := k, lastApplied := j\<rparr>"
    using apply_loop_fields [OF loop] by blast
  obtain n2 s2 r where snap: "(if int (length (log n1)) \<ge> SNAPSHOT_THRESHOLD
      then take_snapshot n1 s1 else (n1, s1, None)) = (n2, s2, r)"
    using prod_cases3 by blast
  have "metrics n2 = metrics n"
    using snap take_snapshot_frame(9) [of n1 s1 n2 s2 r] n1 by (auto split: if_splits)
  then show ?thesis
    unfolding commit_and_apply_def loop prod.case snap
    by (cases r) (simp_all add: persistMetadata_def)
qed

lemma commit_command_balance:
  "balance (fst (result_of (commit_command cid rid k c n s))) = balance n"
  by (simp add: commit_command_def commit_and_apply_balance)

lemma append_command_metrics [simp]: "metrics (append_command c n) = metrics n"
  by (simp add: append_command_def)

lemma handleClientCommand_balance:
  "balance (fst (result_of (handleClientCommand net cid rid c k v q))) = balance (fst q)"
proof -
  obtain n w where q: "q = (n, w)" by (cases q) blast
  let ?round = "client_round net c k v n w"
  have round: "balance (fst (result_of ?round)) = balance n"
    using replicate_all_tables [of "(appended c k v n, w, 1)" net "getLogSize n"
        "[0..<length (peerRpcPorts n)]"]
    by (simp add: same_tables_def)
  show ?thesis
  proof (cases "client_guard cid rid n = None \<and> \<not> mtxHeld n")
    case False
    then show ?thesis
      by (auto simp: q handleClientCommand_def split: option.split)
  next
    case True
    show ?thesis
    proof (cases ?round)
      case (Continues r)
      obtain n1 p s a where r: "r = (n1, (p, s), a)" by (metis prod.exhaust)
      have "balance (fst (result_of (commit_command cid rid (getLogSize n) a n1 s))) = balance n"
        using round Continues r by (simp add: commit_command_balance)
      then show ?thesis
        using True Continues r
        by (cases "commit_command cid rid (getLogSize n) a n1 s")
          (auto simp: q handleClientCommand_def Let_def split: prod.split)
    qed (use round True in \<open>auto simp: q handleClientCommand_def Let_def split: prod.split\<close>)
  qed
qed

lemma client_response_balance:
  "client_response c r n = (n', j) \<Longrightarrow> balance n' = balance n - 1"
  by (auto simp: client_response_def count_succeeded_def count_failed_def request_balance_def
      split: if_splits)

lemma handle_ClientRequest_balance:
  assumes "handle_ClientRequest net c q = (q', Responds j)" "j \<noteq> invalid_json"
  shows "balance (fst q') = balance (fst q)"
proof -
  obtain n w where q: "q = (n, w)" by (cases q) blast
  let ?n = "n\<lparr>metrics := (metrics n)\<lparr>clientRequestsReceived :=
    clientRequestsReceived (metrics n) + 1\<rparr>\<rparr>"
  let ?cmd = "handleClientCommand net (cr_clientId c) (cr_requestId c) (cr_command c) (cr_key c)
    (cr_value c) (?n, w)"
  have plus: "balance ?n = balance n + 1" by (simp add: request_balance_def)
  have cmd: "balance (fst (result_of ?cmd)) = balance n + 1"
    using handleClientCommand_balance [of net "cr_clientId c" "cr_requestId c" "cr_command c"
        "cr_key c" "cr_value c" "(?n, w)"] plus by simp
  show ?thesis
  proof (cases "state n = LEADER")
    case False
    then show ?thesis using assms by (auto simp: q handle_ClientRequest_def request_balance_def)
  next
    case True
    show ?thesis
    proof (cases ?cmd)
      case (Answers r a)
      obtain n1 w1 where r: "r = (n1, w1)" by (cases r) blast
      obtain n2 j2 where resp: "client_response (cr_command c) a n1 = (n2, j2)" by fastforce
      have "q' = (n2, w1)"
        using assms(1) True Answers r resp by (simp add: q handle_ClientRequest_def Let_def)
      then show ?thesis using client_response_balance [OF resp] cmd Answers r by (simp add: q)
    qed (use assms True in \<open>auto simp: q handle_ClientRequest_def Let_def\<close>)
  qed
qed

section \<open>Messages over the wire\<close>

text \<open>
  The library prints and parses faithfully, and the text fits the receiver's buffer of \<open>N\<close> bytes.
\<close>

definition carries :: "(string \<Rightarrow> json option) \<Rightarrow> (json \<Rightarrow> string) \<Rightarrow> nat \<Rightarrow> json \<Rightarrow> bool" where
  "carries parse dump N j \<longleftrightarrow>
     c_string (take N (dump j)) \<noteq> [] \<and> parse (c_string (take N (dump j))) = Some j"

lemma carries_received: "carries parse dump N j \<Longrightarrow> dump j \<noteq> []"
  by (auto simp: carries_def c_string_def)

lemma sendRPC_responds:
  assumes "carries parse dump 8191 req" "\<not> stopRPC (fst q)"
    and "handle_request env req q = (q', Responds j)" "carries parse dump 65535 j"
  shows "sendRPC parse dump conv env req q = (q', reply_of conv (Some j))"
  using assms carries_received [OF assms(1)]
  by (simp add: sendRPC_def handle_node_client_def carries_def)

lemma sendRPC_silent:
  assumes "carries parse dump 8191 req" "\<not> stopRPC (fst q)"
    and "handle_request env req q = (q', No_Response)"
  shows "sendRPC parse dump conv env req q = (q', No_Reply)"
  using assms carries_received [OF assms(1)]
  by (simp add: sendRPC_def handle_node_client_def carries_def)

lemma rpc_member_simps [simp]:
  "json_member (AppendEntries_to_json r) ''rpc'' = Inr (JString ''AppendEntries'')"
  "json_member (RequestVote_to_json v) ''rpc'' = Inr (JString ''RequestVote'')"
  "json_member (chunk_to_json c) ''rpc'' = Inr (JString ''InstallSnapshot'')"
  by (simp_all add: json_member_def AppendEntries_to_json_def RequestVote_to_json_def
      chunk_to_json_def)

lemma dispatch_append:
  assumes "append_request_range r"
    and "handle_AppendEntries (env_now env) (env_rnd env) r n s = (n', s', reply)"
  shows "handle_request env (AppendEntries_to_json r) (n, (p, s)) =
    ((n', (p, s')), append_reply_outcome reply)"
proof -
  have read: "read_AppendEntries (AppendEntries_to_json r) =
      Inr (r\<lparr>ae_entries := []\<rparr>, JArray (map logEntry_to_json (ae_entries r)))"
    and dec: "decode_entries (map logEntry_to_json (ae_entries r)) = (ae_entries r, True)"
    using assms(1)
    by (simp_all add: request_codec_defs append_request_range_def decode_encoded)
  have same: "r\<lparr>ae_entries := es\<rparr> = r" if "ae_entries r = es" for es
    using that by simp
  have "handle_AppendEntries_json (env_now env) (env_rnd env) (r\<lparr>ae_entries := []\<rparr>)
      (JArray (map logEntry_to_json (ae_entries r))) n s = (n', s', reply)"
    using assms(2) dec
    by (cases "ae_entries r")
      (simp_all add: handle_AppendEntries_json_def json_elems_def same del: decode_entries.simps(2))
  then show ?thesis by (simp add: handle_request_def read)
qed

lemma append_reply_read:
  assumes "\<And>resp. reply = AE_Reply resp \<Longrightarrow> int32_range (aer_term resp)"
  shows "(case append_reply_outcome reply of Responds j \<Rightarrow> reply_of AppendEntriesResponse_from_json (Some j)
      | _ \<Rightarrow> No_Reply) = read_append_reply reply"
  using assms
  by (cases reply)
    (simp_all add: append_reply_outcome_def read_append_reply_def reply_of_def
      AppendEntriesResponse_from_json_def append_response_json_def invalid_json_def json_value_def)

section \<open>Properties\<close>

text \<open>
  The client counters balance: every ClientRequest that is answered other than with the error
  object of an exception is counted once as received and once as succeeded, failed or redirected.
\<close>

theorem client_counters_balance:
  assumes "handle_ClientRequest net c q = (q', Responds j)" "j \<noteq> invalid_json"
  shows "clientRequestsReceived (metrics (fst q')) - clientRequestsReceived (metrics (fst q)) =
    (clientRequestsSucceeded (metrics (fst q')) - clientRequestsSucceeded (metrics (fst q))) +
    (clientRequestsFailed (metrics (fst q')) - clientRequestsFailed (metrics (fst q))) +
    (clientRequestsRedirected (metrics (fst q')) - clientRequestsRedirected (metrics (fst q)))"
  using handle_ClientRequest_balance [OF assms] by (simp add: request_balance_def)

definition demo_client_request :: client_request where
  "demo_client_request = \<lparr>cr_command = ''PUT'', cr_key = ''k'', cr_value = ''v'',
     cr_clientId = ''client-7'', cr_requestId = 1\<rparr>"

theorem client_counters_balance_witness:
  "\<exists>q' j. handle_ClientRequest agreeing_network demo_client_request (demo_node, ((), empty_store)) =
      (q', Responds j) \<and>
    clientRequestsReceived (metrics (fst q')) = 1 \<and>
    clientRequestsSucceeded (metrics (fst q')) + clientRequestsFailed (metrics (fst q')) +
      clientRequestsRedirected (metrics (fst q')) = 1"
proof -
  obtain q' j where h: "handle_ClientRequest agreeing_network demo_client_request
      (demo_node, ((), empty_store)) = (q', Responds j)" "j \<noteq> invalid_json"
    "clientRequestsReceived (metrics (fst q')) = 1"
    by (simp add: handle_ClientRequest_def demo_node_def RaftNode_new_def invalid_json_def
        Metrics_init_def)
  have "clientRequestsReceived (metrics demo_node) = 0" "clientRequestsSucceeded (metrics demo_node) = 0"
    "clientRequestsFailed (metrics demo_node) = 0" "clientRequestsRedirected (metrics demo_node) = 0"
    by (simp_all add: demo_node_def RaftNode_new_def Metrics_init_def)
  then have "clientRequestsSucceeded (metrics (fst q')) + clientRequestsFailed (metrics (fst q')) +
      clientRequestsRedirected (metrics (fst q')) = 1"
    using client_counters_balance [OF h(1,2)] h(3) by simp
  then show ?thesis using h by blast
qed

text \<open>
  C25: The wire is transparent: an AppendEntries that is printed, received, dispatched, answered,
  printed and read back has the effect and the reply of calling the handler on the message, which
  is the network the replication theorems are about.
\<close>

theorem append_over_wire:
  assumes "append_request_range r" "carries parse dump 8191 (AppendEntries_to_json r)"
    and "\<not> stopRPC n"
    and "handle_AppendEntries (env_now env) (env_rnd env) r n s = (n', s', reply)"
    and "\<And>resp. reply = AE_Reply resp \<Longrightarrow> int32_range (aer_term resp)"
    and "\<And>j. append_reply_outcome reply = Responds j \<Longrightarrow> carries parse dump 65535 j"
  shows "sendRPC parse dump AppendEntriesResponse_from_json env (AppendEntries_to_json r) (n, (p, s)) =
    ((n', (p, s')), read_append_reply reply)"
proof -
  note d = dispatch_append [OF assms(1,4), of p]
  note r = append_reply_read [of reply, OF assms(5)]
  show ?thesis
  proof (cases "append_reply_outcome reply")
    case (Responds j)
    then show ?thesis
      using sendRPC_responds [OF assms(2) _ d [unfolded Responds] assms(6) [OF Responds],
          of AppendEntriesResponse_from_json] assms(3) r Responds by simp
  next
    case No_Response
    then show ?thesis
      using sendRPC_silent [OF assms(2) _ d [unfolded No_Response],
          of AppendEntriesResponse_from_json] assms(3) r No_Response by simp
  qed (cases reply; simp add: append_reply_outcome_def)+
qed

text \<open>A library that knows one request and one response.\<close>

definition demo_parse :: "json \<Rightarrow> json \<Rightarrow> string \<Rightarrow> json option" where
  "demo_parse a b t = (if t = ''a'' then Some a else if t = ''b'' then Some b else None)"

definition demo_dump :: "json \<Rightarrow> json \<Rightarrow> string" where
  "demo_dump a j = (if j = a then ''a'' else ''b'')"

definition demo_env :: "unit rpc_env" where
  "demo_env = \<lparr>env_net = agreeing_network, env_alloc = \<lambda>_. True, env_junk = (''abcd'', ''abcd''),
     env_now = 0, env_rnd = 0\<rparr>"

lemma not_nul: "CHR ''a'' \<noteq> char_of (0::nat)" "CHR ''b'' \<noteq> char_of (0::nat)"
  by code_simp+

lemma demo_carries:
  "carries (demo_parse a b) (demo_dump a) 8191 a"
  "b \<noteq> a \<Longrightarrow> carries (demo_parse a b) (demo_dump a) 65535 b"
  by (simp_all add: carries_def demo_parse_def demo_dump_def c_string_def not_nul)

theorem append_over_wire_witness:
  "\<exists>q'. sendRPC (demo_parse (AppendEntries_to_json (demo_append 5 1 [] 0))
        (append_response_json \<lparr>aer_term = 1, aer_success = False\<rparr>))
      (demo_dump (AppendEntries_to_json (demo_append 5 1 [] 0))) AppendEntriesResponse_from_json
      demo_env (AppendEntries_to_json (demo_append 5 1 [] 0)) (demo_follower, ((), empty_store)) =
    (q', Reply \<lparr>aer_term = 1, aer_success = False\<rparr>)"
proof -
  let ?r = "demo_append 5 1 [] 0" and ?a = "\<lparr>aer_term = 1, aer_success = False\<rparr>"
  obtain n' s' reply where h: "handle_AppendEntries (env_now demo_env) (env_rnd demo_env) ?r
      demo_follower empty_store = (n', s', reply)"
    using prod_cases3 by blast
  have "reply = AE_Reply \<lparr>aer_term = 1, aer_success = consistency_check ?r demo_follower\<rparr>"
    using handle_AE_result(1) [OF _ h]
    by (simp add: demo_ae_defs ae_normal_def SNAPSHOT_THRESHOLD_def)
  then have reply: "reply = AE_Reply ?a"
    by (simp add: demo_ae_defs consistency_check_def)
  have "append_response_json ?a \<noteq> AppendEntries_to_json ?r"
    by (simp add: append_response_json_def AppendEntries_to_json_def)
  note carries = demo_carries(1) demo_carries(2) [OF this]
  show ?thesis
    using append_over_wire [OF _ carries(1) _ h, where p = "()"] carries(2)
    by (simp add: reply append_reply_outcome_def read_append_reply_def append_request_range_def
        demo_ae_defs int32_range_def)
qed

text \<open>
  C38: A message that does not fit the receiver's 8191 bytes is never accepted: the truncated text
  does not parse, the node is unchanged, and the error object is read by the leader as a refusal
  in term 0, so the heartbeat thread moves \<open>nextIndex\<close> back and the next batch is longer still in
  front.
\<close>

theorem oversize_message_refused:
  assumes "8191 < length (dump req)" "parse (c_string (take 8191 (dump req))) = None"
    and "carries parse dump 65535 invalid_json" "\<not> stopRPC (fst q)"
    and "runningHeartbeats l" "\<not> shutdownRequested l" "0 \<le> currentTerm l"
  shows "\<exists>reply. sendRPC parse dump AppendEntriesResponse_from_json env req q = (q, reply) \<and>
    reply = Reply \<lparr>aer_term = 0, aer_success = False\<rparr> \<and>
    heartbeat_reply t i nextIdx sent reply l = Next_Peer (back_off i l)"
proof -
  have "handle_node_client parse env (dump req) q = (q, Responds invalid_json)"
    using assms(1,2,4) by (auto simp: handle_node_client_def)
  then have "sendRPC parse dump AppendEntriesResponse_from_json env req q =
      (q, Reply \<lparr>aer_term = 0, aer_success = False\<rparr>)"
    using assms(3)
    by (simp add: sendRPC_def carries_def reply_of_def AppendEntriesResponse_from_json_def
        invalid_json_def)
  moreover have "heartbeat_reply t i nextIdx sent (Reply \<lparr>aer_term = 0, aer_success = False\<rparr>) l =
      Next_Peer (back_off i l)"
    using assms(5-7) by (simp add: heartbeat_reply_def)
  ultimately show ?thesis by blast
qed

theorem oversize_message_refused_witness:
  "\<exists>reply. sendRPC (\<lambda>t. if t = ''b'' then Some invalid_json else None)
      (\<lambda>j. if j = invalid_json then ''b'' else replicate 9000 CHR ''a'')
      AppendEntriesResponse_from_json demo_env JNull (demo_node, ((), empty_store)) =
    ((demo_node, ((), empty_store)), reply) \<and>
    heartbeat_reply 0 0 5 20 reply behind_leader = Next_Peer (back_off 0 behind_leader)"
proof -
  have cut: "c_string (take 8191 (replicate 9000 CHR ''a'')) \<noteq> ''b''"
  proof -
    have "c_string (take 8191 (replicate 9000 CHR ''a'')) = replicate 8191 CHR ''a''"
      by (simp add: c_string_def not_nul)
    then have "length (c_string (take 8191 (replicate 9000 CHR ''a''))) = 8191" by simp
    then show ?thesis by (metis length_Cons list.size(3) numeral_eq_one_iff One_nat_def
          semiring_norm(84))
  qed
  show ?thesis
    using oversize_message_refused [of "\<lambda>j. if j = invalid_json then ''b'' else replicate 9000 CHR ''a''"
        JNull "\<lambda>t. if t = ''b'' then Some invalid_json else None" "(demo_node, ((), empty_store))"
        behind_leader demo_env 0 0 5 20] cut
    by (auto simp: carries_def c_string_def not_nul invalid_json_def behind_leader_def demo_leader_defs)
qed

end
