(* ===== verification/Cli_Facts.thy ===== *)
theory Cli_Facts
  imports Cli_Session Rpc_Facts
begin

text \<open>
  What the command line server does with the lines of a user: how a line becomes a request, which
  lines end the process, and the composition with the nodes behind the port.
\<close>

section \<open>Reading a line\<close>

definition nul :: char where "nul = char_of (0::nat)"

lemma c_string_id [simp]: "nul \<notin> set s \<Longrightarrow> c_string s = s"
  by (simp add: c_string_def nul_def takeWhile_eq_all_conv) metis

lemma is_blank_space: "is_blank c \<Longrightarrow> is_space c"
  by (auto simp: is_blank_def is_space_def)

lemma newline_blank [simp]: "is_blank newline" "is_space newline"
  by (simp_all add: is_blank_def is_space_def newline_def)

text \<open>A text \<open>trim\<close> leaves alone, which can be sent as one line.\<close>

definition is_line :: "string \<Rightarrow> bool" where
  "is_line s \<longleftrightarrow> s \<noteq> [] \<and> \<not> is_blank (hd s) \<and> \<not> is_blank (last s) \<and> nul \<notin> set s \<and> length s < 4095"

lemma dropWhile_stays: "xs \<noteq> [] \<Longrightarrow> \<not> P (hd xs) \<Longrightarrow> dropWhile P xs = xs"
  by (cases xs) auto

lemma trim_id:
  assumes "s \<noteq> []" "\<not> is_blank (hd s)" "\<not> is_blank (last s)"
  shows "trim s = s"
  using assms dropWhile_stays [of "rev s" is_blank]
  by (simp add: trim_def dropWhile_stays hd_rev)

lemma trim_newline:
  assumes "s \<noteq> []" "\<not> is_blank (hd s)" "\<not> is_blank (last s)"
  shows "trim (s @ [newline]) = s"
  using assms dropWhile_stays [of "rev s" is_blank]
  by (simp add: trim_def dropWhile_stays hd_rev)

lemma received_line:
  assumes "is_line s"
  shows "trim (c_string (take 4095 (s @ [newline]))) = s"
proof -
  have "nul \<notin> set (s @ [newline])" using assms by (simp add: is_line_def nul_def newline_def)
  then have "c_string (s @ [newline]) = s @ [newline]" by (rule c_string_id)
  moreover have "take 4095 (s @ [newline]) = s @ [newline]"
    using assms by (intro take_all) (simp add: is_line_def)
  ultimately show ?thesis using assms by (simp add: is_line_def trim_newline)
qed

lemma read_token_alone [simp]: "is_word w \<Longrightarrow> read_token w = (w, [])"
  using is_word_no_space [of w]
  by (simp add: read_token_def Let_def takeWhile_eq_all_conv dropWhile_eq_Nil_conv
      skip_ws_word [of w "[]", simplified])

section \<open>PUT\<close>

text \<open>A value that may stand without quotes.\<close>

definition plain_value :: "string \<Rightarrow> bool" where
  "plain_value v \<longleftrightarrow> v \<noteq> [] \<and> \<not> is_space (hd v) \<and> hd v \<noteq> quotation \<and> hd v \<noteq> apostrophe \<and>
     \<not> is_blank (last v) \<and> newline \<notin> set v"

lemma skip_ws_plain: "v \<noteq> [] \<Longrightarrow> \<not> is_space (hd v) \<Longrightarrow> skip_ws v = v"
  by (cases v) (simp_all add: skip_ws_def)

lemma getline_until: "d \<notin> set v \<Longrightarrow> getline d (v @ d # rest) = (v, rest)"
  by (induction v) (auto simp: getline_def)

lemma getline_end: "d \<notin> set v \<Longrightarrow> getline d v = (v, [])"
  by (induction v) (auto simp: getline_def)

lemma parseValue_plain:
  assumes "plain_value v"
  shows "parseValue v = (v, [])"
proof -
  obtain c t where v: "v = c # t" using assms by (cases v) (auto simp: plain_value_def)
  have "getline newline (c # t) = (v, [])"
    using assms v by (simp add: plain_value_def getline_end)
  then show ?thesis
    using assms v trim_id [of v] is_blank_space [of c]
    by (auto simp: parseValue_def skip_ws_plain plain_value_def)
qed

lemma parseValue_blank [simp]: "parseValue (CHR '' '' # s) = parseValue s"
  by (simp add: parseValue_def)

lemma quotes_not_space [simp]: "\<not> is_space quotation" "\<not> is_space apostrophe"
  by (simp_all add: is_space_def quotation_def apostrophe_def)

lemma parseValue_quoted:
  "quotation \<notin> set v \<Longrightarrow> parseValue (quotation # v @ quotation # rest) = (v, rest)"
  by (simp add: parseValue_def skip_ws_def getline_until)

lemma put_arguments_plain:
  assumes "is_word k" "\<not> is_key_flag k" "plain_value v"
  shows "put_arguments (CHR '' '' # k @ CHR '' '' # v) = Some (k, v)"
  using assms by (simp add: put_arguments_def parseValue_plain)

section \<open>Entering a line\<close>

text \<open>The number of the request a line becomes, and the state that has entered it.\<close>

definition request_number :: "int \<Rightarrow> 'w cli_state \<Rightarrow> int" where
  "request_number sock st = (case clientRequestCounter st sock of None \<Rightarrow> 0 | Some c \<Rightarrow> c) + 1"

definition entered :: "string \<Rightarrow> int \<Rightarrow> 'w cli_state \<Rightarrow> 'w cli_state" where
  "entered line sock st =
     st\<lparr>commandHistory := commandHistory st @ [line], commandCount := commandCount st + 1,
        clientRequestCounter := (clientRequestCounter st)(sock \<mapsto> request_number sock st)\<rparr>"

lemma entered_simps [simp]:
  "world (entered line sock st) = world st" "sent (entered line sock st) = sent st"
  "commandHistory (entered line sock st) = commandHistory st @ [line]"
  by (simp_all add: entered_def)

lemma typed_not_recalled: "is_word w \<Longrightarrow> hd w \<noteq> CHR ''!'' \<Longrightarrow> recall_line h w = As_Typed"
  by (auto simp: recall_line_def)

lemma client_line_word:
  assumes "is_line line" "read_token line = (w, rest)" "is_word w" "hd w \<noteq> CHR ''!''"
  shows "client_line env sock (line @ [newline]) st =
    run_command env sock (request_number sock st) (resolveCommandAlias w) rest (entered line sock st)"
proof -
  have "line \<noteq> []" using assms(1) by (simp add: is_line_def)
  moreover have "w \<noteq> []" using assms(3) by (simp add: is_word_def)
  ultimately show ?thesis
    by (simp add: client_line_def received_line [OF assms(1)] assms(2) Let_def
        typed_not_recalled [OF assms(3,4)] entered_def request_number_def del: take_append)
qed

lemma client_line_repeats:
  assumes "is_line line" "read_token line = (w, rest)" "w \<noteq> []"
    and "recall_line (commandHistory st @ [line]) w = r"
  shows "client_line env sock (line @ [newline]) st =
    (case r of
       As_Typed \<Rightarrow> run_command env sock (request_number sock st) (resolveCommandAlias w) rest
         (entered line sock st)
     | Not_In_History msg \<Rightarrow> reply_with msg (entered line sock st)
     | Bad_Number \<Rightarrow> Some (entered line sock st, Terminated)
     | Repeat l \<Rightarrow> run_command env sock (request_number sock st)
         (resolveCommandAlias (fst (first_word l w))) (snd (first_word l w))
         (transmit (''Repeating: '' @ l @ [newline]) (entered line sock st)))"
proof -
  have "line \<noteq> []" using assms(1) by (simp add: is_line_def)
  then show ?thesis
    using assms(3,4) by (simp add: client_line_def received_line [OF assms(1)] assms(2) Let_def
        entered_def request_number_def split: recall.split del: take_append)
qed

lemma resolve_names [simp]:
  "resolveCommandAlias ''PUT'' = ''PUT''" "resolveCommandAlias ''GET'' = ''GET''"
  "resolveCommandAlias ''SNAPSHOT'' = ''SNAPSHOT''" "resolveCommandAlias ''LOGS'' = ''LOGS''"
  "resolveCommandAlias ''WATCH'' = ''WATCH''" "resolveCommandAlias ''!!'' = ''!!''"
  by code_simp+

lemma command_words [simp]:
  "is_word ''PUT''" "is_word ''GET''" "is_word ''SNAPSHOT''" "is_word ''LOGS''" "is_word ''WATCH''"
  "is_word ''!!''"
  by code_simp+

lemma read_token_command [simp]:
  "is_word w \<Longrightarrow> read_token (w @ CHR '' '' # s) = (w, CHR '' '' # s)"
  by (rule read_token_word)

text \<open>A line with a \<open>PUT\<close> in it.\<close>

definition put_line :: "string \<Rightarrow> string \<Rightarrow> string" where
  "put_line k v = ''PUT'' @ CHR '' '' # k @ CHR '' '' # v"

lemma client_line_put:
  assumes "is_line (put_line k v)" "is_word k" "\<not> is_key_flag k" "plain_value v"
  shows "client_line env sock (put_line k v @ [newline]) st =
    ask env (command_json ''PUT'' k v sock (request_number sock st)) (put_text k)
      (entered (put_line k v) sock st)"
proof -
  have tok: "read_token (put_line k v) = (''PUT'', CHR '' '' # k @ CHR '' '' # v)"
    unfolding put_line_def by (rule read_token_word) simp
  have "k \<noteq> []" "v \<noteq> []" using assms by (auto simp: is_word_def plain_value_def)
  then show ?thesis
    using client_line_word [OF assms(1) tok]
    by (simp add: run_command_def do_PUT_def put_arguments_plain [OF assms(2-4)])
qed

section \<open>The named format\<close>

lemma key_value_loop_word:
  assumes "read_token s = (w, rest)" "w \<noteq> []"
  shows "key_value_loop s k v =
    (if is_key_flag w then key_value_loop (snd (parseValue rest)) (fst (parseValue rest)) v
     else if is_value_flag w then key_value_loop (snd (parseValue rest)) k (fst (parseValue rest))
     else key_value_loop rest k v)"
  using assms by (subst key_value_loop.simps) (auto split: list.split)

lemma key_value_loop_end [simp]: "key_value_loop [] k v = (k, v)"
  by (subst key_value_loop.simps) (simp add: read_token_def skip_ws_def)

lemma flag_words [simp]:
  "is_key_flag ''--key''" "is_value_flag ''--value''" "\<not> is_key_flag ''--value''"
  "is_word ''--key''" "is_word ''--value''"
  by code_simp+

text \<open>The two spellings of a named \<open>PUT\<close>, after the command word.\<close>

definition named_plain :: "string \<Rightarrow> string \<Rightarrow> string" where
  "named_plain k v = ''--key'' @ CHR '' '' # k @ CHR '' '' # ''--value'' @ CHR '' '' # v"

definition quoted :: "string \<Rightarrow> string" where
  "quoted s = quotation # s @ [quotation]"

definition named_quoted :: "string \<Rightarrow> string \<Rightarrow> string" where
  "named_quoted k v = ''--key'' @ CHR '' '' # quoted k @ CHR '' '' # ''--value'' @ CHR '' '' # quoted v"

lemma parseKeyValue_plain:
  assumes "plain_value (k @ CHR '' '' # ''--value'' @ CHR '' '' # v)"
  shows "parseKeyValueFormat (named_plain k v) =
    (True, k @ CHR '' '' # ''--value'' @ CHR '' '' # v, [])"
proof -
  have tok: "read_token (named_plain k v) =
      (''--key'', CHR '' '' # k @ CHR '' '' # ''--value'' @ CHR '' '' # v)"
    unfolding named_plain_def by (rule read_token_word) simp
  show ?thesis
    using parseValue_plain [OF assms]
    by (simp add: parseKeyValueFormat_def key_value_loop_word [OF tok])
qed

lemma parseKeyValue_quoted:
  assumes "quotation \<notin> set k" "quotation \<notin> set v" "k \<noteq> []"
  shows "parseKeyValueFormat (named_quoted k v) = (True, k, v)"
proof -
  let ?r = "CHR '' '' # ''--value'' @ CHR '' '' # quoted v"
  have tok: "read_token (named_quoted k v) = (''--key'', CHR '' '' # quoted k @ ?r)"
    unfolding named_quoted_def by (rule read_token_word) simp
  have tok2: "read_token ?r = (''--value'', CHR '' '' # quoted v)"
    by (simp only: read_token_blank) (rule read_token_word, simp)
  have pk: "parseValue (quoted k @ ?r) = (k, ?r)"
    using parseValue_quoted [OF assms(1), of ?r] by (simp add: quoted_def)
  have pv: "parseValue (quoted v) = (v, [])"
    using parseValue_quoted [OF assms(2), of "[]"] by (simp add: quoted_def)
  show ?thesis
    using assms(3)
    by (simp add: parseKeyValueFormat_def key_value_loop_word [OF tok] pk
        key_value_loop_word [OF tok2] pv del: append.simps)
qed

lemma put_arguments_named:
  assumes "read_token s = (''--key'', rest)" "skip_ws s = s"
  shows "put_arguments (CHR '' '' # s) =
    (case parseKeyValueFormat s of (True, kv) \<Rightarrow> Some kv | (False, _) \<Rightarrow> None)"
  using assms by (simp add: put_arguments_def split: prod.split bool.split)

lemma named_tokens:
  "read_token (named_plain k v) =
    (''--key'', CHR '' '' # k @ CHR '' '' # ''--value'' @ CHR '' '' # v)"
  "read_token (named_quoted k v) =
    (''--key'', CHR '' '' # quoted k @ CHR '' '' # ''--value'' @ CHR '' '' # quoted v)"
  "skip_ws (named_plain k v) = named_plain k v" "skip_ws (named_quoted k v) = named_quoted k v"
  unfolding named_plain_def named_quoted_def
  by (rule read_token_word read_token_word skip_ws_word, simp)+

text \<open>A cluster in which no node answers, and a connection at its start.\<close>

definition dead_cluster :: "unit session_env" where
  "dead_cluster =
     \<lparr>cli_rpc = \<lambda>_ _ w. (w, Some []), cli_parse = \<lambda>_. None, cli_rand = \<lambda>w. (w, 0),
      cli_poll = \<lambda>w. (w, No_Input), cli_now = \<lambda>w. 0\<rparr>"

definition fresh_state :: "'w \<Rightarrow> 'w cli_state" where
  "fresh_state w =
     \<lparr>commandHistory = [], commandCount = 0, sessionStart = 0, clientRequestCounter = Map.empty,
      shutdownServer = False, raftShutdownRequested = False, sent = [], world = w\<rparr>"

text \<open>
  The named format as the help prints it does not work: after an unquoted key the parser takes
  the rest of the line as the key, the value stays empty, and the client is told how to use
  \<open>PUT <key> <value>\<close>.  With both arguments quoted the same line is read as intended.
\<close>

theorem named_put_needs_quotes:
  assumes "plain_value (k @ CHR '' '' # ''--value'' @ CHR '' '' # v)"
    and "quotation \<notin> set k" "quotation \<notin> set v" "k \<noteq> []"
  shows "put_arguments (CHR '' '' # named_plain k v) =
      Some (k @ CHR '' '' # ''--value'' @ CHR '' '' # v, []) \<and>
    do_PUT env sock rid (CHR '' '' # named_plain k v) st =
      reply_with (cross @ '' Usage: PUT <key> <value>'' @ [newline]) st \<and>
    put_arguments (CHR '' '' # named_quoted k v) = Some (k, v)"
  using parseKeyValue_plain [OF assms(1)] parseKeyValue_quoted [OF assms(2-4)]
  by (simp add: put_arguments_named [OF named_tokens(1,3)] put_arguments_named [OF named_tokens(2,4)]
      do_PUT_def)

theorem named_put_needs_quotes_witness:
  "put_arguments '' --key k --value v'' = Some (''k --value v'', []) \<and>
   put_arguments ('' --key '' @ [quotation] @ ''k'' @ [quotation] @ '' --value '' @ [quotation] @
      ''v'' @ [quotation]) = Some (''k'', ''v'')"
proof -
  have "plain_value ''k --value v''" "quotation \<notin> set ''k''" "quotation \<notin> set ''v''" by code_simp+
  then show ?thesis
    using named_put_needs_quotes [of "''k''" "''v''" dead_cluster 1 1 "fresh_state ()"]
    by (simp add: named_plain_def named_quoted_def quoted_def)
qed

section \<open>Screens\<close>

text \<open>A field that can be filled; a screen of such fields is rendered.\<close>

definition fills :: "json \<Rightarrow> field \<Rightarrow> bool" where
  "fills j f \<longleftrightarrow> (\<exists>s. render_field j f = Inr s)"

lemma fills_text [simp]: "fills j (Text s)"
  by (simp add: fills_def)

lemma fills_at [simp]:
  "fills j (Int_At ks) \<longleftrightarrow> (\<exists>v i. json_path j ks = Inr v \<and> get_int v = Inr i)"
  "fills j (Long_At ks) \<longleftrightarrow> (\<exists>v i. json_path j ks = Inr v \<and> get_long v = Inr i)"
  "fills j (Str_At ks) \<longleftrightarrow> (\<exists>v s. json_path j ks = Inr v \<and> get_string v = Inr s)"
  "fills j (Prefix_At n ks) \<longleftrightarrow> (\<exists>v s. json_path j ks = Inr v \<and> get_string v = Inr s)"
  by (cases "json_path j ks"; auto simp: fills_def and_then_def split: sum.splits)+

lemma render_fills: "list_all (fills j) fs \<Longrightarrow> \<exists>s. render j fs = Inr s"
  by (induction fs) (auto simp: fills_def)

lemma fills_cells [simp]: "list_all (fills j) (cells fs) \<longleftrightarrow> list_all (fills j) fs"
  by (simp add: cells_def)

lemma list_all_concat [simp]: "list_all P (concat xss) \<longleftrightarrow> list_all (list_all P) xss"
  by (induction xss) auto

lemma render_all_fills:
  "\<forall>j \<in> set js. list_all (fills j) fs \<Longrightarrow> \<exists>s. render_all fs js = Inr s"
proof (induction js)
  case (Cons j js)
  obtain s where "render j fs = Inr s" using render_fills [of j fs] Cons.prems by auto
  with Cons show ?case by auto
qed simp

lemma list_screen_fills:
  assumes "list_all (fills j) head" "json_member j key = Inr xs" "list_all (fills j) foot"
    and "\<forall>x \<in> set (json_elems xs). list_all (fills x) rows"
  shows "\<exists>s. list_screen head key rows foot j = Inr s"
proof -
  obtain h r f where "render j head = Inr h" "render_all rows (json_elems xs) = Inr r"
    "render j foot = Inr f"
    using render_fills [OF assms(1)] render_all_fills [OF assms(4)] render_fills [OF assms(3)]
    by blast
  then show ?thesis by (simp add: list_screen_def assms(2))
qed

lemma json_member_object [simp]:
  "json_member (JObject ms) key = Inr (case map_of ms key of None \<Rightarrow> JNull | Some v \<Rightarrow> v)"
  by (simp add: json_member_def)

lemma admin_text_ok [simp]: "admin_text ok failed (status_ok ms) = ok (status_ok ms)"
  by (simp add: admin_text_def status_ok_def)

lemma status_fills: "\<exists>s. status_text (snd (handle_STATUS n)) = Inr s"
proof -
  obtain n' st where st: "getStatus n = (n', st)" by fastforce
  have "list_all (fills (status_ok (status_json st))) status_screen"
    by (simp add: status_screen_def status_ok_def status_json_def)
  from render_fills [OF this] show ?thesis
    by (simp add: status_text_def handle_STATUS_def st)
qed

lemma metrics_fills: "\<exists>s. metrics_text (snd (handle_METRICS now n)) = Inr s"
proof -
  have "list_all (fills (status_ok (Metrics_toJson now m))) metrics_screen" for m
    by (simp add: metrics_screen_def status_ok_def Metrics_toJson_def)
  from render_fills [OF this] show ?thesis
    by (simp add: metrics_text_def handle_METRICS_def Let_def)
qed

lemma logsize_fills: "\<exists>s. logsize_text (handle_LOGSIZE n) = Inr s"
proof -
  have "list_all (fills (handle_LOGSIZE n)) logsize_screen"
    by (simp add: logsize_screen_def status_ok_def handle_LOGSIZE_def)
  from render_fills [OF this] show ?thesis
    by (simp add: logsize_text_def) (simp add: handle_LOGSIZE_def)
qed

lemma logs_fills:
  assumes "handle_GET_LOGS j n = Inr r"
  shows "\<exists>s. logs_text r = Inr s"
proof -
  let ?entry = "\<lambda>e. JObject [(''index'', JInt (entry_index e)), (''term'', JInt (entry_term e)),
      (''command'', JString (entry_command e))]"
  obtain c where "json_value get_int j ''count'' 10 = Inr c"
    using assms by (cases "json_value get_int j ''count'' 10") (auto simp: handle_GET_LOGS_def)
  then have r: "r = status_ok [(''logs'', JArray (map ?entry (recent_logs c n))),
      (''total_count'', JInt (int (length (log n)))),
      (''returned_count'', JInt (int (length (recent_logs c n))))]"
    using assms by (simp add: handle_GET_LOGS_def)
  have "\<exists>s. list_screen logs_head ''logs'' log_row logs_foot r = Inr s"
    by (rule list_screen_fills)
      (auto simp: r status_ok_def logs_head_def log_row_def logs_foot_def json_elems_def)
  then show ?thesis by (simp add: logs_text_def r)
qed

lemma cluster_fills: "\<exists>s. cluster_text (handle_CLUSTER_INFO n) = Inr s"
proof -
  have "\<exists>s. list_screen cluster_head ''nodes'' cluster_row cluster_foot (handle_CLUSTER_INFO n) = Inr s"
    by (rule list_screen_fills)
      (auto simp: handle_CLUSTER_INFO_def status_ok_def cluster_head_def cluster_row_def
        cluster_foot_def json_elems_def)
  then show ?thesis by (simp add: cluster_text_def) (simp add: handle_CLUSTER_INFO_def)
qed

text \<open>
  C40: The command line server can show whatever a node reports: for every state of a node, its
  replies to the five reporting requests fill their screens, with no member missing and none of
  the wrong type.
\<close>

theorem reports_can_be_shown:
  assumes "handle_GET_LOGS j n = Inr r"
  shows "(\<exists>s. status_text (snd (handle_STATUS n)) = Inr s) \<and>
    (\<exists>s. metrics_text (snd (handle_METRICS now n)) = Inr s) \<and>
    (\<exists>s. logsize_text (handle_LOGSIZE n) = Inr s) \<and>
    (\<exists>s. logs_text r = Inr s) \<and> (\<exists>s. cluster_text (handle_CLUSTER_INFO n) = Inr s)"
  using status_fills metrics_fills logsize_fills logs_fills [OF assms] cluster_fills by blast

theorem reports_can_be_shown_witness:
  "\<exists>r s. handle_GET_LOGS (JObject [(''count'', JInt 5)]) demo_node = Inr r \<and> logs_text r = Inr s"
proof -
  obtain r where r: "handle_GET_LOGS (JObject [(''count'', JInt 5)]) demo_node = Inr r"
    by (simp add: handle_GET_LOGS_def)
  then show ?thesis using reports_can_be_shown [OF r] by blast
qed

section \<open>Lines that end the process\<close>

text \<open>Digits, and the number they stand for.\<close>

definition all_digits :: "string \<Rightarrow> bool" where
  "all_digits ds \<longleftrightarrow> ds \<noteq> [] \<and> list_all is_digit ds"

lemma digit_facts: "is_digit c \<Longrightarrow> \<not> is_space c \<and> c \<noteq> CHR ''-'' \<and> c \<noteq> CHR ''+''"
  by (auto simp: is_digit_def is_space_def Let_def)

lemma all_digits_word: "all_digits ds \<Longrightarrow> is_word ds"
  by (auto simp: all_digits_def is_word_def list_all_iff dest: digit_facts)

lemma stoi_digits:
  assumes "all_digits ds"
  shows "stoi ds = (if int32_range (digits_value ds) then Inr (digits_value ds) else Inl Out_Of_Range)"
proof -
  have "is_digit (hd ds)" "ds \<noteq> []" using assms by (cases ds; simp add: all_digits_def)+
  then have "skip_ws ds = ds" "hd ds \<noteq> CHR ''-''" "hd ds \<noteq> CHR ''+''"
    using digit_facts [of "hd ds"] by (auto simp: skip_ws_plain)
  moreover have tw: "takeWhile is_digit ds = ds"
    using assms by (simp add: all_digits_def takeWhile_eq_all_conv list_all_iff)
  ultimately show ?thesis using \<open>ds \<noteq> []\<close> by (simp add: stoi_def Let_def tw)
qed

lemma literal_not_nul: "nul \<notin> set ''!LOGS ''"
  by code_simp

lemma recall_overflow:
  assumes "all_digits ds" "2 ^ 31 \<le> digits_value ds"
  shows "recall_line h (CHR ''!'' # ds) = Bad_Number"
proof -
  have "is_digit (hd ds)" "ds \<noteq> []" using assms by (cases ds; simp add: all_digits_def)+
  moreover have "hd ds \<noteq> CHR ''!''" using \<open>is_digit (hd ds)\<close> by (auto simp: is_digit_def Let_def)
  ultimately show ?thesis
    using assms by (cases ds) (auto simp: recall_line_def stoi_digits int32_range_def)
qed

lemma logs_overflow:
  assumes "all_digits ds" "2 ^ 31 \<le> digits_value ds"
  shows "logs_count ds = Inl Out_Of_Range"
proof -
  have "filter is_digit ds = ds" "ds \<noteq> []"
    using assms(1) by (simp_all add: all_digits_def filter_id_conv list_all_iff)
  then show ?thesis
    using assms by (simp add: logs_count_def Let_def stoi_digits int32_range_def)
qed

text \<open>
  A number that does not fit an \<open>int\<close> ends the whole process: \<open>std::stoi\<close> throws for
  \<open>!<number>\<close> and for \<open>LOGS <number>\<close>, nothing catches it, and the thread's exception terminates
  the server together with the three nodes it hosts.
\<close>

theorem big_number_ends_process:
  assumes "all_digits ds" "2 ^ 31 \<le> digits_value ds" "length ds < 4000"
  shows "(\<exists>st'. client_line env sock ((CHR ''!'' # ds) @ [newline]) st = Some (st', Terminated)) \<and>
    (\<exists>st'. client_line env sock ((''LOGS'' @ CHR '' '' # ds) @ [newline]) st = Some (st', Terminated))"
proof -
  have w: "is_word ds" "is_word (CHR ''!'' # ds)"
    using all_digits_word [OF assms(1)] by (auto simp: is_word_def is_space_def)
  have c: "\<not> is_blank (last ds)" "nul \<notin> set ds" "ds \<noteq> []"
    using assms(1) is_blank_space [of "last ds"] is_word_no_space [OF w(1), of "last ds"]
    by (auto simp: all_digits_def list_all_iff is_digit_def nul_def Let_def)
  have l: "is_line (CHR ''!'' # ds)" "is_line (''LOGS'' @ CHR '' '' # ds)"
    using c assms(3) literal_not_nul by (simp_all add: is_line_def is_blank_def)
  have t: "read_token (''LOGS'' @ CHR '' '' # ds) = (''LOGS'', CHR '' '' # ds)"
    by (rule read_token_word) simp
  have "client_line env sock ((CHR ''!'' # ds) @ [newline]) st =
      Some (entered (CHR ''!'' # ds) sock st, Terminated)"
    using client_line_repeats [OF l(1) read_token_alone [OF w(2)] _ recall_overflow [OF assms(1,2)]]
    by simp
  moreover have "client_line env sock ((''LOGS'' @ CHR '' '' # ds) @ [newline]) st =
      Some (entered (''LOGS'' @ CHR '' '' # ds) sock st, Terminated)"
    using client_line_word [OF l(2) t] w(1)
    by (simp add: run_command_def do_LOGS_def logs_overflow [OF assms(1,2)])
  ultimately show ?thesis by blast
qed

theorem big_number_ends_process_witness:
  "\<exists>st'. client_line dead_cluster 4 (''!3000000000'' @ [newline]) (fresh_state ()) =
    Some (st', Terminated)"
proof -
  have "all_digits ''3000000000''" "2 ^ 31 \<le> digits_value ''3000000000''" by code_simp+
  then show ?thesis
    using big_number_ends_process [of "''3000000000''" dead_cluster 4 "fresh_state ()"] by simp
qed

text \<open>
  Two answers of the cluster end the process as well.  A \<open>SNAPSHOT\<close> that no node grants comes
  back as the fixed error, which has \<open>msg\<close> where the code reads \<open>message\<close>; a \<open>GET\<close> of a key whose
  value is \<open>OK\<close> is answered without a value.
\<close>

theorem answers_end_process:
  assumes "refuses_all (cli_env.truncate env) (rpc_only ''SNAPSHOT_NOW'')"
    and "is_word k" "is_line (''GET'' @ CHR '' '' # k)"
    and "sendClientRequest (cli_env.truncate env) (command_json ''GET'' k [] sock (request_number sock st))
      (world st) = Some (w, Returned (snd (client_response ''GET'' ''OK'' n)))"
  shows "(\<exists>st'. client_line env sock (''SNAPSHOT'' @ [newline]) st = Some (st', Terminated)) \<and>
    (\<exists>st'. client_line env sock ((''GET'' @ CHR '' '' # k) @ [newline]) st = Some (st', Terminated))"
proof -
  have l: "is_line ''SNAPSHOT''" by code_simp
  obtain w' where s: "sendClientRequest (cli_env.truncate env) (rpc_only ''SNAPSHOT_NOW'') (world st) =
      Some (w', Returned unreachable)"
    using sendClientRequest_refused [OF assms(1)] by blast
  have t: "read_token (''GET'' @ CHR '' '' # k) = (''GET'', CHR '' '' # k)"
    by (rule read_token_word) simp
  have "k \<noteq> []" using assms(2) by (simp add: is_word_def)
  have "\<exists>e. snapshot_text unreachable = Inl e"
    by (simp add: snapshot_text_def admin_text_def unreachable_def)
  then have "\<exists>st'. client_line env sock (''SNAPSHOT'' @ [newline]) st = Some (st', Terminated)"
    using client_line_word [OF l read_token_alone, of env sock st]
    by (auto simp: run_command_def ask_def s)
  moreover have "\<exists>e. get_text k (snd (client_response ''GET'' ''OK'' n)) = Inl e"
    by (simp add: get_text_def answer_text_def client_response_def status_ok_def)
  then have "\<exists>st'. client_line env sock ((''GET'' @ CHR '' '' # k) @ [newline]) st = Some (st', Terminated)"
    using client_line_word [OF assms(3) t, of env sock st] assms(2,4) \<open>k \<noteq> []\<close>
    by (auto simp: run_command_def do_GET_def ask_def)
  ultimately show ?thesis by blast
qed

text \<open>A cluster that has no snapshot to make and stores \<open>OK\<close> under every key.\<close>

definition ok_cluster :: "unit session_env" where
  "ok_cluster =
     \<lparr>cli_rpc = \<lambda>_ msg w. (w, Some (if msg = rpc_only ''SNAPSHOT_NOW'' then ''refused'' else ''ok'')),
      cli_parse = \<lambda>t. Some (if t = ''ok'' then status_ok [] else status_error ''empty log''),
      cli_rand = \<lambda>w. (w, 0), cli_poll = \<lambda>w. (w, No_Input), cli_now = \<lambda>w. 0\<rparr>"

theorem answers_end_process_witness:
  "\<exists>st'. client_line ok_cluster 4 (''GET k'' @ [newline]) (fresh_state ()) = Some (st', Terminated)"
proof -
  have refused: "refuses_all (cli_env.truncate ok_cluster) (rpc_only ''SNAPSHOT_NOW'')"
    by (simp add: refuses_all_def attempt_node_def ok_cluster_def cli_env.defs read_answer_def
        status_error_def random_node_def raft_nodes_def)
  have k: "is_word ''k''" "is_line (''GET'' @ CHR '' '' # ''k'')" by code_simp+
  have answer: "sendClientRequest (cli_env.truncate ok_cluster)
      (command_json ''GET'' ''k'' [] 4 (request_number 4 (fresh_state ()))) (world (fresh_state ())) =
    Some ((), Returned (snd (client_response ''GET'' ''OK'' demo_node)))"
    by (simp add: sendClientRequest_def random_node_def ok_cluster_def cli_env.defs raft_nodes_def
        fresh_state_def request_loop.simps attempt_node_def read_answer_def command_json_def
        rpc_only_def client_response_def status_ok_def)
  show ?thesis using answers_end_process [OF refused k answer] by simp
qed

section \<open>Returning\<close>


text \<open>Nodes that point to the one on port 5002, which answers.\<close>

definition pointing_cluster :: "unit cli_env" where
  "pointing_cluster =
     \<lparr>cli_rpc = \<lambda>node msg w. (w, Some (if port node = 5002 then ''ok'' else ''there'')),
      cli_parse = \<lambda>t. Some (if t = ''ok'' then status_ok []
        else JObject [(''status'', JString ''redirect''), (''leaderId'', JInt 2)]),
      cli_rand = \<lambda>w. (w, 0)\<rparr>"


section \<open>The nodes behind the ports\<close>

text \<open>
  The three nodes of the process: a message goes to the node of the port, whose handler runs with
  the other nodes and the shared store as its surroundings.
\<close>

definition process_rpc ::
  "(string \<Rightarrow> json option) \<Rightarrow> (json \<Rightarrow> string) \<Rightarrow> (int \<Rightarrow> RaftNode list rpc_env) \<Rightarrow>
   NodeInfo \<Rightarrow> json \<Rightarrow> RaftNode list \<times> KVStore \<Rightarrow> (RaftNode list \<times> KVStore) \<times> string option" where
  "process_rpc parse dump renv info msg w =
     (let i = port info - 5000
      in case handle_node_client parse (renv i) (dump msg) (fst w ! nat i, w) of
           ((n, (ns, s)), Responds j) \<Rightarrow>
             ((ns[nat i := n], s), Some (c_string (take 65535 (dump j))))
         | ((n, (ns, s)), _) \<Rightarrow> ((ns[nat i := n], s), Some []))"

definition process_session ::
  "(string \<Rightarrow> json option) \<Rightarrow> (json \<Rightarrow> string) \<Rightarrow> (int \<Rightarrow> RaftNode list rpc_env) \<Rightarrow> nat \<Rightarrow>
   (RaftNode list \<times> KVStore) session_env" where
  "process_session parse dump renv r =
     \<lparr>cli_rpc = process_rpc parse dump renv, cli_parse = parse, cli_rand = \<lambda>w. (w, r),
      cli_poll = \<lambda>w. (w, No_Input), cli_now = \<lambda>w. 0\<rparr>"

lemma node_ports:
  assumes "0 \<le> i" "i < int (length raft_nodes)"
  shows "port (raft_nodes ! nat i) - 5000 = i"
proof -
  have "i = 0 \<or> i = 1 \<or> i = 2" using assms by (simp add: raft_nodes_def) linarith
  then show ?thesis by (auto simp: raft_nodes_def)
qed

text \<open>An attempt whose message and answer the library carries.\<close>

lemma process_attempt:
  assumes "0 \<le> i" "i < int (length raft_nodes)"
    and "carries parse dump 8191 msg" "\<not> stopRPC (ns ! nat i)"
    and "handle_request (renv i) msg (ns ! nat i, (ns, s)) = ((n', (ns', s')), Responds j)"
    and "carries parse dump 65535 j"
  shows "attempt_node (cli_env.truncate (process_session parse dump renv r)) msg i (ns, s) =
    read_answer (cli_env.truncate (process_session parse dump renv r)) i j (ns'[nat i := n'], s')"
  using assms carries_received [OF assms(3)]
  by (simp add: attempt_node_def cli_env.defs process_session_def process_rpc_def node_ports Let_def
      handle_node_client_def carries_def)

lemma dispatch_command:
  assumes "int32_range rid"
  shows "handle_request env (command_json c k v sock rid) q =
    handle_ClientRequest (env_net env) \<lparr>cr_command = c, cr_key = k, cr_value = v,
      cr_clientId = ''client-'' @ to_string sock, cr_requestId = rid\<rparr> q"
  using assms
  by (cases q) (simp add: handle_request_def command_json_def read_ClientRequest_def)

text \<open>A node that is not the leader, and what its counters are after a redirect.\<close>

definition redirecting :: "RaftNode \<Rightarrow> bool" where
  "redirecting n \<longleftrightarrow> state n \<noteq> LEADER \<and> \<not> stopRPC n \<and> 0 \<le> leaderId n \<and> leaderId n < 3"

definition redirect_json :: "int \<Rightarrow> json" where
  "redirect_json l = JObject [(''status'', JString ''redirect''), (''leaderId'', JInt l)]"

definition redirected :: "RaftNode \<Rightarrow> RaftNode" where
  "redirected n = n\<lparr>metrics := (metrics n)
     \<lparr>clientRequestsReceived := clientRequestsReceived (metrics n) + 1,
      clientRequestsRedirected := clientRequestsRedirected (metrics n) + 1\<rparr>\<rparr>"

lemma redirected_simps [simp]:
  "redirecting (redirected n) = redirecting n" "leaderId (redirected n) = leaderId n"
  "state (redirected n) = state n" "stopRPC (redirected n) = stopRPC n"
  by (simp_all add: redirecting_def redirected_def)

lemma redirect_attempt:
  assumes "0 \<le> i" "i < int (length raft_nodes)" "redirecting (ns ! nat i)" "int32_range rid"
    and "carries parse dump 8191 (command_json c k v sock rid)"
    and "carries parse dump 65535 (redirect_json (leaderId (ns ! nat i)))"
  shows "attempt_node (cli_env.truncate (process_session parse dump renv r))
      (command_json c k v sock rid) i (ns, s) =
    ((ns[nat i := redirected (ns ! nat i)], s), Redirected (leaderId (ns ! nat i)))"
proof -
  let ?n = "ns ! nat i"
  have n: "state ?n \<noteq> LEADER" "\<not> stopRPC ?n" "0 \<le> leaderId ?n" "leaderId ?n < 3"
    using assms(3) by (simp_all add: redirecting_def)
  have h: "handle_request (renv i) (command_json c k v sock rid) (?n, (ns, s)) =
      ((redirected ?n, (ns, s)), Responds (redirect_json (leaderId ?n)))"
    using n by (simp add: dispatch_command [OF assms(4)] handle_ClientRequest_def redirected_def
        redirect_json_def Let_def)
  have "narrow_int (leaderId ?n) = leaderId ?n" using n by (simp add: int32_range_def)
  then show ?thesis
    using process_attempt [where renv = renv and i = i, OF assms(1,2,5) n(2) h assms(6)] n
    by (simp add: read_answer_def redirect_json_def)
qed

lemma process_random [simp]:
  "random_node (cli_env.truncate (process_session parse dump renv r)) w =
    (w, int (r mod length raft_nodes))"
  by (simp add: random_node_def cli_env.defs process_session_def)

text \<open>A library that knows the request, the three redirects and the plain \<open>OK\<close>.\<close>

definition wire_dump :: "json \<Rightarrow> string" where
  "wire_dump j =
     (if j = redirect_json 0 then ''a'' else if j = redirect_json 1 then ''b''
      else if j = redirect_json 2 then ''c'' else if j = status_ok [] then ''d'' else ''e'')"

definition wire_parse :: "json \<Rightarrow> string \<Rightarrow> json option" where
  "wire_parse msg t =
     (if t = ''a'' then Some (redirect_json 0) else if t = ''b'' then Some (redirect_json 1)
      else if t = ''c'' then Some (redirect_json 2) else if t = ''d'' then Some (status_ok [])
      else if t = ''e'' then Some msg else None)"

lemma wire_carries:
  assumes "0 < N"
  shows "carries (wire_parse msg) wire_dump N (redirect_json 0)"
    "carries (wire_parse msg) wire_dump N (redirect_json 1)"
    "carries (wire_parse msg) wire_dump N (redirect_json 2)"
    "carries (wire_parse msg) wire_dump N (status_ok [])"
    "carries (wire_parse (command_json c k v i r)) wire_dump N (command_json c k v i r)"
proof -
  have "CHR ''a'' \<noteq> char_of (0::nat)" "CHR ''b'' \<noteq> char_of (0::nat)" "CHR ''c'' \<noteq> char_of (0::nat)"
    "CHR ''d'' \<noteq> char_of (0::nat)" "CHR ''e'' \<noteq> char_of (0::nat)" by code_simp+
  moreover obtain M where "N = Suc M" using assms by (cases N) simp_all
  ultimately show "carries (wire_parse msg) wire_dump N (redirect_json 0)"
    "carries (wire_parse msg) wire_dump N (redirect_json 1)"
    "carries (wire_parse msg) wire_dump N (redirect_json 2)"
    "carries (wire_parse msg) wire_dump N (status_ok [])"
    "carries (wire_parse (command_json c k v i r)) wire_dump N (command_json c k v i r)"
    by (simp_all add: carries_def wire_dump_def wire_parse_def c_string_def redirect_json_def
        status_ok_def command_json_def)
qed

definition demo_process :: "int \<Rightarrow> RaftNode list rpc_env" where
  "demo_process i = \<lparr>env_net = agreeing_network, env_alloc = \<lambda>_. True, env_junk = (''abcd'', ''abcd''),
     env_now = 0, env_rnd = 0\<rparr>"

section \<open>A command from the keyboard to the store\<close>

definition counted :: "RaftNode \<Rightarrow> RaftNode" where
  "counted n = n\<lparr>metrics := (metrics n)\<lparr>clientRequestsReceived :=
     clientRequestsReceived (metrics n) + 1\<rparr>\<rparr>"

lemma counted_simps [simp]:
  "client_guard c q (counted n) = client_guard c q n" "matchIndex (counted n) = matchIndex n"
  "peerRpcPorts (counted n) = peerRpcPorts n" "lastApplied (counted n) = lastApplied n"
  "getLogSize (counted n) = getLogSize n" "state (counted n) = state n"
  by (simp_all add: counted_def client_guard_def getLogSize_def base_index_def)

text \<open>The nodes after the node that was asked first has passed the request on, if it had to.\<close>

definition after_redirect :: "int \<Rightarrow> int \<Rightarrow> RaftNode list \<Rightarrow> RaftNode list" where
  "after_redirect i l ns = (if i = l then ns else ns[nat i := redirected (ns ! nat i)])"

text \<open>A \<open>PUT\<close> that the leader commits, as the dispatcher of its node answers it.\<close>

lemma put_at_leader:
  assumes "state n = LEADER" "int32_range rid" "lastApplied n + 1 = getLogSize n"
    and "client_guard (''client-'' @ to_string sock) rid n = None"
    and "length (matchIndex n) = length (peerRpcPorts n)"
    and "handleClientCommand (env_net env) (''client-'' @ to_string sock) rid ''PUT'' k v (counted n, w) =
      Answers (n', w') a"
    and "clientLastRequest n' (''client-'' @ to_string sock) = Some rid"
    and "is_word k" "newline \<notin> set v"
  shows "handle_request env (command_json ''PUT'' k v sock rid) (n, w) =
      ((count_succeeded n', w'), Responds (status_ok []))"
    and "get k (snd w') = Some v"
proof -
  have n: "client_guard (''client-'' @ to_string sock) rid (counted n) = None"
    "length (matchIndex (counted n)) = length (peerRpcPorts (counted n))"
    "lastApplied (counted n) + 1 = getLogSize (counted n)"
    using assms(3-5) by simp_all
  note ok = client_put [OF n(1,2) assms(6,7) n(3) assms(8,9)]
  have "handle_ClientRequest (env_net env) \<lparr>cr_command = ''PUT'', cr_key = k, cr_value = v,
      cr_clientId = ''client-'' @ to_string sock, cr_requestId = rid\<rparr> (n, w) =
    ((count_succeeded n', w'), Responds (status_ok []))"
    using assms(1,6) ok(1)
    by (cases w') (simp add: handle_ClientRequest_def counted_def Let_def client_response_def)
  then show "handle_request env (command_json ''PUT'' k v sock rid) (n, w) =
      ((count_succeeded n', w'), Responds (status_ok []))"
    by (simp add: dispatch_command [OF assms(2)])
  show "get k (snd w') = Some v" by (rule ok(2))
qed

text \<open>
  A \<open>GET\<close> the leader could not commit: the answer is a success, with the error as the value.
\<close>

lemma refused_get_is_a_value:
  assumes "state n = LEADER" "int32_range rid"
    and "handleClientCommand (env_net env) (''client-'' @ to_string sock) rid ''GET'' k v (counted n, (ns, s)) =
      Answers (n', (ns', s')) ''error: not committed''"
  shows "handle_request env (command_json ''GET'' k v sock rid) (n, (ns, s)) =
    ((count_succeeded n', (ns', s')),
     Responds (status_ok [(''value'', JString ''error: not committed'')]))"
  using assms
  by (simp add: dispatch_command [OF assms(2)] handle_ClientRequest_def counted_def Let_def
      client_response_def)

text \<open>The leader answers \<open>OK\<close> to the request: the loop finds it, directly or over one redirect.\<close>

lemma request_found_at_leader:
  assumes "length ns = 3" "0 \<le> l" "l < 3" "int32_range rid" "\<not> stopRPC (ns ! nat l)"
    and "i \<noteq> l \<Longrightarrow> redirecting (ns ! nat i) \<and> leaderId (ns ! nat i) = l"
    and "carries parse dump 8191 (command_json c k v sock rid)"
    and "carries parse dump 65535 (redirect_json l)" "carries parse dump 65535 (status_ok [])"
    and "handle_request (renv l) (command_json c k v sock rid)
        (ns ! nat l, (after_redirect i l ns, s)) = ((n', (ns', s')), Responds (status_ok []))"
    and "0 \<le> i" "i < 3"
  shows "request_loop (cli_env.truncate (process_session parse dump renv r))
      (command_json c k v sock rid) 0 i (ns, s) =
    Some ((ns'[nat l := n'], s'), Returned (status_ok []))"
proof -
  let ?env = "cli_env.truncate (process_session parse dump renv r)"
  let ?msg = "command_json c k v sock rid"
  have three: "length raft_nodes = 3" by (simp add: raft_nodes_def)
  have at_l: "after_redirect i l ns ! nat l = ns ! nat l"
    using assms(2,11) by (simp add: after_redirect_def)
  have "read_answer ?env l (status_ok []) w = (w, Found (status_ok []))" for w
    by (simp add: read_answer_def status_ok_def)
  then have found: "attempt_node ?env ?msg l (after_redirect i l ns, s) =
      ((ns'[nat l := n'], s'), Found (status_ok []))"
    using process_attempt [where renv = renv and i = l and ns = "after_redirect i l ns",
        OF assms(2) _ assms(7) _ _ assms(9)] assms(3,5,10) three at_l by simp
  have loop_l: "request_loop ?env ?msg 0 l (after_redirect i l ns, s) =
      Some ((ns'[nat l := n'], s'), Returned (status_ok []))"
    using assms(2,3) three by (subst request_loop.simps) (simp add: found)
  show ?thesis
  proof (cases "i = l")
    case True
    then show ?thesis using loop_l by (simp add: after_redirect_def)
  next
    case False
    then have n: "redirecting (ns ! nat i)" "leaderId (ns ! nat i) = l" using assms(6) by blast+
    have "attempt_node ?env ?msg i (ns, s) = ((after_redirect i l ns, s), Redirected l)"
      using redirect_attempt [OF assms(11) _ n(1) assms(4,7)] n(2) assms(8,12) three False
      by (simp add: after_redirect_def)
    then show ?thesis
      using loop_l assms(11,12) three by (subst request_loop.simps) simp
  qed
qed

section \<open>Watching\<close>

text \<open>Nobody types anything; the client may even be gone.\<close>

definition nobody_types :: "('w \<Rightarrow> 'w \<times> poll) \<Rightarrow> bool" where
  "nobody_types polls \<longleftrightarrow> (\<forall>w. snd (polls w) = No_Input \<or> snd (polls w) = Peer_Closed)"

lemma watch_wait_quiet: "nobody_types polls \<Longrightarrow> snd (watch_wait polls k w) = False"
proof (induction k arbitrary: w)
  case (Suc k)
  then have "snd (polls w) = No_Input \<or> snd (polls w) = Peer_Closed" by (simp add: nobody_types_def)
  then show ?case using Suc by (cases "polls w") auto
qed simp

lemma watch_loop_diverges:
  assumes "refuses_all (cli_env.truncate env) (rpc_only ''METRICS'')" "nobody_types (cli_poll env)"
    and "count < maxRefreshes"
  shows "watch_loop env interval count st = None"
proof (rule ccontr)
  let ?P = "\<lambda>env interval count st r. \<not> (refuses_all (cli_env.truncate env) (rpc_only ''METRICS'') \<and>
      nobody_types (cli_poll env) \<and> count < maxRefreshes)"
  assume "watch_loop env interval count st \<noteq> None"
  then obtain r where r: "watch_loop env interval count st = Some r" by blast
  have "?P env interval count st r"
  proof (rule watch_loop.raw_induct [where P = ?P, OF _ r], goal_cases)
    case (1 loop e i c s y)
    show ?case
    proof
      assume h: "refuses_all (cli_env.truncate e) (rpc_only ''METRICS'') \<and>
        nobody_types (cli_poll e) \<and> c < maxRefreshes"
      then obtain w where w: "sendClientRequest (cli_env.truncate e) (rpc_only ''METRICS'') (world s) =
          Some (w, Returned unreachable)"
        using sendClientRequest_refused [of "cli_env.truncate e"] by blast
      obtain w' where w': "watch_wait (cli_poll e) (nat (i * 10)) w = (w', False)"
        using watch_wait_quiet [of "cli_poll e" "nat (i * 10)" w] h by (metis prod.collapse)
      have "loop e i c (s\<lparr>world := w'\<rparr>) = Some y"
        using 1(2) h by (simp add: w w' unreachable_def Let_def)
      with 1(1) h show False by blast
    qed
  qed
  then show False using assms by blast
qed

text \<open>
  \<open>WATCH\<close> never ends while the metrics are unavailable: a refresh that failed is not counted
  towards the sixty, and a client that closed its connection reads as zero bytes, which the loop
  does not take for an end.  The thread and its retries go on for ever.
\<close>

theorem watch_never_ends:
  assumes "refuses_all (cli_env.truncate env) (rpc_only ''METRICS'')" "nobody_types (cli_poll env)"
    and "is_line (''WATCH'' @ CHR '' '' # n)"
  shows "client_line env sock ((''WATCH'' @ CHR '' '' # n) @ [newline]) st = None"
proof -
  have t: "read_token (''WATCH'' @ CHR '' '' # n) = (''WATCH'', CHR '' '' # n)"
    by (rule read_token_word) simp
  show ?thesis
    using client_line_word [OF assms(3) t, of env sock st] watch_loop_diverges [OF assms(1,2)]
    by (simp add: run_command_def do_WATCH_def Let_def maxRefreshes_def)
qed

theorem watch_never_ends_witness:
  "client_line dead_cluster 4 (''WATCH 5'' @ [newline]) (fresh_state ()) = None"
proof -
  have "refuses_all (cli_env.truncate dead_cluster) (rpc_only ''METRICS'')"
    by (auto simp: refuses_all_def attempt_node_def dead_cluster_def cli_env.defs following_def
        raft_nodes_def)
  moreover have "nobody_types (cli_poll dead_cluster)"
    by (simp add: nobody_types_def dead_cluster_def)
  moreover have "is_line (''WATCH'' @ CHR '' '' # ''5'')" by code_simp
  ultimately show ?thesis
    using watch_never_ends [of dead_cluster "''5''" 4 "fresh_state ()"] by simp
qed

end
