(* ===== verification/Process_Restart.thy ===== *)
theory Process_Restart
  imports Cli_Facts
begin

text \<open>
  What outlives the process and what does not: a leader writes the clients' last requests and their
  answers to its metadata file, \<open>handle_client\<close> counts requests in a static variable.  After a
  restart the numbers start over while the nodes remember the old ones.
\<close>

section \<open>The tables on disk\<close>

definition tables_persisted :: "RaftNode \<Rightarrow> bool" where
  "tables_persisted n \<longleftrightarrow>
     (case metadataFile n of
        Contents j \<Rightarrow> j_clientLastRequest j = Some (clientLastRequest n) \<and>
          j_clientResultCache j = Some (clientResultCache n)
      | _ \<Rightarrow> False)"

lemma persistMetadata_tables [simp]: "tables_persisted (persistMetadata n)"
  by (simp add: tables_persisted_def persistMetadata_def)

lemma commit_persists:
  "commit_and_apply cid rid k n s = Answers (n', s') a \<Longrightarrow> tables_persisted n'"
  unfolding commit_and_apply_def by (auto split: prod.splits option.splits if_splits)

lemma boot_tables:
  assumes "tables_persisted n" "boot_node nid prt peers now r (metadataFile n) snap s = Inr (n', s')"
  shows "clientLastRequest n' = clientLastRequest n" "clientResultCache n' = clientResultCache n"
  using assms
  by (auto simp: tables_persisted_def boot_node_def loadMetadata_def start_restore_def RaftNode_new_def
      split: disk_file.splits)

text \<open>A recorded request is remembered by the node the file is read into.\<close>

lemma recorded_persisted:
  assumes "client_guard cid rid n = None" "length (matchIndex n) = length (peerRpcPorts n)"
    and "handleClientCommand net cid rid c k v (n, w) = Answers (n1, w1) a"
    and "clientLastRequest n1 cid = Some rid"
  shows "tables_persisted n1" "clientResultCache n1 cid = Some a"
proof -
  obtain m p s1 cnt where m: "commit_and_apply cid rid (getLogSize n) m s1 = Answers (n1, snd w1) a"
    "\<not> shutdownRequested m"
    by (rule handle_committed [OF assms(1,3,4)])
  show "tables_persisted n1" "clientResultCache n1 cid = Some a"
    using commit_persists [OF m(1)] commit_and_apply_answers(2) [OF m] by simp_all
qed

lemma recorded_survives:
  assumes "client_guard cid rid n = None" "length (matchIndex n) = length (peerRpcPorts n)"
    and "handleClientCommand net cid rid c k v (n, w) = Answers (n1, w1) a"
    and "clientLastRequest n1 cid = Some rid"
    and "boot_node nid prt peers now r (metadataFile n1) snap s = Inr (n2, s2)"
  shows "clientLastRequest n2 cid = Some rid" "clientResultCache n2 cid = Some a"
  using boot_tables [OF recorded_persisted(1) [OF assms(1-4)] assms(5)]
    recorded_persisted(2) [OF assms(1-4)] assms(4) by simp_all

section \<open>A number that comes again\<close>

lemma swallowed_at_leader:
  assumes "state n = LEADER" "\<not> shutdownRequested n" "int32_range rid"
    and "clientLastRequest n (''client-'' @ to_string sock) = Some rid"
    and "clientResultCache n (''client-'' @ to_string sock) = Some ''OK''"
  shows "handle_request env (command_json c k v sock rid) (n, w) =
    ((count_succeeded (counted n), w), Responds (status_ok []))"
proof -
  have "client_guard (''client-'' @ to_string sock) rid (counted n) = Some ''OK''"
    using assms by (simp add: client_guard_def counted_def)
  then have "handleClientCommand (env_net env) (''client-'' @ to_string sock) rid c k v (counted n, w) =
      Answers (counted n, w) ''OK''"
    by (cases w) (simp add: handleClientCommand_def)
  then show ?thesis
    using assms(1)
    by (simp add: dispatch_command [OF assms(3)] handle_ClientRequest_def counted_def Let_def
        client_response_def)
qed

lemma counted_logs [simp]:
  "log (counted n) = log n" "log (redirected n) = log n" "log (count_succeeded n) = log n"
  by (simp_all add: counted_def redirected_def count_succeeded_def)

lemma after_redirect_logs: "map log (after_redirect i l ns) = map log ns"
  by (cases "nat i < length ns")
    (simp_all add: after_redirect_def map_update list_update_same_conv not_less list_update_beyond)

section \<open>Properties\<close>

text \<open>
  C10: A command can be swallowed after a restart: when a leader recorded request \<open>rid\<close> of the
  client on some descriptor before the restart, and has read its metadata file and leads again, then
  the \<open>rid\<close>th command of a new connection on that descriptor is taken for the old one.  The user
  reads that the key was added; the store and all logs are as before.
\<close>

theorem restart_swallows_put:
  assumes "client_guard cid rid n0 = None" "length (matchIndex n0) = length (peerRpcPorts n0)"
    and "handleClientCommand net cid rid c0 k0 v0 (n0, w0) = Answers (n1, w1) ''OK''"
    and "clientLastRequest n1 cid = Some rid" "cid = ''client-'' @ to_string sock"
    and "boot_node nid prt peers now rnd (metadataFile n1) snap s0 = Inr (n2, s2)"
    and "world st = (ns, s)" "length ns = 3" "0 \<le> l" "l < 3" "i = int (r mod 3)"
    and "state (ns ! nat l) = LEADER" "\<not> shutdownRequested (ns ! nat l)" "\<not> stopRPC (ns ! nat l)"
    and "clientLastRequest (ns ! nat l) = clientLastRequest n2"
      "clientResultCache (ns ! nat l) = clientResultCache n2"
    and "rid = request_number sock st" "int32_range rid"
    and "is_line (put_line k v)" "is_word k" "\<not> is_key_flag k" "plain_value v"
    and "i \<noteq> l \<Longrightarrow> redirecting (ns ! nat i) \<and> leaderId (ns ! nat i) = l"
    and "carries parse dump 8191 (command_json ''PUT'' k v sock rid)"
      "carries parse dump 65535 (redirect_json l)" "carries parse dump 65535 (status_ok [])"
  shows "\<exists>st'. client_line (process_session parse dump renv r) sock (put_line k v @ [newline]) st =
      Some (st', Goes_On) \<and>
    last (sent st') = about_key tick k '' added successfully.'' \<and>
    snd (world st') = s \<and> map log (fst (world st')) = map log ns"
proof -
  note tab = recorded_survives [OF assms(1-4,6)]
  have h: "handle_request (renv l) (command_json ''PUT'' k v sock rid)
      (ns ! nat l, (after_redirect i l ns, s)) =
    ((count_succeeded (counted (ns ! nat l)), (after_redirect i l ns, s)), Responds (status_ok []))"
    by (rule swallowed_at_leader [OF assms(12,13,18)]) (use tab assms(5,15,16) in simp_all)
  have i: "0 \<le> i" "i < 3" using assms(11) by simp_all
  let ?ns = "(after_redirect i l ns)[nat l := count_succeeded (counted (ns ! nat l))]"
  have loop: "sendClientRequest (cli_env.truncate (process_session parse dump renv r))
      (command_json ''PUT'' k v sock rid) (ns, s) = Some ((?ns, s), Returned (status_ok []))"
    using request_found_at_leader [where renv = renv, OF assms(8-10,18,14,23-26) h i] assms(11)
    by (simp add: sendClientRequest_def raft_nodes_def)
  have "nat l < length ns" using assms(8-10) by simp
  then have logs: "map log ?ns = map log ns"
    by (simp add: map_update after_redirect_logs list_update_same_conv)
  have shown: "put_text k (status_ok []) = Inr (about_key tick k '' added successfully.'')"
    by (simp add: put_text_def answer_text_def status_ok_def)
  show ?thesis
    using client_line_put [OF assms(19-22), of "process_session parse dump renv r" sock st] loop shown
      assms(7,17) logs
    by (simp add: ask_def reply_with_def transmit_def)
qed

theorem restart_swallows_put_witness:
  "\<exists>n1 w1 n2 st'.
    handleClientCommand agreeing_network (''client-'' @ to_string 4) 1 ''PUT'' ''a'' ''1''
      (demo_leader [demo_entry 1 0 ''GET x ''], ((), empty_store)) = Answers (n1, w1) ''OK'' \<and>
    boot_node 0 5000 [5001, 5002] 0 0 (metadataFile n1) Missing empty_store = Inr (n2, empty_store) \<and>
    client_line (process_session (wire_parse (command_json ''PUT'' ''k'' ''v'' 4 1)) wire_dump demo_process 0) 4
      (''PUT k v'' @ [newline])
      (fresh_state ([n2\<lparr>state := LEADER\<rparr>, demo_node, demo_node], empty_store)) = Some (st', Goes_On) \<and>
    snd (world st') = empty_store"
proof -
  let ?l = "demo_leader [demo_entry 1 0 ''GET x '']" and ?cid = "''client-'' @ to_string 4"
  obtain n1 w1 a where h: "handleClientCommand agreeing_network ?cid 1 ''PUT'' ''a'' ''1''
      (?l, ((), empty_store)) = Answers (n1, w1) a" "clientLastRequest n1 ?cid = Some 1"
    by (rule agreeing_answers [of "[demo_entry 1 0 ''GET x '']"]) simp_all
  have "is_word ''a''" "newline \<notin> set ''1''" by code_simp+
  then have a: "a = ''OK''"
    using client_put(1) [OF demo_leader_guard(2) demo_leader_sizes(1) h] by simp
  have "tables_persisted n1" by (rule recorded_persisted(1) [OF demo_leader_guard(2) demo_leader_sizes(1) h])
  then obtain n2 where b: "boot_node 0 5000 [5001, 5002] 0 0 (metadataFile n1) Missing empty_store = Inr (n2, empty_store)"
    and n2: "\<not> shutdownRequested n2" "\<not> stopRPC n2"
    by (cases "metadataFile n1") (auto simp: tables_persisted_def boot_node_def loadMetadata_def RaftNode_new_def start_restore_def)
  let ?ns = "[n2\<lparr>state := LEADER\<rparr>, demo_node, demo_node]"
  let ?st = "fresh_state (?ns, empty_store)"
  have line: "is_line (put_line ''k'' ''v'')" "is_word ''k''" "\<not> is_key_flag ''k''" "plain_value ''v''"
    by code_simp+
  have rid: "1 = request_number 4 ?st" by (simp add: request_number_def fresh_state_def)
  have "\<exists>st'. client_line
      (process_session (wire_parse (command_json ''PUT'' ''k'' ''v'' 4 1)) wire_dump demo_process 0) 4
      (put_line ''k'' ''v'' @ [newline]) ?st = Some (st', Goes_On) \<and>
    last (sent st') = about_key tick ''k'' '' added successfully.'' \<and>
    snd (world st') = empty_store \<and> map log (fst (world st')) = map log ?ns"
    by (rule restart_swallows_put [OF demo_leader_guard(2) demo_leader_sizes(1) h [unfolded a] refl b,
          where l = 0 and i = 0])
      (use line rid n2 wire_carries in \<open>simp_all add: fresh_state_def int32_range_def demo_process_def\<close>)
  moreover have "put_line ''k'' ''v'' = ''PUT k v''" by (simp add: put_line_def)
  ultimately show ?thesis using h(1) [unfolded a] b by metis
qed

end
