(* ===== verification/Cluster_Election.thy ===== *)
theory Cluster_Election
  imports Election
begin

text \<open>
  Elections of the whole cluster.  A step is one piece of \<open>start_election\<close> or of a handler between
  two points where other threads can run: the steps of \<open>Election\<close>, put together over all nodes,
  with lost messages, restarts, and everything else a node does as one step that leaves term and
  vote to the rules of voting.
\<close>

section \<open>Quorums\<close>

locale quorum_system =
  fixes quorum :: "'v set \<Rightarrow> bool"
  assumes overlap: "quorum A \<Longrightarrow> quorum B \<Longrightarrow> A \<inter> B \<noteq> {}"
begin

text \<open>If nobody votes twice, at most one candidate has a quorum behind it.\<close>

lemma elected_unique:
  assumes "\<And>v c d. (v, c) \<in> votes \<Longrightarrow> (v, d) \<in> votes \<Longrightarrow> c = d"
    and "quorum A" "A \<times> {c} \<subseteq> votes" "quorum B" "B \<times> {d} \<subseteq> votes"
  shows "c = d"
proof -
  obtain v where "v \<in> A" "v \<in> B" using overlap [OF assms(2,4)] by blast
  then show ?thesis using assms(1,3,5) by blast
qed

end

text \<open>\<open>votes > nodes.size() / 2\<close>\<close>

definition majority :: "nat \<Rightarrow> nat set \<Rightarrow> bool" where
  "majority N Q \<longleftrightarrow> Q \<subseteq> {..<N} \<and> N div 2 < card Q"

interpretation majorities: quorum_system "majority N" for N
proof
  fix A B assume "majority N A" "majority N B"
  then have s: "A \<subseteq> {..<N}" "B \<subseteq> {..<N}" and c: "N < card A + card B"
    by (auto simp: majority_def)
  have f: "finite A" "finite B" using s finite_subset by blast+
  have "card (A \<union> B) \<le> N" using s card_mono [of "{..<N}" "A \<union> B"] by simp
  then show "A \<inter> B \<noteq> {}" using c card_Un_disjoint [OF f] by auto
qed

section \<open>The cluster\<close>

text \<open>
  A thread in \<open>start_election\<close>: the term it stood for, the peers not yet asked, the votes counted,
  and where it is in the exchange with one peer.
\<close>

datatype phase =
    Idle
  | Requested int RequestVoteRPC                  \<comment> \<open>sent to a port, not yet handled\<close>
  | Answered "RequestVoteResponse rpc_reply"      \<comment> \<open>handled or lost, the reply on its way\<close>

datatype election_thread =
  Election (stood_for: int) (unasked: "int list") (counted_votes: int) (phase: phase)

record cluster =
  nodes :: "RaftNode list"
  threads :: "nat \<Rightarrow> election_thread option"

text \<open>The node that listens on a port.\<close>

definition port_node :: "int \<Rightarrow> nat" where
  "port_node p = nat (p - 5000)"

text \<open>What a step tells about the election; \<open>Won i t t'\<close>: standing for \<open>t\<close>, leader in \<open>t'\<close>.\<close>

datatype election_event =
    Began nat int
  | Granted nat int nat
  | Won nat int int
  | Silent

text \<open>
  What any other activity of a node may do to its vote: keep it, or move to a later term.  The file
  keeps up with it.
\<close>

definition vote_rely :: "RaftNode \<Rightarrow> RaftNode \<Rightarrow> bool" where
  "vote_rely n n' \<longleftrightarrow>
     \<not> shutdownRequested n' \<and> vote_persisted n' \<and> currentTerm n \<le> currentTerm n' \<and>
     (currentTerm n' = currentTerm n \<and> votedFor n \<noteq> - 1 \<longrightarrow> votedFor n' = votedFor n) \<and>
     node_id n' = node_id n \<and> peerRpcPorts n' = peerRpcPorts n"

definition set_node :: "nat \<Rightarrow> RaftNode \<Rightarrow> cluster \<Rightarrow> cluster" where
  "set_node i n c = c\<lparr>nodes := (nodes c)[i := n]\<rparr>"

definition set_thread :: "nat \<Rightarrow> election_thread option \<Rightarrow> cluster \<Rightarrow> cluster" where
  "set_thread i t c = c\<lparr>threads := (threads c)(i := t)\<rparr>"

definition answer_of :: "RequestVoteResponse option \<Rightarrow> RequestVoteResponse rpc_reply" where
  "answer_of r = (case r of None \<Rightarrow> No_Reply | Some resp \<Rightarrow> Reply resp)"

inductive ballot_step :: "cluster \<Rightarrow> election_event \<Rightarrow> cluster \<Rightarrow> bool" where
  Begin: "i < length (nodes c) \<Longrightarrow> threads c i = None \<Longrightarrow> begin_election (nodes c ! i) = Goes_On n \<Longrightarrow>
    ballot_step c (Began i (currentTerm n))
      (set_thread i (Some (Election (currentTerm n) (peerRpcPorts n) 1 Idle)) (set_node i n c))"
| Send: "i < length (nodes c) \<Longrightarrow> threads c i = Some (Election t (p # ps) v Idle) \<Longrightarrow>
    ballot_step c Silent
      (set_thread i (Some (Election t ps v (Requested p (vote_request (nodes c ! i))))) c)"
| Deliver: "i < length (nodes c) \<Longrightarrow> threads c i = Some (Election t ps v (Requested p r)) \<Longrightarrow>
    port_node p < length (nodes c) \<Longrightarrow>
    handle_RequestVote r (nodes c ! port_node p) = (n, resp) \<Longrightarrow>
    ballot_step c
      (if vote_granted r (nodes c ! port_node p) then Granted (port_node p) (rv_term r) i else Silent)
      (set_thread i (Some (Election t ps v (Answered (answer_of resp)))) (set_node (port_node p) n c))"
| Lose: "threads c i = Some (Election t ps v ph) \<Longrightarrow> ph \<noteq> Idle \<Longrightarrow>
    ballot_step c Silent (set_thread i (Some (Election t ps v (Answered No_Reply))) c)"
| Receive: "i < length (nodes c) \<Longrightarrow> threads c i = Some (Election t ps v (Answered reply)) \<Longrightarrow>
    receive_vote reply (nodes c ! i, v) = Goes_On (n, v') \<Longrightarrow>
    ballot_step c Silent (set_thread i (Some (Election t ps v' Idle)) (set_node i n c))"
| Give_Up: "i < length (nodes c) \<Longrightarrow> threads c i = Some (Election t ps v (Answered reply)) \<Longrightarrow>
    receive_vote reply (nodes c ! i, v) = Returns (n, v') \<Longrightarrow>
    ballot_step c Silent (set_thread i None (set_node i n c))"
| Finish: "i < length (nodes c) \<Longrightarrow> threads c i = Some (Election t [] v Idle) \<Longrightarrow>
    finish_election (length (nodes c)) now rnd (nodes c ! i, v) = Returns n \<Longrightarrow>
    ballot_step c (if v > int (length (nodes c) div 2) then Won i t (currentTerm n) else Silent)
      (set_thread i None (set_node i n c))"
| Restart: "i < length (nodes c) \<Longrightarrow> reboot now rnd s (nodes c ! i) = Inr (n, s') \<Longrightarrow>
    ballot_step c Silent (set_thread i None (set_node i n c))"

text \<open>What else happens to a node is one step that may do whatever \<open>vote_rely\<close> allows.\<close>

inductive election_step :: "cluster \<Rightarrow> election_event \<Rightarrow> cluster \<Rightarrow> bool" where
  Ballot: "ballot_step c e c' \<Longrightarrow> election_step c e c'"
| Other: "i < length (nodes c) \<Longrightarrow> vote_rely (nodes c ! i) n \<Longrightarrow>
    election_step c Silent (set_node i n c)"

inductive_cases election_stepE: "election_step c e c'"

inductive election_run :: "cluster \<Rightarrow> election_event list \<Rightarrow> cluster \<Rightarrow> bool" where
  Start: "election_run c [] c"
| Then: "election_run c tr c' \<Longrightarrow> election_step c' e c'' \<Longrightarrow> election_run c (e # tr) c''"

text \<open>Runs in which nothing but elections happens.\<close>

inductive ballot_run :: "cluster \<Rightarrow> election_event list \<Rightarrow> cluster \<Rightarrow> bool" where
  No_Ballot: "ballot_run c [] c"
| Next_Ballot: "ballot_run c tr c' \<Longrightarrow> ballot_step c' e c'' \<Longrightarrow> ballot_run c (e # tr) c''"

lemma ballot_run_election: "ballot_run c tr c' \<Longrightarrow> election_run c tr c'"
  by (induction rule: ballot_run.induct) (auto intro: election_run.intros election_step.Ballot)

text \<open>\<open>raftAlgorithm\<close>'s nodes before anything happened.\<close>

definition new_cluster :: "nat \<Rightarrow> cluster" where
  "new_cluster N =
     \<lparr>nodes = map (\<lambda>i. RaftNode_new (int i) (5000 + int i) (raft_peers 5000 N i) 0 Missing Missing)
        [0..<N],
      threads = \<lambda>i. None\<rparr>"

section \<open>Every step keeps the rules of voting\<close>

lemma begin_rely:
  assumes "begin_election n = Goes_On n'" "\<not> shutdownRequested n"
  shows "vote_rely n n'" "currentTerm n' = currentTerm n + 1" "votedFor n' = node_id n"
  using assms
  by (auto simp: begin_election_def vote_rely_def split: if_splits)

lemma vote_handler_rely:
  assumes "handle_RequestVote r n = (n', resp)" "\<not> shutdownRequested n" "vote_persisted n"
    and "peerRpcPorts n' = peerRpcPorts n"
  shows "vote_rely n n'"
  using vote_step [OF assms(2,3,1)] assms(4) by (auto simp: vote_rely_def)

lemma handle_RequestVote_peers:
  "handle_RequestVote r n = (n', resp) \<Longrightarrow> peerRpcPorts n' = peerRpcPorts n"
  by (auto simp: handle_RequestVote_def decide_vote_def becomeFollower_def Let_def
      split: if_splits option.splits)

lemma receive_goes_on:
  assumes "receive_vote reply (n, v) = Goes_On (n', v')"
  shows "currentTerm n' = currentTerm n" "votedFor n' = votedFor n" "node_id n' = node_id n"
    "peerRpcPorts n' = peerRpcPorts n" "metadataFile n' = metadataFile n"
    "shutdownRequested n' = shutdownRequested n"
    "v' = v + (case reply of Reply resp \<Rightarrow> if voteGranted resp then 1 else 0 | _ \<Rightarrow> 0)"
  using assms by (auto simp: receive_vote_def Let_def split: if_splits rpc_reply.splits)

lemma receive_rely:
  assumes "receive_vote reply (n, v) = Goes_On (n', v')" "\<not> shutdownRequested n" "vote_persisted n"
  shows "vote_rely n n'"
  using receive_goes_on [OF assms(1)] assms(2,3) vote_persisted_cong [of n' n]
  by (simp add: vote_rely_def)

lemma give_up_rely:
  assumes "receive_vote reply (n, v) = Returns (n', v')" "\<not> shutdownRequested n" "vote_persisted n"
  shows "vote_rely n n'"
  using assms by (auto simp: receive_vote_def Let_def vote_rely_def split: if_splits rpc_reply.splits)

lemma finish_rely:
  assumes "finish_election N now r (n, v) = Returns n'" "\<not> shutdownRequested n" "vote_persisted n"
  shows "vote_rely n n'" "currentTerm n' = currentTerm n"
    "v > int (N div 2) \<Longrightarrow> state n' = LEADER"
  using assms
  by (auto simp: finish_election_def reset_timeout_def become_leader_def vote_rely_def
      split: if_splits option.splits)

lemma restart_rely:
  assumes "reboot now r s n = Inr (n', s')" "vote_persisted n"
  shows "vote_rely n n'"
proof -
  have "peerRpcPorts n' = peerRpcPorts n"
    using assms(1)
    by (auto simp: reboot_def boot_node_def loadMetadata_def start_restore_def RaftNode_new_def
        split: disk_file.splits sum.splits option.splits)
  then show ?thesis
    using vote_persisted_boot [OF assms(2) assms(1) [unfolded reboot_def]]
    by (simp add: vote_rely_def)
qed

section \<open>The invariant\<close>

text \<open>The votes of a run: who voted in which term for whom.  To stand is to vote for oneself.\<close>

definition grants :: "election_event list \<Rightarrow> (nat \<times> int \<times> nat) set" where
  "grants tr = {(j, t, i). Granted j t i \<in> set tr \<or> Began i t \<in> set tr \<and> j = i}"

lemma grants_simps [simp]:
  "grants [] = {}" "grants (Silent # tr) = grants tr" "grants (Won i t t' # tr) = grants tr"
  "grants (Granted j t i # tr) = insert (j, t, i) (grants tr)"
  "grants (Began i t # tr) = insert (i, t, i) (grants tr)"
  by (auto simp: grants_def)

definition node_ok :: "nat \<Rightarrow> RaftNode \<Rightarrow> bool" where
  "node_ok j n \<longleftrightarrow> \<not> shutdownRequested n \<and> vote_persisted n \<and> node_id n = int j \<and>
     distinct (map port_node (peerRpcPorts n)) \<and> j \<notin> port_node ` set (peerRpcPorts n)"

text \<open>The memory of a voter agrees with the votes it has cast.\<close>

definition backs :: "(nat \<times> int \<times> nat) set \<Rightarrow> nat \<Rightarrow> RaftNode \<Rightarrow> bool" where
  "backs G j n \<longleftrightarrow>
     (\<forall>t k. (j, t, k) \<in> G \<longrightarrow> t \<le> currentTerm n \<and> (t = currentTerm n \<longrightarrow> votedFor n = int k))"

definition single_votes :: "(nat \<times> int \<times> nat) set \<Rightarrow> bool" where
  "single_votes G \<longleftrightarrow> (\<forall>j t k k'. (j, t, k) \<in> G \<longrightarrow> (j, t, k') \<in> G \<longrightarrow> k = k')"

text \<open>The peers a thread may still count: those not asked, and the one a request is on its way to.\<close>

definition to_ask :: "election_thread \<Rightarrow> nat list" where
  "to_ask th = map port_node (unasked th) @
     (case phase th of Requested p r \<Rightarrow> [port_node p] | _ \<Rightarrow> [])"

text \<open>
  While the candidate is in the term it stood for, its count is the number of distinct voters that
  granted it their vote in that term, and a granted vote on its way is of one not counted yet.
\<close>

definition counted_in :: "(nat \<times> int \<times> nat) set \<Rightarrow> nat \<Rightarrow> election_thread \<Rightarrow> nat set \<Rightarrow> bool" where
  "counted_in G i th V \<longleftrightarrow>
     finite V \<and> counted_votes th = int (card V) \<and> V \<inter> set (to_ask th) = {} \<and>
     V \<times> {(stood_for th, i)} \<subseteq> G \<and>
     (\<forall>p r. phase th = Requested p r \<longrightarrow> rv_term r = stood_for th) \<and>
     (\<forall>resp. phase th = Answered (Reply resp) \<and> voteGranted resp \<longrightarrow>
        (\<exists>j. j \<notin> V \<and> j \<notin> set (to_ask th) \<and> (j, stood_for th, i) \<in> G))"

definition supported :: "(nat \<times> int \<times> nat) set \<Rightarrow> nat \<Rightarrow> RaftNode \<Rightarrow> election_thread \<Rightarrow> bool" where
  "supported G i n th \<longleftrightarrow>
     stood_for th \<le> currentTerm n \<and> distinct (to_ask th) \<and>
     (\<forall>p r. phase th = Requested p r \<longrightarrow> rv_candidateId r = int i) \<and>
     (currentTerm n = stood_for th \<longrightarrow> (\<exists>V. counted_in G i th V))"

definition election_inv :: "nat \<Rightarrow> cluster \<Rightarrow> election_event list \<Rightarrow> bool" where
  "election_inv N c tr \<longleftrightarrow>
     length (nodes c) = N \<and> single_votes (grants tr) \<and> (\<forall>j t k. (j, t, k) \<in> grants tr \<longrightarrow> j < N) \<and>
     (\<forall>j < N. node_ok j (nodes c ! j) \<and> backs (grants tr) j (nodes c ! j)) \<and>
     (\<forall>i th. threads c i = Some th \<longrightarrow> i < N \<and> supported (grants tr) i (nodes c ! i) th) \<and>
     (\<forall>i t. Won i t t \<in> set tr \<longrightarrow> (\<exists>Q. majority N Q \<and> Q \<times> {(t, i)} \<subseteq> grants tr))"

lemma rely_refl: "node_ok j n \<Longrightarrow> vote_rely n n"
  by (simp add: node_ok_def vote_rely_def)

lemma rely_ok: "node_ok j n \<Longrightarrow> vote_rely n n' \<Longrightarrow> node_ok j n'"
  by (simp add: node_ok_def vote_rely_def)

lemma rely_backs: "backs G j n \<Longrightarrow> vote_rely n n' \<Longrightarrow> backs G j n'"
  by (force simp: backs_def vote_rely_def)

lemma counted_in_mono: "counted_in G i th V \<Longrightarrow> G \<subseteq> G' \<Longrightarrow> counted_in G' i th V"
  unfolding counted_in_def by blast

lemma rely_supported:
  assumes "supported G i n th" "vote_rely n n'" "G \<subseteq> G'"
  shows "supported G' i n' th"
proof -
  have "currentTerm n \<le> currentTerm n'" using assms(2) by (simp add: vote_rely_def)
  then show ?thesis
    using assms(1) counted_in_mono [OF _ assms(3)] unfolding supported_def by (auto; fastforce)
qed

text \<open>
  The step all cases share: one node moves on, at most one vote of that node in its new term is
  added, and one thread is replaced.
\<close>

lemma election_inv_step:
  assumes inv: "election_inv N c tr" and "i < N" and rely: "vote_rely (nodes c ! i) n"
    and votes: "grants (e # tr) = grants tr \<or>
      grants (e # tr) = insert (i, currentTerm n, k) (grants tr) \<and> votedFor n = int k"
    and wins: "\<And>w t. e = Won w t t \<Longrightarrow>
      \<exists>Q. majority N Q \<and> Q \<times> {(t, w)} \<subseteq> grants tr"
    and thr: "\<And>th. t = Some th \<Longrightarrow> m < N \<and>
      supported (grants (e # tr)) m (nodes (set_node i n c) ! m) th"
  shows "election_inv N (set_thread m t (set_node i n c)) (e # tr)"
proof -
  have len: "length (nodes c) = N" and single: "single_votes (grants tr)"
    and dom: "\<forall>j t k. (j, t, k) \<in> grants tr \<longrightarrow> j < N"
    and ok: "\<And>j. j < N \<Longrightarrow> node_ok j (nodes c ! j)"
    and backs: "\<And>j. j < N \<Longrightarrow> backs (grants tr) j (nodes c ! j)"
    and sup: "\<And>i th. threads c i = Some th \<Longrightarrow> i < N \<and> supported (grants tr) i (nodes c ! i) th"
    and won: "\<And>i t. Won i t t \<in> set tr \<Longrightarrow>
      \<exists>Q. majority N Q \<and> Q \<times> {(t, i)} \<subseteq> grants tr"
    using inv unfolding election_inv_def by blast+
  have new: "backs (grants tr) i n" using backs [OF assms(2)] rely by (rule rely_backs)
  have sub: "grants tr \<subseteq> grants (e # tr)" using votes by blast
  have rel: "vote_rely (nodes c ! j) (nodes (set_node i n c) ! j)" if "j < N" for j
    using that rely rely_refl [OF ok [OF that]] len
    by (cases "j = i") (simp_all add: set_node_def)
  have single': "single_votes (grants (e # tr))"
    using votes
  proof
    assume v: "grants (e # tr) = insert (i, currentTerm n, k) (grants tr) \<and> votedFor n = int k"
    then have "k' = k" if "(i, currentTerm n, k') \<in> grants tr" for k'
      using new that by (simp add: backs_def)
    then show ?thesis using single v unfolding single_votes_def by auto
  qed (use single in simp)
  have backs': "backs (grants (e # tr)) j (nodes (set_node i n c) ! j)" if "j < N" for j
  proof -
    have "backs (grants tr) j (nodes (set_node i n c) ! j)"
      using backs [OF that] rel [OF that] by (rule rely_backs)
    then show ?thesis
      using votes len that by (auto simp: backs_def set_node_def nth_list_update)
  qed
  have sup': "j < N \<and> supported (grants (e # tr)) j (nodes (set_node i n c) ! j) th"
    if "threads (set_thread m t (set_node i n c)) j = Some th" for j th
  proof (cases "j = m")
    case True
    then show ?thesis using that thr by (simp add: set_thread_def)
  next
    case False
    then have "threads c j = Some th" using that by (simp add: set_thread_def set_node_def)
    then show ?thesis using sup [of j th] rel [of j] sub rely_supported by blast
  qed
  have won': "\<exists>Q. majority N Q \<and> Q \<times> {(t, w)} \<subseteq> grants (e # tr)"
    if "Won w t t \<in> set (e # tr)" for w t
    using that won [of w t] wins [of w t] sub by (force simp: subset_iff)
  have dom': "\<forall>j t k. (j, t, k) \<in> grants (e # tr) \<longrightarrow> j < N"
  proof (intro allI impI)
    fix j t k' assume "(j, t, k') \<in> grants (e # tr)"
    then have "j = i \<or> (j, t, k') \<in> grants tr" using votes by auto
    then show "j < N" using dom assms(2) by blast
  qed
  have ok': "node_ok j (nodes (set_node i n c) ! j)" if "j < N" for j
    using rely_ok [OF ok [OF that] rel [OF that]] .
  have "length (nodes (set_thread m t (set_node i n c))) = N"
    "nodes (set_thread m t (set_node i n c)) = nodes (set_node i n c)"
    using len by (simp_all add: set_thread_def set_node_def)
  then show ?thesis
    unfolding election_inv_def using single' dom' ok' backs' sup' won' by simp
qed

lemma set_simps [simp]:
  "threads (set_node i n c) = threads c" "nodes (set_thread i t c) = nodes c"
  "length (nodes (set_node i n c)) = length (nodes c)"
  "i < length (nodes c) \<Longrightarrow> nodes (set_node i n c) ! i = n"
  "j \<noteq> i \<Longrightarrow> nodes (set_node i n c) ! j = nodes c ! j"
  by (simp_all add: set_node_def set_thread_def)

lemma set_same: "set_node i (nodes c ! i) c = c" "set_thread i (threads c i) c = c"
  by (simp_all add: set_node_def set_thread_def)

text \<open>The thread after each kind of step.\<close>

lemma supported_begin:
  assumes "node_ok i n" "node_id n = int i"
  shows "supported (insert (i, currentTerm n, i) G) i n (Election (currentTerm n) (peerRpcPorts n) 1 Idle)"
proof -
  have "counted_in (insert (i, currentTerm n, i) G) i
      (Election (currentTerm n) (peerRpcPorts n) 1 Idle) {i}"
    using assms(1) by (simp add: counted_in_def to_ask_def node_ok_def)
  then show ?thesis using assms(1) by (auto simp: supported_def to_ask_def node_ok_def)
qed

lemma supported_send:
  assumes "supported G i n (Election t (p # ps) v Idle)" "node_ok i n"
  shows "supported G i n (Election t ps v (Requested p (vote_request n)))"
proof -
  have "counted_in G i (Election t ps v (Requested p (vote_request n))) V"
    if "counted_in G i (Election t (p # ps) v Idle) V" "currentTerm n = t" for V
    using that by (auto simp: counted_in_def to_ask_def vote_request_def)
  then show ?thesis
    using assms by (auto simp: supported_def to_ask_def vote_request_def node_ok_def)
qed

lemma supported_lose:
  assumes "supported G i n (Election t ps v ph)"
  shows "supported G i n (Election t ps v (Answered No_Reply))"
proof -
  have "counted_in G i (Election t ps v (Answered No_Reply)) V"
    if "counted_in G i (Election t ps v ph) V" for V
    using that by (auto simp: counted_in_def to_ask_def)
  then show ?thesis
    using assms by (auto simp: supported_def to_ask_def)
qed

lemma supported_deliver:
  assumes "supported G i n (Election t ps v (Requested p r))" "G \<subseteq> G'"
    and "\<And>resp. reply = Reply resp \<Longrightarrow> voteGranted resp \<Longrightarrow> (port_node p, rv_term r, i) \<in> G'"
  shows "supported G' i n (Election t ps v (Answered reply))"
proof -
  have d: "distinct (map port_node ps)" "port_node p \<notin> port_node ` set ps"
    using assms(1) by (simp_all add: supported_def to_ask_def)
  have "counted_in G' i (Election t ps v (Answered reply)) V"
    if "counted_in G i (Election t ps v (Requested p r)) V" for V
    using that d assms(2,3) unfolding counted_in_def to_ask_def by fastforce
  then show ?thesis
    using assms(1) d by (auto simp: supported_def to_ask_def)
qed

lemma supported_receive:
  assumes "supported G i n (Election t ps v (Answered reply))"
    and "v' = v + (case reply of Reply resp \<Rightarrow> if voteGranted resp then 1 else 0 | _ \<Rightarrow> 0)"
  shows "supported G i n (Election t ps v' Idle)"
proof -
  have "\<exists>V'. counted_in G i (Election t ps v' Idle) V'"
    if V: "counted_in G i (Election t ps v (Answered reply)) V" for V
  proof (cases "\<exists>resp. reply = Reply resp \<and> voteGranted resp")
    case True
    then obtain j where "j \<notin> V" "j \<notin> port_node ` set ps" "(j, t, i) \<in> G"
      using V by (auto simp: counted_in_def to_ask_def)
    then have "counted_in G i (Election t ps v' Idle) (insert j V)"
      using V True assms(2) by (auto simp: counted_in_def to_ask_def)
    then show ?thesis by blast
  next
    case False
    then have "v' = v" using assms(2) by (cases reply) auto
    then have "counted_in G i (Election t ps v' Idle) V"
      using V by (auto simp: counted_in_def to_ask_def)
    then show ?thesis by blast
  qed
  then show ?thesis using assms(1) by (auto simp: supported_def to_ask_def)
qed

lemma supported_quorum:
  assumes "supported G i n (Election t [] v Idle)" "currentTerm n = t" "int (N div 2) < v"
    and "\<forall>j t k. (j, t, k) \<in> G \<longrightarrow> j < N"
  shows "\<exists>Q. majority N Q \<and> Q \<times> {(t, i)} \<subseteq> G"
proof -
  obtain V where "finite V" "v = int (card V)" "V \<times> {(t, i)} \<subseteq> G"
    using assms(1,2) by (auto simp: supported_def counted_in_def)
  then have "majority N V" using assms(3,4) by (auto simp: majority_def)
  then show ?thesis using \<open>V \<times> {(t, i)} \<subseteq> G\<close> by blast
qed

lemma election_inv_parts:
  assumes "election_inv N c tr"
  shows "length (nodes c) = N" "i < N \<Longrightarrow> node_ok i (nodes c ! i)"
    "threads c i = Some th \<Longrightarrow> i < N \<and> supported (grants tr) i (nodes c ! i) th"
    "\<forall>j t k. (j, t, k) \<in> grants tr \<longrightarrow> j < N" "single_votes (grants tr)"
    "Won i t t \<in> set tr \<Longrightarrow> \<exists>Q. majority N Q \<and> Q \<times> {(t, i)} \<subseteq> grants tr"
  using assms unfolding election_inv_def by blast+

text \<open>A step without votes that drops, keeps or replaces the thread of the node it moves.\<close>

lemma election_inv_quiet:
  assumes "election_inv N c tr" "i < N" "vote_rely (nodes c ! i) n"
    and "\<And>th. t = Some th \<Longrightarrow> supported (grants tr) i n th"
  shows "election_inv N (set_thread i t (set_node i n c)) (Silent # tr)"
  using assms election_inv_parts(1) [OF assms(1)]
  by (intro election_inv_step) auto

text \<open>A vote request reaches its voter.\<close>

lemma election_inv_deliver:
  assumes "election_inv N c tr" and Deliver: "i < length (nodes c)"
      "threads c i = Some (Election t ps v (Requested p r))" "port_node p < length (nodes c)"
      "handle_RequestVote r (nodes c ! port_node p) = (n, resp)"
    and e: "e = (if vote_granted r (nodes c ! port_node p) then Granted (port_node p) (rv_term r) i else Silent)"
  shows "election_inv N (set_thread i (Some (Election t ps v (Answered (answer_of resp))))
    (set_node (port_node p) n c)) (e # tr)"
proof -
  let ?j = "port_node p"
  have i: "i < N" "?j < N" using Deliver(1,3) assms(1) election_inv_parts(1) by blast+
  note ok = election_inv_parts(2) [OF assms(1) i(2)]
  have alive: "\<not> shutdownRequested (nodes c ! ?j)" "vote_persisted (nodes c ! ?j)"
    using ok by (simp_all add: node_ok_def)
  note st = vote_step [OF alive Deliver(4)]
  have rely: "vote_rely (nodes c ! ?j) n"
    by (rule vote_handler_rely [OF Deliver(4) alive handle_RequestVote_peers [OF Deliver(4)]])
  have sup: "supported (grants tr) i (nodes c ! i) (Election t ps v (Requested p r))"
    using election_inv_parts(3) [OF assms(1) Deliver(2)] by blast
  then have cand: "rv_candidateId r = int i" by (simp add: supported_def)
  have votes: "grants (e # tr) = (if vote_granted r (nodes c ! ?j)
      then insert (?j, rv_term r, i) (grants tr) else grants tr)"
    using e by simp
  have sub: "grants tr \<subseteq> grants (e # tr)" using votes by auto
  have vote: "(?j, rv_term r, i) \<in> grants (e # tr)"
    if "answer_of resp = Reply rs" "voteGranted rs" for rs
  proof -
    have "vote_granted r (nodes c ! ?j)"
      using that Deliver(4) by (simp add: vote_granted_def answer_of_def split: option.splits)
    then show ?thesis using votes by simp
  qed
  have sup': "supported (grants (e # tr)) i (nodes c ! i) (Election t ps v (Answered (answer_of resp)))"
    using supported_deliver [OF sup sub, of "answer_of resp"] vote by blast
  have ci: "vote_rely (nodes c ! i) (nodes (set_node ?j n c) ! i)"
    using rely rely_refl [OF election_inv_parts(2) [OF assms(1) i(1)]] Deliver(3)
    by (cases "i = ?j") simp_all
  show ?thesis
    by (rule election_inv_step [OF assms(1) i(2) rely, where k = i])
      (use votes st(5) cand i(1) rely_supported [OF sup' ci] e in \<open>auto split: if_splits\<close>)
qed

text \<open>The votes are counted.\<close>

lemma election_inv_finish:
  assumes "election_inv N c tr" and Finish: "i < length (nodes c)" "threads c i = Some (Election t [] v Idle)"
      "finish_election (length (nodes c)) now rnd (nodes c ! i, v) = Returns n"
    and e: "e = (if v > int (length (nodes c) div 2) then Won i t (currentTerm n) else Silent)"
  shows "election_inv N (set_thread i None (set_node i n c)) (e # tr)"
proof -
  have i: "i < N" using Finish(1) assms(1) election_inv_parts(1) by blast
  have alive: "\<not> shutdownRequested (nodes c ! i)" "vote_persisted (nodes c ! i)"
    using election_inv_parts(2) [OF assms(1) i] by (simp_all add: node_ok_def)
  note rely = finish_rely [OF Finish(3) alive]
  have sup: "supported (grants tr) i (nodes c ! i) (Election t [] v Idle)"
    using election_inv_parts(3) [OF assms(1) Finish(2)] by blast
  have "grants (e # tr) = grants tr" using e by simp
  moreover have "\<exists>Q. majority N Q \<and> Q \<times> {(t', w)} \<subseteq> grants tr" if "e = Won w t' t'" for w t'
    using that e rely(2) election_inv_parts(1) [OF assms(1)]
      supported_quorum [OF sup _ _ election_inv_parts(4) [OF assms(1)]]
    by (auto split: if_splits)
  ultimately show ?thesis
    by (intro election_inv_step [OF assms(1) i rely(1)]) auto
qed

lemma ballot_inv_preserved:
  assumes "ballot_step c e c'" "election_inv N c tr"
  shows "election_inv N c' (e # tr)"
  using assms
proof cases
  case (Begin i n)
  have i: "i < N" using Begin(3) assms(2) election_inv_parts(1) by blast
  note ok = election_inv_parts(2) [OF assms(2) i]
  then have alive: "\<not> shutdownRequested (nodes c ! i)" by (simp add: node_ok_def)
  note b = begin_rely [OF Begin(5) alive]
  have n: "node_ok i n" "node_id n = int i" "votedFor n = int i"
    using rely_ok [OF ok b(1)] ok b(3) by (simp_all add: node_ok_def)
  show ?thesis
    unfolding Begin(1,2)
    by (rule election_inv_step [OF assms(2) i b(1)])
      (use n i Begin(3) supported_begin [OF n(1,2)] in auto)
next
  case (Send i t p ps v)
  have i: "i < N" using Send(3) assms(2) election_inv_parts(1) by blast
  note ok = election_inv_parts(2) [OF assms(2) i]
  have "supported (grants tr) i (nodes c ! i) (Election t (p # ps) v Idle)"
    using election_inv_parts(3) [OF assms(2) Send(4)] by blast
  note sup = supported_send [OF this ok]
  show ?thesis
    unfolding Send(1,2)
    by (rule election_inv_quiet [OF assms(2) i rely_refl [OF ok], unfolded set_same])
      (use sup in simp)
next
  case (Deliver i t ps v p r n resp)
  then show ?thesis using election_inv_deliver [OF assms(2) Deliver(3-6) Deliver(1)] by simp
next
  case (Lose i t ps v ph)
  note sup = election_inv_parts(3) [OF assms(2) Lose(3)]
  then have i: "i < N" by blast
  show ?thesis
    unfolding Lose(1,2)
    by (rule election_inv_quiet [OF assms(2) i
          rely_refl [OF election_inv_parts(2) [OF assms(2) i]], unfolded set_same])
      (use supported_lose [OF conjunct2 [OF sup]] in simp)
next
  case (Receive i t ps v reply n v')
  have i: "i < N" using Receive(3) assms(2) election_inv_parts(1) by blast
  have alive: "\<not> shutdownRequested (nodes c ! i)" "vote_persisted (nodes c ! i)"
    using election_inv_parts(2) [OF assms(2) i] by (simp_all add: node_ok_def)
  note rely = receive_rely [OF Receive(5) alive]
  have "supported (grants tr) i (nodes c ! i) (Election t ps v' Idle)"
    using supported_receive election_inv_parts(3) [OF assms(2) Receive(4)]
      receive_goes_on(7) [OF Receive(5)] by blast
  note sup = rely_supported [OF this rely subset_refl]
  show ?thesis
    unfolding Receive(1,2) by (rule election_inv_quiet [OF assms(2) i rely]) (use sup in simp)
next
  case (Give_Up i t ps v reply n v')
  have i: "i < N" using Give_Up(3) assms(2) election_inv_parts(1) by blast
  have alive: "\<not> shutdownRequested (nodes c ! i)" "vote_persisted (nodes c ! i)"
    using election_inv_parts(2) [OF assms(2) i] by (simp_all add: node_ok_def)
  show ?thesis
    unfolding Give_Up(1,2)
    by (rule election_inv_quiet [OF assms(2) i give_up_rely [OF Give_Up(5) alive]]) simp
next
  case (Finish i t v now rnd n)
  then show ?thesis using election_inv_finish [OF assms(2) Finish(3-5) Finish(1)] by simp
next
  case (Restart i now rnd s n s')
  have i: "i < N" using Restart(3) assms(2) election_inv_parts(1) by blast
  have "vote_persisted (nodes c ! i)"
    using election_inv_parts(2) [OF assms(2) i] by (simp add: node_ok_def)
  then show ?thesis
    unfolding Restart(1,2)
    by (intro election_inv_quiet [OF assms(2) i restart_rely [OF Restart(4)]]) simp_all
qed

lemma election_inv_other:
  assumes "election_inv N c tr" "i < length (nodes c)" "vote_rely (nodes c ! i) n"
  shows "election_inv N (set_node i n c) (Silent # tr)"
proof -
  have i: "i < N" using assms(1,2) election_inv_parts(1) by blast
  have "supported (grants tr) i n th" if "threads c i = Some th" for th
    using election_inv_parts(3) [OF assms(1) that] rely_supported [OF _ assms(3) subset_refl] by blast
  from election_inv_quiet [OF assms(1) i assms(3) this] show ?thesis
    by (metis set_same(2) set_simps(1))
qed

lemma election_inv_preserved:
  "election_step c e c' \<Longrightarrow> election_inv N c tr \<Longrightarrow> election_inv N c' (e # tr)"
  by (elim election_stepE) (auto intro: ballot_inv_preserved election_inv_other)

lemma new_cluster_inv: "election_inv N (new_cluster N) []"
proof -
  have "node_ok j (RaftNode_new (int j) (5000 + int j) (raft_peers 5000 N j) 0 Missing Missing)" for j
    by (auto simp: node_ok_def RaftNode_new_def vote_persisted_def raft_peers_def port_node_def
        distinct_map inj_on_def)
  then show ?thesis
    by (simp add: election_inv_def new_cluster_def backs_def single_votes_def)
qed

lemma election_run_inv:
  "election_run c tr c' \<Longrightarrow> election_inv N c [] \<Longrightarrow> election_inv N c' tr"
  by (induction rule: election_run.induct) (auto dest: election_inv_preserved)

lemma winner_unique:
  assumes inv: "election_inv N c tr" and "Won i t t \<in> set tr" "Won j t t \<in> set tr"
  shows "i = j"
proof -
  obtain A B where q: "majority N A" "A \<times> {(t, i)} \<subseteq> grants tr" "majority N B"
    "B \<times> {(t, j)} \<subseteq> grants tr"
    using election_inv_parts(6) [OF inv] assms(2,3) by blast
  have one: "c = d" if "(v, c) \<in> {(v, k). (v, t, k) \<in> grants tr}"
    "(v, d) \<in> {(v, k). (v, t, k) \<in> grants tr}" for v c d
    using that election_inv_parts(5) [OF inv] unfolding single_votes_def by blast
  show ?thesis
    by (rule majorities.elected_unique [where votes = "{(v, k). (v, t, k) \<in> grants tr}"
          and c = i and d = j, OF one q(1) _ q(3)]) (use q(2,4) in auto)
qed

section \<open>Runs of an idle cluster\<close>

text \<open>Every winner leads the term it stood for.\<close>

definition fair_wins :: "election_event list \<Rightarrow> bool" where
  "fair_wins tr \<longleftrightarrow> (\<forall>i t t'. Won i t t' \<in> set tr \<longrightarrow> t = t')"

lemma fair_wins_simps [simp]:
  "fair_wins []" "fair_wins (Won i t t' # tr) \<longleftrightarrow> t = t' \<and> fair_wins tr"
  "fair_wins (Silent # tr) \<longleftrightarrow> fair_wins tr" "fair_wins (Began i t # tr) \<longleftrightarrow> fair_wins tr"
  "fair_wins (Granted j t i # tr) \<longleftrightarrow> fair_wins tr"
  by (auto simp: fair_wins_def)

lemma persistMetadata_more [simp]:
  "nextIndex (persistMetadata n) = nextIndex n"
  "clientLastRequest (persistMetadata n) = clientLastRequest n"
  "receivingSnapshot (persistMetadata n) = receivingSnapshot n"
  by (simp_all add: persistMetadata_def)

text \<open>
  A node of a cluster of three without log entries: its term, its vote and its state.
\<close>

definition seen :: "nat \<Rightarrow> int \<Rightarrow> int \<Rightarrow> NodeState \<Rightarrow> RaftNode \<Rightarrow> bool" where
  "seen i t v st n \<longleftrightarrow>
     node_id n = int i \<and> currentTerm n = t \<and> votedFor n = v \<and> state n = st \<and> \<not> mtxHeld n \<and>
     \<not> shutdownRequested n \<and> log n = [] \<and> latestSnapshot n = None \<and>
     peerRpcPorts n = raft_peers 5000 3 i \<and> nextIndex n = [0, 0] \<and>
     clientLastRequest n = Map.empty \<and> \<not> receivingSnapshot n"

definition sees :: "cluster \<Rightarrow> nat \<Rightarrow> int \<Rightarrow> int \<Rightarrow> NodeState \<Rightarrow> bool" where
  "sees c i t v st \<longleftrightarrow> i < length (nodes c) \<and> seen i t v st (nodes c ! i)"

lemma seen_begin:
  assumes "seen i t v st n"
  obtains n' where "begin_election n = Goes_On n'" "seen i (t + 1) (int i) CANDIDATE n'"
  using assms by (simp add: begin_election_def seen_def)

lemma seen_request:
  "seen i t v st n \<Longrightarrow> vote_request n = \<lparr>rv_term = t, rv_candidateId = int i, rv_lastLogIndex = - 1,
    rv_lastLogTerm = 0\<rparr>"
  by (simp add: seen_def vote_request_def getLogSize_def base_index_def getLogTerm_def)

lemma seen_grant:
  assumes "seen j t v st n" "t < rv_term r" "rv_lastLogIndex r = - 1" "rv_lastLogTerm r = 0"
  obtains n' where "handle_RequestVote r n = (n', Some \<lparr>rvr_term = rv_term r, voteGranted = True\<rparr>)"
    "seen j (rv_term r) (rv_candidateId r) FOLLOWER n'"
  using assms
  by (simp add: seen_def handle_RequestVote_def becomeFollower_def decide_vote_def
      candidateUpToDate_def voter_last_index_def voter_last_term_def Let_def)

lemma seen_receive:
  assumes "seen i t v st n"
  obtains n' where "receive_vote (Reply \<lparr>rvr_term = t, voteGranted = True\<rparr>) (n, k) = Goes_On (n', k + 1)"
    "seen i t v st n'"
  using assms by (simp add: seen_def receive_vote_def Let_def)

lemma seen_miss:
  assumes "seen i t v st n"
  obtains n' where "receive_vote No_Reply (n, k) = Goes_On (n', k)" "seen i t v st n'"
  using assms by (simp add: seen_def receive_vote_def Let_def)

lemma seen_finish:
  assumes "seen i t v st n" "int (N div 2) < k"
  obtains n' where "finish_election N 0 0 (n, k) = Returns n'" "seen i t v LEADER n'"
  using assms
  by (simp add: seen_def finish_election_def become_leader_def reset_timeout_def getLogSize_def
      base_index_def)

lemma run_begin:
  assumes "ballot_run c0 tr c" "sees c i t v st" "threads c i = None"
  shows "\<exists>c'. ballot_run c0 (Began i (t + 1) # tr) c' \<and> sees c' i (t + 1) (int i) CANDIDATE \<and>
    threads c' = (threads c)(i \<mapsto> Election (t + 1) (raft_peers 5000 3 i) 1 Idle) \<and>
    (\<forall>m. m \<noteq> i \<longrightarrow> nodes c' ! m = nodes c ! m) \<and> length (nodes c') = length (nodes c)"
proof -
  have i: "i < length (nodes c)" "seen i t v st (nodes c ! i)" using assms(2) by (simp_all add: sees_def)
  obtain n where n: "begin_election (nodes c ! i) = Goes_On n" "seen i (t + 1) (int i) CANDIDATE n"
    using seen_begin [OF i(2)] .
  have "currentTerm n = t + 1" "peerRpcPorts n = raft_peers 5000 3 i"
    using n(2) by (simp_all add: seen_def)
  then show ?thesis
    using ballot_run.Next_Ballot [OF assms(1) ballot_step.Begin [OF i(1) assms(3) n(1)]] n(2) i(1)
    by (intro exI) (auto simp: sees_def set_node_def set_thread_def)
qed

text \<open>One peer in an older term is asked and grants its vote.\<close>

lemma run_win_vote:
  assumes "ballot_run c0 tr c" "sees c i t v st" "threads c i = Some (Election t0 (p # ps) k Idle)"
    and "i \<noteq> port_node p" "sees c (port_node p) tj vj sj" "tj < t"
  shows "\<exists>tr' c'. ballot_run c0 tr' c' \<and> (fair_wins tr \<longrightarrow> fair_wins tr') \<and> set tr \<subseteq> set tr' \<and> sees c' i t v st \<and>
    sees c' (port_node p) t (int i) FOLLOWER \<and>
    threads c' = (threads c)(i \<mapsto> Election t0 ps (k + 1) Idle) \<and>
    (\<forall>m. m \<noteq> i \<longrightarrow> m \<noteq> port_node p \<longrightarrow> nodes c' ! m = nodes c ! m) \<and>
    length (nodes c') = length (nodes c)"
proof -
  let ?j = "port_node p" and ?r = "vote_request (nodes c ! i)"
  have i: "i < length (nodes c)" "seen i t v st (nodes c ! i)"
    and j: "?j < length (nodes c)" "seen ?j tj vj sj (nodes c ! ?j)"
    using assms(2,5) by (simp_all add: sees_def)
  have r: "rv_term ?r = t" "rv_candidateId ?r = int i" "rv_lastLogIndex ?r = - 1" "rv_lastLogTerm ?r = 0"
    by (simp_all add: seen_request [OF i(2)])
  obtain nj where nj: "handle_RequestVote ?r (nodes c ! ?j) =
      (nj, Some \<lparr>rvr_term = t, voteGranted = True\<rparr>)" "seen ?j t (int i) FOLLOWER nj"
    using seen_grant [OF j(2), of ?r] r assms(6) by auto
  obtain ni where ni: "receive_vote (Reply \<lparr>rvr_term = t, voteGranted = True\<rparr>) (nodes c ! i, k) =
      Goes_On (ni, k + 1)" "seen i t v st ni" using seen_receive [OF i(2)] .
  define c1 where "c1 = set_thread i (Some (Election t0 ps k (Requested p ?r))) c"
  define c2 where "c2 = set_thread i (Some (Election t0 ps k
      (Answered (answer_of (Some \<lparr>rvr_term = t, voteGranted = True\<rparr>))))) (set_node ?j nj c1)"
  define c3 where "c3 = set_thread i (Some (Election t0 ps (k + 1) Idle)) (set_node i ni c2)"
  have s1: "ballot_step c Silent c1"
    unfolding c1_def by (rule ballot_step.Send [OF i(1) assms(3)])
  obtain e where s2: "ballot_step c1 e c2" and e: "\<And>es. fair_wins (e # es) = fair_wins es"
  proof
    show "ballot_step c1 (if vote_granted ?r (nodes c1 ! ?j) then Granted ?j (rv_term ?r) i else Silent) c2"
      unfolding c2_def
      by (rule ballot_step.Deliver) (use i j nj in \<open>simp_all add: c1_def set_thread_def\<close>)
  qed simp
  have s3: "ballot_step c2 Silent c3"
    unfolding c3_def
    by (rule ballot_step.Receive [where v = k])
      (use i ni assms(4) in \<open>simp_all add: c2_def c1_def set_thread_def set_node_def answer_of_def\<close>)
  have run: "ballot_run c0 (Silent # e # Silent # tr) c3"
    using assms(1) s1 s2 s3 by (blast intro: ballot_run.Next_Ballot)
  show ?thesis
    using run ni(2) nj(2) i(1) j(1) assms(4) e
    by (intro exI [of _ "Silent # e # Silent # tr"] exI [of _ c3])
      (auto simp: sees_def c3_def c2_def c1_def set_thread_def set_node_def)
qed

text \<open>The request to one peer is lost.\<close>

lemma run_miss_vote:
  assumes "ballot_run c0 tr c" "sees c i t v st" "threads c i = Some (Election t0 (p # ps) k Idle)"
  shows "\<exists>tr' c'. ballot_run c0 tr' c' \<and> (fair_wins tr \<longrightarrow> fair_wins tr') \<and> set tr \<subseteq> set tr' \<and> sees c' i t v st \<and>
    threads c' = (threads c)(i \<mapsto> Election t0 ps k Idle) \<and>
    (\<forall>m. m \<noteq> i \<longrightarrow> nodes c' ! m = nodes c ! m) \<and> length (nodes c') = length (nodes c)"
proof -
  let ?r = "vote_request (nodes c ! i)"
  have i: "i < length (nodes c)" "seen i t v st (nodes c ! i)" using assms(2) by (simp_all add: sees_def)
  obtain ni where ni: "receive_vote No_Reply (nodes c ! i, k) = Goes_On (ni, k)" "seen i t v st ni"
    using seen_miss [OF i(2)] .
  define c1 where "c1 = set_thread i (Some (Election t0 ps k (Requested p ?r))) c"
  define c2 where "c2 = set_thread i (Some (Election t0 ps k (Answered No_Reply))) c1"
  define c3 where "c3 = set_thread i (Some (Election t0 ps k Idle)) (set_node i ni c2)"
  have s1: "ballot_step c Silent c1"
    unfolding c1_def by (rule ballot_step.Send [OF i(1) assms(3)])
  have s2: "ballot_step c1 Silent c2"
    unfolding c2_def by (rule ballot_step.Lose [where ph = "Requested p ?r"]) (simp_all add: c1_def set_thread_def)
  have s3: "ballot_step c2 Silent c3"
    unfolding c3_def
    by (rule ballot_step.Receive [where v = k])
      (use i ni in \<open>simp_all add: c2_def c1_def set_thread_def\<close>)
  have run: "ballot_run c0 (Silent # Silent # Silent # tr) c3"
    using assms(1) s1 s2 s3 by (blast intro: ballot_run.Next_Ballot)
  show ?thesis
    using run ni(2) i(1)
    by (intro exI [of _ "Silent # Silent # Silent # tr"] exI [of _ c3])
      (auto simp: sees_def c3_def c2_def c1_def set_thread_def set_node_def)
qed

lemma run_finish:
  assumes "ballot_run c0 tr c" "sees c i t v st" "threads c i = Some (Election t0 [] k Idle)"
    and "int (length (nodes c) div 2) < k"
  shows "\<exists>c'. ballot_run c0 (Won i t0 t # tr) c' \<and> sees c' i t v LEADER \<and>
    threads c' = (threads c)(i := None) \<and> (\<forall>m. m \<noteq> i \<longrightarrow> nodes c' ! m = nodes c ! m) \<and>
    length (nodes c') = length (nodes c)"
proof -
  have i: "i < length (nodes c)" "seen i t v st (nodes c ! i)" using assms(2) by (simp_all add: sees_def)
  obtain n where n: "finish_election (length (nodes c)) 0 0 (nodes c ! i, k) = Returns n"
    "seen i t v LEADER n" using seen_finish [OF i(2) assms(4)] .
  have "currentTerm n = t" using n(2) by (simp add: seen_def)
  then show ?thesis
    using ballot_run.Next_Ballot [OF assms(1) ballot_step.Finish [OF i(1) assms(3) n(1)]] n(2) i(1) assms(4)
    by (intro exI) (auto simp: sees_def set_node_def set_thread_def)
qed

section \<open>Properties\<close>

text \<open>
  C1: Election safety, as far as the code has it: in every run of a cluster, with lost and delayed
  messages, restarts, and any other activity in between, two nodes that win in the term they stood
  for are the same node if the term is the same.
\<close>

theorem election_safety:
  assumes "election_run (new_cluster N) tr c" "Won i t t \<in> set tr" "Won j t t \<in> set tr"
  shows "i = j"
  using winner_unique [OF election_run_inv [OF assms(1) new_cluster_inv] assms(2,3)] .

lemma demo_ports [simp]:
  "raft_peers 5000 3 2 = [5000, 5001]" "port_node 5000 = 0" "port_node 5001 = 1" "port_node 5002 = 2"
  by (simp_all add: raft_peers_def port_node_def upt_rec)

lemma new_cluster_sees: "i < 3 \<Longrightarrow> sees (new_cluster 3) i 0 (- 1) FOLLOWER"
  by (auto simp: sees_def seen_def new_cluster_def RaftNode_new_def raft_peers_def upt_rec less_Suc_eq
      numeral_3_eq_3)

lemma sees_other:
  "sees c j t v st \<Longrightarrow> nodes c' ! j = nodes c ! j \<Longrightarrow> length (nodes c') = length (nodes c) \<Longrightarrow>
    sees c' j t v st"
  by (simp add: sees_def)

text \<open>Node 0 has everybody's vote in term 1 and is about to count them.\<close>

lemma run_all_votes:
  "\<exists>tr c. ballot_run (new_cluster 3) tr c \<and> fair_wins tr \<and> sees c 0 1 0 CANDIDATE \<and> sees c 2 1 0 FOLLOWER \<and>
    sees c 1 1 0 FOLLOWER \<and> threads c 0 = Some (Election 1 [] 3 Idle) \<and> threads c 2 = None \<and>
    length (nodes c) = 3"
proof -
  let ?c0 = "new_cluster 3"
  have none: "threads ?c0 i = None" "length (nodes ?c0) = 3" for i by (simp_all add: new_cluster_def)
  obtain c1 where c1: "ballot_run ?c0 [Began 0 1] c1" "sees c1 0 1 0 CANDIDATE"
    "threads c1 = (threads ?c0)(0 \<mapsto> Election 1 [5001, 5002] 1 Idle)"
    "\<forall>m. m \<noteq> 0 \<longrightarrow> nodes c1 ! m = nodes ?c0 ! m" "length (nodes c1) = 3"
    using run_begin [OF ballot_run.No_Ballot new_cluster_sees [of 0] none(1)] none(2) by auto
  have s1: "sees c1 1 0 (- 1) FOLLOWER" "sees c1 2 0 (- 1) FOLLOWER"
    using sees_other [OF new_cluster_sees [of 1], of c1] sees_other [OF new_cluster_sees [of 2], of c1]
      c1(4,5) none(2) by simp_all
  obtain tr2 c2 where c2: "ballot_run ?c0 tr2 c2" "sees c2 0 1 0 CANDIDATE" "sees c2 1 1 0 FOLLOWER"
    "threads c2 = (threads c1)(0 \<mapsto> Election 1 [5002] 2 Idle)"
    "\<forall>m. m \<noteq> 0 \<longrightarrow> m \<noteq> 1 \<longrightarrow> nodes c2 ! m = nodes c1 ! m" "length (nodes c2) = 3" "fair_wins tr2"
    using run_win_vote [OF c1(1,2), of 1 5001 "[5002]" 1 0 "- 1" FOLLOWER] c1(3,5) s1(1) by auto
  have s2: "sees c2 2 0 (- 1) FOLLOWER"
    using sees_other [OF s1(2), of c2] c2(5,6) c1(5) by simp
  obtain tr3 c3 where "ballot_run ?c0 tr3 c3" "fair_wins tr3" "sees c3 0 1 0 CANDIDATE" "sees c3 2 1 0 FOLLOWER"
    "threads c3 = (threads c2)(0 \<mapsto> Election 1 [] 3 Idle)"
    "\<forall>m. m \<noteq> 0 \<longrightarrow> m \<noteq> 2 \<longrightarrow> nodes c3 ! m = nodes c2 ! m" "length (nodes c3) = 3"
    using run_win_vote [OF c2(1,2), of 1 5002 "[]" 2 0 "- 1" FOLLOWER] c2(4,6,7) s2 by auto
  moreover from this have "sees c3 1 1 0 FOLLOWER"
    using sees_other [OF c2(3), of c3] c2(6) by simp
  ultimately show ?thesis using c2(4) c1(3) none(1) by (intro exI [of _ tr3] exI [of _ c3]) simp
qed

text \<open>
  C16: Two leaders in one term.  Because \<open>start_election\<close> looks neither at the state nor at the term
  again when it has counted the votes, a run of three nodes ends with two of them leading term 2:
  node 0 has all votes of term 1, moves to term 2 when it votes for node 2, and then declares
  itself leader of the term it is in.
\<close>

theorem two_leaders_in_one_term:
  "\<exists>tr c. election_run (new_cluster 3) tr c \<and>
    state (nodes c ! 0) = LEADER \<and> currentTerm (nodes c ! 0) = 2 \<and> Won 0 1 2 \<in> set tr \<and>
    state (nodes c ! 2) = LEADER \<and> currentTerm (nodes c ! 2) = 2 \<and> Won 2 2 2 \<in> set tr"
proof -
  let ?c0 = "new_cluster 3"
  obtain tr c where c: "ballot_run ?c0 tr c" "sees c 0 1 0 CANDIDATE" "sees c 2 1 0 FOLLOWER"
    "threads c 0 = Some (Election 1 [] 3 Idle)" "threads c 2 = None" "length (nodes c) = 3"
    using run_all_votes by blast
  obtain c1 where c1: "ballot_run ?c0 (Began 2 2 # tr) c1" "sees c1 2 2 2 CANDIDATE"
    "threads c1 = (threads c)(2 \<mapsto> Election 2 [5000, 5001] 1 Idle)" "nodes c1 ! 0 = nodes c ! 0"
    "length (nodes c1) = 3"
    using run_begin [OF c(1,3,5)] c(6) by auto
  have s1: "sees c1 0 1 0 CANDIDATE" using sees_other [OF c(2) c1(4)] c1(5) c(6) by simp
  obtain tr2 c2 where c2: "ballot_run ?c0 tr2 c2" "sees c2 2 2 2 CANDIDATE" "sees c2 0 2 2 FOLLOWER"
    "threads c2 = (threads c1)(2 \<mapsto> Election 2 [5001] 2 Idle)" "length (nodes c2) = 3"
    using run_win_vote [OF c1(1,2), of 2 5000 "[5001]" 1 1 0 CANDIDATE] c1(3,5) s1 by auto
  obtain tr3 c3 where c3: "ballot_run ?c0 tr3 c3" "sees c3 2 2 2 CANDIDATE"
    "threads c3 = (threads c2)(2 \<mapsto> Election 2 [] 2 Idle)" "nodes c3 ! 0 = nodes c2 ! 0"
    "length (nodes c3) = 3"
    using run_miss_vote [OF c2(1,2), of 2 5001 "[]" 2] c2(4,5) by auto
  have s3: "sees c3 0 2 2 FOLLOWER" using sees_other [OF c2(3) c3(4)] c3(5) c2(5) by simp
  obtain c4 where c4: "ballot_run ?c0 (Won 2 2 2 # tr3) c4" "sees c4 2 2 2 LEADER"
    "threads c4 = (threads c3)(2 := None)" "nodes c4 ! 0 = nodes c3 ! 0" "length (nodes c4) = 3"
    using run_finish [OF c3(1,2), of 2 2] c3(3,5) by auto
  have s4: "sees c4 0 2 2 FOLLOWER" using sees_other [OF s3 c4(4)] c4(5) c3(5) by simp
  have t4: "threads c4 0 = Some (Election 1 [] 3 Idle)" using c4(3) c3(3) c2(4) c1(3) c(4) by simp
  obtain c5 where c5: "ballot_run ?c0 (Won 0 1 2 # Won 2 2 2 # tr3) c5" "sees c5 0 2 2 LEADER"
    "nodes c5 ! 2 = nodes c4 ! 2" "length (nodes c5) = 3"
    using run_finish [OF c4(1) s4 t4] c4(5) by auto
  have "sees c5 2 2 2 LEADER" using sees_other [OF c4(2) c5(3)] c5(4) c4(5) by simp
  with ballot_run_election [OF c5(1)] c5(2-) show ?thesis
    by (intro exI [of _ "Won 0 1 2 # Won 2 2 2 # tr3"] exI [of _ c5]) (simp add: sees_def seen_def)
qed

theorem election_safety_witness:
  "\<exists>tr c. election_run (new_cluster 3) tr c \<and> Won 0 1 1 \<in> set tr \<and> (\<forall>j. Won j 1 1 \<in> set tr \<longrightarrow> j = 0)"
proof -
  obtain tr c where c: "ballot_run (new_cluster 3) tr c" "sees c 0 1 0 CANDIDATE"
    "threads c 0 = Some (Election 1 [] 3 Idle)" "length (nodes c) = 3"
    using run_all_votes by blast
  obtain c' where c': "election_run (new_cluster 3) (Won 0 1 1 # tr) c'"
    using run_finish [OF c(1-3)] c(4) ballot_run_election by auto
  have "j = 0" if "Won j 1 1 \<in> set (Won 0 1 1 # tr)" for j
    by (rule election_safety [OF c' that]) simp
  then show ?thesis using c' by (intro exI [of _ "Won 0 1 1 # tr"] exI [of _ c']) auto
qed

end
