(* ===== verification/Cluster_Rely.thy ===== *)
theory Cluster_Rely
  imports Cluster_Election Client_Facts
begin

text \<open>
  The other activities of a node as steps of \<open>Cluster_Election\<close>: the AppendEntries handler, a
  leader or candidate stepping down, snapshots.  Each keeps the vote of the current term or moves
  to a later one, so a run of elections may be interleaved with them.
\<close>

lemma vote_rely_trans: "vote_rely n m \<Longrightarrow> vote_rely m k \<Longrightarrow> vote_rely n k"
  by (auto simp: vote_rely_def)

lemma vote_rely_frame:
  assumes "\<not> shutdownRequested n" "vote_persisted n" "shutdownRequested n' = shutdownRequested n"
    and "metadataFile n' = metadataFile n" "currentTerm n' = currentTerm n" "votedFor n' = votedFor n"
    and "node_id n' = node_id n" "peerRpcPorts n' = peerRpcPorts n"
  shows "vote_rely n n'"
  using assms vote_persisted_cong [of n' n] by (simp add: vote_rely_def)

lemma vote_rely_persist: "vote_rely n n' \<Longrightarrow> vote_rely n (persistMetadata n')"
  by (simp add: vote_rely_def)

lemma step_down_rely:
  "currentTerm n < t \<Longrightarrow> \<not> shutdownRequested n \<Longrightarrow> vote_rely n (step_down t n)"
  by (simp add: vote_rely_def step_down_def)

lemma becomeFollower_rely:
  "becomeFollower t n = Some n' \<Longrightarrow> currentTerm n < t \<Longrightarrow> \<not> shutdownRequested n \<Longrightarrow> vote_rely n n'"
  using becomeFollower_live [of t n n'] by (simp add: vote_rely_def)

lemma take_snapshot_rely:
  assumes "take_snapshot n s = (n', s', x)" "\<not> shutdownRequested n" "vote_persisted n"
  shows "vote_rely n n'"
proof -
  let ?sn = "\<lparr>lastIncludedIndex = lastApplied n, lastIncludedTerm = getLogTerm (lastApplied n) n,
      kvState = dumpToMap s\<rparr>"
  obtain l where l: "truncateLogSafe (lastApplied n) (saveSnapshot ?sn n) =
      (saveSnapshot ?sn n)\<lparr>log := l\<rparr>"
    using truncateLogSafe_only_log by blast
  have f: "vote_rely n ((saveSnapshot ?sn n)\<lparr>log := l, latestSnapshot := Some ?sn\<rparr>)"
    by (rule vote_rely_frame [OF assms(2,3)]) (simp_all add: saveSnapshot_def)
  have g: "vote_rely n (persistMetadata ((saveSnapshot ?sn n)\<lparr>log := l, latestSnapshot := Some ?sn,
      nextIndex := y\<rparr>))" for y
    using assms(2) by (simp add: vote_rely_def saveSnapshot_def)
  show ?thesis
    using assms(1) f g by (auto simp: take_snapshot_def Let_def l split: prod.splits option.splits)
qed

lemma advance_commit_rely:
  assumes "advance_commit c n s = (n', s', x)" "\<not> shutdownRequested n" "vote_persisted n"
  shows "vote_rely n n'"
proof (cases "commitIndex n < c")
  case False
  then show ?thesis using assms by (simp add: advance_commit_def vote_rely_frame)
next
  case True
  let ?n = "n\<lparr>commitIndex := min c (getLogSize n - 1)\<rparr>"
  obtain m t q where m: "apply_loop False ?n s [] = (m, t, q)" using prod_cases3 by blast
  obtain k where k: "m = ?n\<lparr>lastApplied := k\<rparr>" using apply_loop_fields [OF m] .
  have rely: "vote_rely n m" by (rule vote_rely_frame [OF assms(2,3)]) (simp_all add: k)
  then have "\<not> shutdownRequested m" "vote_persisted m" by (simp_all add: vote_rely_def)
  then have "vote_rely m n'"
    using assms(1) True m take_snapshot_rely [of m t n' s' x] vote_rely_frame [of m m]
    by (auto simp: advance_commit_def split: if_splits)
  with rely show ?thesis by (rule vote_rely_trans)
qed

lemma AppendEntries_rely:
  assumes "handle_AppendEntries now rnd r n s = (n', s', reply)"
    and "\<not> shutdownRequested n" "vote_persisted n"
  shows "vote_rely n n'"
proof -
  have frame: "vote_rely n (n\<lparr>metrics := m, mtxHeld := b, lastHeartbeat := u, electionTimeout := v,
      leaderId := w, log := l\<rparr>)"
    "vote_rely n (n\<lparr>metrics := m, mtxHeld := b, lastHeartbeat := u, electionTimeout := v,
      leaderId := w\<rparr>)" for m b u v w l
    by (rule vote_rely_frame [OF assms(2,3)]; simp)+
  let ?m = "(metrics n)\<lparr>appendEntriesReceived := appendEntriesReceived (metrics n) + 1\<rparr>"
  have simple: "vote_rely n (n\<lparr>metrics := ?m, mtxHeld := b\<rparr>)" "vote_rely n (n\<lparr>metrics := ?m\<rparr>)" for b
    by (rule vote_rely_frame [OF assms(2,3)]; simp)+
  let ?a = "ae_appended now rnd r n"
  have a: "vote_rely n ?a"
  proof -
    obtain l where "append_entries r (ae_received now rnd r n) = (ae_received now rnd r n)\<lparr>log := l\<rparr>"
      using append_entries_log by blast
    then show ?thesis
      using frame by (auto simp: ae_appended_def ae_received_def intro!: vote_rely_persist)
  qed
  then have live: "\<not> shutdownRequested ?a" "vote_persisted ?a" by (simp_all add: vote_rely_def)
  have done_: "vote_rely n (release k)" if "vote_rely n k" for k
    using that vote_persisted_cong [of "release k" k] by (simp add: vote_rely_def release_def)
  consider "mtxHeld n \<or> receivingSnapshot n \<and> snapshotLeaderId n = ae_leaderId r \<or>
      ae_term r < currentTerm n \<or> steps_down r n"
    | "\<not> mtxHeld n" "\<not> (receivingSnapshot n \<and> snapshotLeaderId n = ae_leaderId r)"
      "ae_term r = currentTerm n" "state n \<noteq> CANDIDATE"
    unfolding steps_down_def by linarith
  then show ?thesis
  proof cases
    case 1
    then show ?thesis
      using assms(1) simple
      by (auto simp: handle_AppendEntries_def accept_entries_def becomeFollower_def steps_down_def
          Let_def release_def split: if_splits)
  next
    case 2
    obtain k t x where k: "advance_commit (ae_leaderCommit r) ?a s = (k, t, x)"
      using prod_cases3 by blast
    have "vote_rely n k" using a advance_commit_rely [OF k live] by (rule vote_rely_trans)
    moreover have "consistency_check r (ae_received now rnd r n) = consistency_check r n" by simp
    then have "n' = release k \<or> n' = release ?a"
      using assms(1) 2 k
      by (auto simp: handle_AppendEntries_def accept_entries_def Let_def ae_received_def ae_appended_def
          split: if_splits prod.splits option.splits)
    ultimately show ?thesis using a done_ by blast
  qed
qed

end
