(* ===== verification/Cluster_Log.thy ===== *)
theory Cluster_Log
  imports Cluster_Rely Catch_Up
begin

text \<open>
  The logs of the whole cluster.  Elections run as in \<open>Cluster_Election\<close>; leaders append commands
  and send batches, which stay in the network and arrive in any order, any number of times, or
  never; followers run the AppendEntries handler; anything else a node does is a step that keeps
  its log.  The invariant gives Raft's log matching, without any assumption about who writes where:
  that only one node writes entries of a term is a consequence of the elections.
\<close>

section \<open>The logs a node can come back to\<close>

definition disk_logs :: "RaftNode \<Rightarrow> logEntry list set" where
  "disk_logs n =
     (case metadataFile n of
        Missing \<Rightarrow> {[]}
      | Unparsable \<Rightarrow> {}
      | Contents j \<Rightarrow> {case_option [] id (j_logEntries j)})"

definition node_logs :: "RaftNode \<Rightarrow> logEntry list set" where
  "node_logs n = insert (log n) (disk_logs n)"

definition no_snapshot :: "RaftNode \<Rightarrow> bool" where
  "no_snapshot n \<longleftrightarrow>
     latestSnapshot n = None \<and> snapshotFile n = Missing \<and> \<not> receivingSnapshot n"

text \<open>
  How a node may change outside replication: its logs come from those it had, and it leads only if
  it did, or if it has just won.
\<close>

definition log_moves :: "bool \<Rightarrow> RaftNode \<Rightarrow> RaftNode \<Rightarrow> bool" where
  "log_moves won n n' \<longleftrightarrow>
     node_logs n' \<subseteq> node_logs n \<and> (no_snapshot n \<longrightarrow> no_snapshot n') \<and>
     (state n' = LEADER \<longrightarrow>
        log n' = log n \<and> currentTerm n' = currentTerm n \<and> (won \<or> state n = LEADER))"

text \<open>What a node does on its own: its log stays.\<close>

definition local_step :: "RaftNode \<Rightarrow> RaftNode \<Rightarrow> bool" where
  "local_step n n' \<longleftrightarrow> vote_rely n n' \<and> log_moves False n n' \<and> log n' = log n"

section \<open>Steps\<close>

text \<open>
  The network holds every batch ever sent, with the port it was sent to.  A leader reads its state
  and builds the batch in one step; a command is let through by the guard of \<open>handleClientCommand\<close>
  and appended in one step.  The handler runs on a log short of the snapshot threshold.
\<close>

inductive protocol_step ::
  "cluster \<times> (int \<times> AppendEntriesRPC) set \<Rightarrow> election_event \<Rightarrow>
   cluster \<times> (int \<times> AppendEntriesRPC) set \<Rightarrow> bool" where
  Elect: "ballot_step c e c' \<Longrightarrow> protocol_step (c, M) e (c', M)"
| Append: "i < length (nodes c) \<Longrightarrow> client_guard cid rid (nodes c ! i) = None \<Longrightarrow>
    protocol_step (c, M) Silent (set_node i (append_command cmd (nodes c ! i)) c, M)"
| Send_Batch: "i < length (nodes c) \<Longrightarrow> state (nodes c ! i) = LEADER \<Longrightarrow>
    p < length (peerRpcPorts (nodes c ! i)) \<Longrightarrow> 0 \<le> nextIndex (nodes c ! i) ! p \<Longrightarrow>
    r = heartbeat_message p (nodes c ! i) \<or> r = client_message k p (nodes c ! i) \<Longrightarrow>
    protocol_step (c, M) Silent (c, insert (peerRpcPorts (nodes c ! i) ! p, r) M)"
| Receive_Batch: "(q, r) \<in> M \<Longrightarrow> port_node q < length (nodes c) \<Longrightarrow>
    handle_AppendEntries now rnd r (nodes c ! port_node q) s = (f, s', reply) \<Longrightarrow>
    int (length (log (nodes c ! port_node q)) + length (ae_entries r)) < SNAPSHOT_THRESHOLD \<Longrightarrow>
    protocol_step (c, M) Silent (set_node (port_node q) f c, M)"
| Local: "i < length (nodes c) \<Longrightarrow> local_step (nodes c ! i) n \<Longrightarrow>
    protocol_step (c, M) Silent (set_node i n c, M)"

inductive protocol_run ::
  "cluster \<times> (int \<times> AppendEntriesRPC) set \<Rightarrow> election_event list \<Rightarrow>
   cluster \<times> (int \<times> AppendEntriesRPC) set \<Rightarrow> bool" where
  Begins: "protocol_run q [] q"
| Continues_With: "protocol_run q tr q' \<Longrightarrow> protocol_step q' e q'' \<Longrightarrow> protocol_run q (e # tr) q''"

lemma ballot_run_protocol: "ballot_run c tr c' \<Longrightarrow> protocol_run (c, M) tr (c', M)"
  by (induction rule: ballot_run.induct) (auto intro: protocol_run.intros protocol_step.Elect)

section \<open>What the pieces of an election do to the logs\<close>

lemma log_moves_frame:
  assumes "log n' = log n" "metadataFile n' = metadataFile n \<or> disk_logs n' = {log n}"
    and "latestSnapshot n' = latestSnapshot n" "snapshotFile n' = snapshotFile n"
    and "receivingSnapshot n' = receivingSnapshot n"
    and "state n' = LEADER \<Longrightarrow> currentTerm n' = currentTerm n \<and> (won \<or> state n = LEADER)"
  shows "log_moves won n n'"
  using assms by (auto simp: log_moves_def node_logs_def no_snapshot_def disk_logs_def)

lemma disk_logs_persist [simp]: "disk_logs (persistMetadata n) = {log n}"
  by (simp add: disk_logs_def persistMetadata_def)

lemma log_moves_refl: "log_moves False n n"
  by (simp add: log_moves_def)

lemma log_moves_mono: "log_moves False n n' \<Longrightarrow> log_moves w n n'"
  by (auto simp: log_moves_def)

lemma log_moves_trans: "log_moves False n m \<Longrightarrow> log_moves False m k \<Longrightarrow> log_moves False n k"
  by (auto simp: log_moves_def)

lemma begin_moves: "begin_election n = Goes_On n' \<Longrightarrow> log_moves w n n'"
  by (rule log_moves_frame) (auto simp: begin_election_def split: if_splits)

lemma becomeFollower_moves:
  assumes "becomeFollower t n = Some n'" "\<not> shutdownRequested n"
  shows "log_moves w n n'" "state n' = FOLLOWER" "log n' = log n"
  using assms by (auto simp: becomeFollower_def intro!: log_moves_frame split: if_splits)

lemma vote_handler_moves:
  assumes "handle_RequestVote r n = (n', resp)" "\<not> shutdownRequested n"
  shows "log_moves False n n'"
proof -
  let ?n = "n\<lparr>metrics := (metrics n)\<lparr>requestVotesReceived := requestVotesReceived (metrics n) + 1\<rparr>\<rparr>"
  have m: "log_moves False n ?n" by (rule log_moves_frame) simp_all
  have d: "log_moves False k k'" if "decide_vote r k = (k', g)" for k k' g
    using that by (intro log_moves_frame) (auto simp: decide_vote_def Let_def disk_logs_def
        persistMetadata_def split: if_splits)
  consider "n' = ?n" | k g where "becomeFollower (rv_term r) ?n = Some k" "decide_vote r k = (n', g)"
    | g where "decide_vote r ?n = (n', g)"
    using assms(1)
    by (auto simp: handle_RequestVote_def Let_def split: if_splits option.splits prod.splits)
  then show ?thesis
  proof cases
    case 2
    have "log_moves False ?n k" using becomeFollower_moves(1) [OF 2(1)] assms(2) by simp
    then show ?thesis using m d [OF 2(2)] log_moves_trans by blast
  qed (use m d log_moves_trans in blast)+
qed

lemma receive_moves:
  "receive_vote reply (n, v) = Goes_On (n', v') \<Longrightarrow> log_moves False n n'"
  "receive_vote reply (n, v) = Returns (n', v') \<Longrightarrow> log_moves False n n'"
  by (rule log_moves_frame;
      auto simp: receive_vote_def Let_def split: if_splits rpc_reply.splits)+

lemma finish_moves:
  assumes "finish_election N now r (n, v) = Returns n'" "\<not> shutdownRequested n"
  shows "log_moves (v > int (N div 2)) n n'"
  using assms
  by (intro log_moves_frame)
    (auto simp: finish_election_def reset_timeout_def become_leader_def split: if_splits option.splits)

lemma reboot_moves:
  assumes "reboot now r s n = Inr (n', s')" "vote_persisted n" "no_snapshot n"
  shows "log_moves False n n'"
  using assms
  by (auto simp: reboot_def boot_node_def loadMetadata_def start_restore_def RaftNode_new_def
      log_moves_def node_logs_def disk_logs_def no_snapshot_def vote_persisted_def
      split: disk_file.splits sum.splits option.splits)

lemma node_is_ok: "election_inv N c tr \<Longrightarrow> i < length (nodes c) \<Longrightarrow> node_ok i (nodes c ! i)"
  using election_inv_parts(1,2) by blast

text \<open>A step of an election moves at most one node.\<close>

lemma ballot_moves:
  assumes "ballot_step c e c'" "election_inv N c tr" "\<forall>n \<in> set (nodes c). no_snapshot n"
  obtains "nodes c' = nodes c"
    | i n where "i < length (nodes c)" "nodes c' = (nodes c)[i := n]"
      "log_moves (\<exists>t. e = Won i t (currentTerm n)) (nodes c ! i) n"
proof -
  have ok: "\<not> shutdownRequested (nodes c ! i)" "vote_persisted (nodes c ! i)" "no_snapshot (nodes c ! i)"
    if "i < length (nodes c)" for i
    using node_is_ok [OF assms(2) that] that assms(3) by (simp_all add: node_ok_def)
  show thesis
    using assms(1)
  proof cases
    case (Begin i n)
    then show ?thesis by (intro that(2) [of i n]) (auto simp: set_thread_def set_node_def begin_moves)
  next
    case (Deliver i t ps v p r n resp)
    then show ?thesis
      using vote_handler_moves ok by (intro that(2) [of "port_node p" n])
        (auto simp: set_thread_def set_node_def intro: log_moves_mono)
  next
    case (Receive i t ps v reply n v')
    then show ?thesis
      using receive_moves(1) by (intro that(2) [of i n])
        (auto simp: set_thread_def set_node_def intro: log_moves_mono)
  next
    case (Give_Up i t ps v reply n v')
    then show ?thesis
      using receive_moves(2) by (intro that(2) [of i n])
        (auto simp: set_thread_def set_node_def intro: log_moves_mono)
  next
    case (Finish i t v now rnd n)
    have "log_moves (\<exists>t. e = Won i t (currentTerm n)) (nodes c ! i) n"
      using finish_moves [OF Finish(5)] ok Finish(1,3) by (auto split: if_splits)
    then show ?thesis using Finish by (intro that(2) [of i n]) (auto simp: set_thread_def set_node_def)
  next
    case (Restart i now rnd s n s')
    then show ?thesis
      using reboot_moves ok by (intro that(2) [of i n])
        (auto simp: set_thread_def set_node_def intro: log_moves_mono)
  qed (auto simp: set_thread_def intro: that(1))
qed

section \<open>Every term is won once\<close>

text \<open>
  A node stands for terms above its own, and the thread that stands for a term has not won it yet.
\<close>

definition wins_ok :: "cluster \<Rightarrow> election_event list \<Rightarrow> bool" where
  "wins_ok c tr \<longleftrightarrow>
     (\<forall>i t t'. Won i t t' \<in> set tr \<longrightarrow>
        i < length (nodes c) \<and> t \<le> currentTerm (nodes c ! i) \<and>
        (\<forall>th. threads c i = Some th \<longrightarrow> stood_for th \<noteq> t))"

text \<open>What a step does to terms and threads.\<close>

lemma ballot_terms:
  assumes "ballot_step c e c'" "election_inv N c tr"
  shows "length (nodes c') = length (nodes c)"
    and "j < length (nodes c) \<Longrightarrow> currentTerm (nodes c ! j) \<le> currentTerm (nodes c' ! j)"
proof -
  have inv': "election_inv N c' (e # tr)" by (rule ballot_inv_preserved [OF assms])
  show "length (nodes c') = length (nodes c)"
    using election_inv_parts(1) [OF assms(2)] election_inv_parts(1) [OF inv'] by simp
  have ok: "\<not> shutdownRequested (nodes c ! i)" "vote_persisted (nodes c ! i)"
    if "i < length (nodes c)" for i
    using node_is_ok [OF assms(2) that] by (simp_all add: node_ok_def)
  have up: "currentTerm (nodes c ! j) \<le> currentTerm ((nodes c)[i := n] ! j)"
    if "vote_rely (nodes c ! i) n" "j < length (nodes c)" for i n
    using that by (cases "i = j") (auto simp: vote_rely_def)
  show "currentTerm (nodes c ! j) \<le> currentTerm (nodes c' ! j)" if j: "j < length (nodes c)"
    using assms(1)
  proof cases
    case (Begin i n)
    then show ?thesis using begin_rely(1) ok up j by (auto simp: set_node_def set_thread_def)
  next
    case (Deliver i t ps v p r n resp)
    then show ?thesis
      using up [OF vote_handler_rely [OF Deliver(6) ok [OF Deliver(5)]
            handle_RequestVote_peers [OF Deliver(6)]] j]
      by (simp add: set_node_def set_thread_def)
  next
    case (Receive i t ps v reply n v')
    then show ?thesis
      using up [OF receive_rely [OF Receive(5) ok [OF Receive(3)]] j] by (simp add: set_node_def set_thread_def)
  next
    case (Give_Up i t ps v reply n v')
    then show ?thesis
      using up [OF give_up_rely [OF Give_Up(5) ok [OF Give_Up(3)]] j] by (simp add: set_node_def set_thread_def)
  next
    case (Finish i t v now rnd n)
    then show ?thesis
      using up [OF finish_rely(1) [OF Finish(5) ok [OF Finish(3)]] j] by (simp add: set_node_def set_thread_def)
  next
    case (Restart i now rnd s n s')
    then show ?thesis
      using up [OF restart_rely [OF Restart(4) ok(2) [OF Restart(3)]] j] by (simp add: set_node_def set_thread_def)
  qed (simp_all add: set_thread_def)
qed

lemma ballot_threads:
  assumes "ballot_step c e c'" "election_inv N c tr" "threads c' i = Some th"
  shows "\<exists>th'. threads c i = Some th' \<and> stood_for th' = stood_for th \<or>
    (i < length (nodes c) \<and> currentTerm (nodes c ! i) < stood_for th)"
proof -
  have alive: "\<not> shutdownRequested (nodes c ! j)" if "j < length (nodes c)" for j
    using node_is_ok [OF assms(2) that] by (simp_all add: node_ok_def)
  from assms(1) show ?thesis
  proof cases
    case (Begin j n)
    then show ?thesis
      using assms(3) begin_rely(2) [OF Begin(5) alive] by (auto simp: set_thread_def split: if_splits)
  qed (use assms(3) in \<open>auto simp: set_thread_def split: if_splits\<close>)
qed

lemma ballot_won:
  assumes "ballot_step c (Won i t t') c'" "election_inv N c tr"
  shows "i < length (nodes c)" "t \<le> currentTerm (nodes c ! i)" "threads c' i = None"
    "\<exists>th. threads c i = Some th \<and> stood_for th = t" "currentTerm (nodes c' ! i) = t'"
proof -
  from assms(1) obtain v where v: "i < length (nodes c)" "threads c i = Some (Election t [] v Idle)"
    "threads c' i = None" "currentTerm (nodes c' ! i) = t'"
    by cases (auto simp: set_thread_def split: if_splits)
  then show "i < length (nodes c)" "threads c' i = None"
    "\<exists>th. threads c i = Some th \<and> stood_for th = t" "currentTerm (nodes c' ! i) = t'"
    by simp_all
  show "t \<le> currentTerm (nodes c ! i)"
    using election_inv_parts(3) [OF assms(2) v(2)] by (simp add: supported_def)
qed

lemma wins_ok_ballot:
  assumes "ballot_step c e c'" "election_inv N c tr" "wins_ok c tr"
  shows "wins_ok c' (e # tr)" "e = Won i t t' \<Longrightarrow> Won i t s \<notin> set tr"
proof -
  note up = ballot_terms [OF assms(1,2)]
  show new: "Won i t s \<notin> set tr" if "e = Won i t t'" for i t t' s
    using ballot_won(4) [OF assms(1) [unfolded that] assms(2)] assms(3) by (auto simp: wins_ok_def)
  show "wins_ok c' (e # tr)"
    unfolding wins_ok_def
  proof (intro allI impI)
    fix i t t' assume "Won i t t' \<in> set (e # tr)"
    then consider "e = Won i t t'" | "Won i t t' \<in> set tr" by auto
    then show "i < length (nodes c') \<and> t \<le> currentTerm (nodes c' ! i) \<and>
        (\<forall>th. threads c' i = Some th \<longrightarrow> stood_for th \<noteq> t)"
    proof cases
      case 1
      note w = ballot_won [OF assms(1) [unfolded 1] assms(2)]
      then show ?thesis using up by fastforce
    next
      case 2
      then have old: "i < length (nodes c)" "t \<le> currentTerm (nodes c ! i)"
        "\<And>th. threads c i = Some th \<Longrightarrow> stood_for th \<noteq> t"
        using assms(3) by (auto simp: wins_ok_def)
      have "stood_for th \<noteq> t" if "threads c' i = Some th" for th
        using ballot_threads [OF assms(1,2) that] old(2,3) by force
      then show ?thesis using old(1,2) up by fastforce
    qed
  qed
qed

lemma wins_ok_quiet:
  assumes "wins_ok c tr" "i < length (nodes c)" "vote_rely (nodes c ! i) n"
  shows "wins_ok (set_node i n c) (Silent # tr)"
  unfolding wins_ok_def
proof (intro allI impI)
  fix j t t' assume "Won j t t' \<in> set (Silent # tr)"
  then have "j < length (nodes c)" "t \<le> currentTerm (nodes c ! j)"
    "\<forall>th. threads c j = Some th \<longrightarrow> stood_for th \<noteq> t"
    using assms(1) by (auto simp: wins_ok_def)
  moreover have "currentTerm (nodes c ! j) \<le> currentTerm (nodes (set_node i n c) ! j)"
    using assms(2,3) by (cases "j = i") (auto simp: vote_rely_def)
  ultimately show "j < length (nodes (set_node i n c)) \<and>
      t \<le> currentTerm (nodes (set_node i n c) ! j) \<and>
      (\<forall>th. threads (set_node i n c) j = Some th \<longrightarrow> stood_for th \<noteq> t)" by simp
qed

section \<open>What the handler does to the log\<close>

lemma append_entries_snapshot [simp]:
  "snapshotFile (append_entries r n) = snapshotFile n"
  "peerRpcPorts (append_entries r n) = peerRpcPorts n"
  using append_entries_log [of r n] by auto

lemma handler_saves:
  assumes "ae_normal r f" "handle_AppendEntries now rnd r f s = (f', s', reply)"
  shows "disk_logs f' = {log f'}"
  using handle_AE_result(2,9) [OF assms] by (simp add: disk_logs_def ae_appended_def persistMetadata_def)

lemma handler_log:
  assumes "handle_AppendEntries now rnd r f s = (f', s', reply)" "no_snapshot f"
    and "int (length (log f) + length (ae_entries r)) < SNAPSHOT_THRESHOLD"
    and "\<not> shutdownRequested f" "vote_persisted f"
  shows "log f' = log f \<or> ae_term r = currentTerm f \<and> consistency_check r f \<and>
      log f' = log (append_entries r (ae_received now rnd r f))"
    and "node_logs f' \<subseteq> insert (log f') (node_logs f)" "no_snapshot f'"
    and "state f' = state f" "currentTerm f' = currentTerm f" "vote_rely f f'"
proof -
  show rely: "vote_rely f f'" by (rule AppendEntries_rely [OF assms(1,4,5)])
  have snap: "\<not> receivingSnapshot f" "latestSnapshot f = None" "snapshotFile f = Missing"
    using assms(2) by (simp_all add: no_snapshot_def)
  have all: "(log f' = log f \<or> ae_term r = currentTerm f \<and> consistency_check r f \<and>
      log f' = log (append_entries r (ae_received now rnd r f))) \<and>
    node_logs f' \<subseteq> insert (log f') (node_logs f) \<and> no_snapshot f' \<and> state f' = state f \<and>
    currentTerm f' = currentTerm f"
  proof (cases "ae_normal r f")
    case True
    note res = handle_AE_result [OF True assms(1)]
    let ?a = "ae_appended now rnd r f"
    have "disk_logs f' = {log f'}" by (rule handler_saves [OF True assms(1)])
    moreover have "snapshotFile f' = Missing"
    proof -
      have a: "snapshotFile ?a = Missing"
        using snap by (auto simp: ae_appended_def ae_received_def persistMetadata_def)
      have len: "int (length (log ?a)) < SNAPSHOT_THRESHOLD"
        using assms(3) append_entries_length [of r "ae_received now rnd r f"]
        by (auto simp: ae_appended_def)
      have norm: "\<not> mtxHeld f" "ae_term r = currentTerm f" "state f \<noteq> CANDIDATE"
        using True by (simp_all add: ae_normal_def)
      obtain k t x where k: "advance_commit (ae_leaderCommit r) ?a s = (k, t, x)"
        using prod_cases3 by blast
      have "snapshotFile k = Missing" using k len a by (auto elim!: advance_commit_cases)
      moreover have "f' = release k \<or> f' = release ?a"
        using assms(1) k handle_AE_normal [OF norm(1) snap(1) norm(2,3), of now rnd s]
        by (auto simp: Let_def ae_appended_def split: if_splits prod.splits option.splits)
      ultimately show ?thesis using a by (auto simp: release_def)
    qed
    moreover have "ae_term r = currentTerm f" using True by (simp add: ae_normal_def)
    ultimately show ?thesis
      using res snap by (auto simp: node_logs_def no_snapshot_def ae_appended_def)
  next
    case False
    then have "mtxHeld f \<or> ae_term r < currentTerm f \<or> steps_down r f"
      using snap assms(3) by (auto simp: ae_normal_def steps_down_def)
    then have "f' = f\<lparr>metrics := (metrics f)\<lparr>appendEntriesReceived :=
        appendEntriesReceived (metrics f) + 1\<rparr>, mtxHeld := mtxHeld f'\<rparr>"
      using assms(1) snap
      by (auto simp: handle_AppendEntries_def accept_entries_def becomeFollower_def steps_down_def
          Let_def release_def split: if_splits)
    then obtain m b where f': "f' = f\<lparr>metrics := m, mtxHeld := b\<rparr>" by blast
    show ?thesis
      using snap by (simp add: f' node_logs_def disk_logs_def no_snapshot_def subset_iff)
  qed
  then show "log f' = log f \<or> ae_term r = currentTerm f \<and> consistency_check r f \<and>
      log f' = log (append_entries r (ae_received now rnd r f))"
    "node_logs f' \<subseteq> insert (log f') (node_logs f)" "no_snapshot f'" "state f' = state f"
    "currentTerm f' = currentTerm f" by simp_all
qed

text \<open>A batch cut out of a log that matches: the handler takes over a prefix of that log or nothing.\<close>

lemma handler_takes_prefix:
  assumes "handle_AppendEntries now rnd r f s = (f', s', reply)" "no_snapshot f"
    and "int (length (log f) + length (ae_entries r)) < SNAPSHOT_THRESHOLD"
    and "\<not> shutdownRequested f" "vote_persisted f"
    and "batch_at r xs k m \<or> ae_entries r = []" "logs_match xs (log f)" "contiguous 0 xs"
  shows "log f' = log f \<or> ae_term r = currentTerm f \<and>
    (\<exists>q \<ge> common_len xs (log f). log f' = take q xs \<and> common_len xs (log f) < length xs)"
proof -
  let ?f = "ae_received now rnd r f"
  have snap: "latestSnapshot ?f = None" "logs_match xs (log ?f)"
    using assms(2,7) by (simp_all add: no_snapshot_def)
  consider "log f' = log f"
    | "ae_term r = currentTerm f" "consistency_check r ?f" "log f' = log (append_entries r ?f)"
    using handler_log(1) [OF assms(1-5)] by auto
  then show ?thesis
  proof cases
    case 2
    show ?thesis
    proof (cases "ae_entries r = []")
      case True
      then show ?thesis using 2(3) by (simp add: append_entries_def)
    next
      case False
      then have b: "batch_at r xs k m" using assms(6) by simp
      have "k \<le> common_len xs (log ?f)" using 2(2) batch_check [OF b snap] by simp
      from batch_append [OF b snap assms(8) this] 2 show ?thesis
        by (intro impI disjCI conjI exI [of _ "k + m"]) (auto split: if_splits)
    qed
  qed simp
qed

section \<open>The invariant\<close>

definition won_terms :: "election_event list \<Rightarrow> int set" where
  "won_terms tr = {t. \<exists>i. Won i t t \<in> set tr}"

text \<open>Every entry belongs to a term that was won, and all logs match.\<close>

definition logs_ok :: "election_event list \<Rightarrow> logEntry list set \<Rightarrow> bool" where
  "logs_ok tr Ls \<longleftrightarrow>
     (\<forall>xs \<in> Ls. contiguous 0 xs \<and> entry_term ` set xs \<subseteq> won_terms tr) \<and>
     (\<forall>xs \<in> Ls. \<forall>ys \<in> Ls. logs_match xs ys)"

text \<open>A leader has won its term, and where a log has an entry of that term, so has the leader's.\<close>

definition has_term :: "logEntry list \<Rightarrow> nat \<Rightarrow> int \<Rightarrow> bool" where
  "has_term xs p t \<longleftrightarrow> p < length xs \<and> entry_term (xs ! p) = t"

definition leads_ok :: "election_event list \<Rightarrow> logEntry list set \<Rightarrow> nat \<Rightarrow> RaftNode \<Rightarrow> bool" where
  "leads_ok tr Ls j n \<longleftrightarrow>
     (state n = LEADER \<longrightarrow>
        Won j (currentTerm n) (currentTerm n) \<in> set tr \<and>
        (\<forall>xs \<in> Ls. \<forall>p. has_term xs p (currentTerm n) \<longrightarrow> has_term (log n) p (currentTerm n)))"

lemma has_term_simps [simp]:
  "\<not> has_term [] p t"
  "has_term (xs @ [e]) p t \<longleftrightarrow> has_term xs p t \<or> p = length xs \<and> entry_term e = t"
  "has_term (take k xs) p t \<longleftrightarrow> p < k \<and> has_term xs p t"
  by (auto simp: has_term_def nth_append less_Suc_eq)

text \<open>A batch on its way was cut out of a log, by another node, which won the term.\<close>

definition batch_ok ::
  "election_event list \<Rightarrow> logEntry list set \<Rightarrow> int \<times> AppendEntriesRPC \<Rightarrow> bool" where
  "batch_ok tr G b \<longleftrightarrow>
     (case b of (q, r) \<Rightarrow>
        (\<exists>xs \<in> G. \<exists>k m. batch_at r xs k m \<or> ae_entries r = []) \<and>
        (\<exists>i. i \<noteq> port_node q \<and> Won i (ae_term r) (ae_term r) \<in> set tr))"

definition all_logs :: "cluster \<Rightarrow> logEntry list set \<Rightarrow> logEntry list set" where
  "all_logs c G = G \<union> (\<Union>n \<in> set (nodes c). node_logs n)"

definition all_ok ::
  "cluster \<Rightarrow> (int \<times> AppendEntriesRPC) set \<Rightarrow> election_event list \<Rightarrow> logEntry list set \<Rightarrow> bool" where
  "all_ok c M tr G \<longleftrightarrow>
     logs_ok tr (all_logs c G) \<and>
     (\<forall>j < length (nodes c). no_snapshot (nodes c ! j) \<and> leads_ok tr (all_logs c G) j (nodes c ! j)) \<and>
     (\<forall>b \<in> M. batch_ok tr G b)"

text \<open>\<open>G\<close> collects the logs that batches were cut out of.\<close>

definition protocol_inv ::
  "nat \<Rightarrow> cluster \<times> (int \<times> AppendEntriesRPC) set \<Rightarrow> election_event list \<Rightarrow> bool" where
  "protocol_inv N q tr \<longleftrightarrow>
     election_inv N (fst q) tr \<and> wins_ok (fst q) tr \<and> (\<exists>G. all_ok (fst q) (snd q) tr G)"

lemma won_terms_mono: "won_terms tr \<subseteq> won_terms (e # tr)"
  by (auto simp: won_terms_def)

lemma logs_ok_mono: "logs_ok tr Ls \<Longrightarrow> Ls' \<subseteq> Ls \<Longrightarrow> logs_ok (e # tr) Ls'"
  unfolding logs_ok_def using won_terms_mono [of tr e] by blast

lemma logs_ok_insert:
  assumes "logs_ok tr Ls" "contiguous 0 xs" "entry_term ` set xs \<subseteq> won_terms tr"
    and "\<And>ys. ys \<in> Ls \<Longrightarrow> logs_match xs ys"
  shows "logs_ok tr (insert xs Ls)"
  using assms logs_match_refl [of xs] logs_match_sym unfolding logs_ok_def by auto

lemma leads_ok_mono: "leads_ok tr Ls j n \<Longrightarrow> Ls' \<subseteq> Ls \<Longrightarrow> leads_ok (e # tr) Ls' j n"
  unfolding leads_ok_def by fastforce

lemma batch_ok_mono: "batch_ok tr G b \<Longrightarrow> G \<subseteq> G' \<Longrightarrow> batch_ok (e # tr) G' b"
  unfolding batch_ok_def by (cases b) fastforce

lemma all_logs_update:
  assumes "nodes c' = (nodes c)[i := n]" "node_logs n \<subseteq> insert xs (all_logs c G)"
  shows "all_logs c' G \<subseteq> insert xs (all_logs c G)"
proof -
  have "set (nodes c') \<subseteq> insert n (set (nodes c))"
    using assms(1) set_update_subset_insert by metis
  then show ?thesis using assms(2) unfolding all_logs_def by blast
qed

lemma node_logs_in: "i < length (nodes c) \<Longrightarrow> node_logs (nodes c ! i) \<subseteq> all_logs c G"
  unfolding all_logs_def by auto

text \<open>One node moves on; \<open>xs\<close> is the log that is new.\<close>

lemma all_ok_update:
  assumes ok: "all_ok c M tr G" and i: "i < length (nodes c)" "nodes c' = (nodes c)[i := n]"
    and logs: "node_logs n \<subseteq> insert xs (all_logs c G)" "no_snapshot n"
    and xs: "contiguous 0 xs" "entry_term ` set xs \<subseteq> won_terms tr"
      "\<And>ys. ys \<in> all_logs c G \<Longrightarrow> logs_match xs ys"
    and others: "\<And>j p. \<lbrakk>j < length (nodes c); j \<noteq> i; state (nodes c ! j) = LEADER;
      has_term xs p (currentTerm (nodes c ! j))\<rbrakk> \<Longrightarrow>
      has_term (log (nodes c ! j)) p (currentTerm (nodes c ! j))"
    and leads: "leads_ok (e # tr) (insert xs (all_logs c G)) i n"
  shows "all_ok c' M (e # tr) G"
  unfolding all_ok_def
proof (intro conjI allI impI)
  note sub = all_logs_update [OF i(2) logs(1)]
  have old: "logs_ok tr (all_logs c G)" using ok by (simp add: all_ok_def)
  then show "logs_ok (e # tr) (all_logs c' G)"
    by (rule logs_ok_mono [OF logs_ok_insert [OF _ xs] sub])
  fix j assume j: "j < length (nodes c')"
  show "no_snapshot (nodes c' ! j)"
    using j i logs(2) ok by (cases "j = i") (auto simp: all_ok_def)
  show "leads_ok (e # tr) (all_logs c' G) j (nodes c' ! j)"
  proof (cases "j = i")
    case True
    then show ?thesis using leads i sub unfolding leads_ok_def by auto
  next
    case False
    then have n: "nodes c' ! j = nodes c ! j" "j < length (nodes c)" using i j by simp_all
    then have "leads_ok tr (all_logs c G) j (nodes c ! j)" using ok by (simp add: all_ok_def)
    then have "leads_ok tr (insert xs (all_logs c G)) j (nodes c ! j)"
      using others [OF n(2) False] by (auto simp: leads_ok_def)
    then show ?thesis using leads_ok_mono [OF _ sub] n(1) by simp
  qed
next
  show "\<forall>b \<in> M. batch_ok (e # tr) G b" using ok batch_ok_mono by (auto simp: all_ok_def)
qed

text \<open>Nothing new.\<close>

lemma all_ok_moves:
  assumes ok: "all_ok c M tr G" and i: "i < length (nodes c)" "nodes c' = (nodes c)[i := n]"
    and moves: "log_moves (\<exists>t. e = Won i t (currentTerm n)) (nodes c ! i) n"
    and win: "\<And>t. e = Won i t (currentTerm n) \<Longrightarrow> t = currentTerm n \<and> t \<notin> won_terms tr"
  shows "all_ok c' M (e # tr) G"
proof (rule all_ok_update [OF ok i, where xs = "[]"])
  have old: "logs_ok tr (all_logs c G)" "leads_ok tr (all_logs c G) i (nodes c ! i)"
    using ok i(1) by (simp_all add: all_ok_def)
  show "node_logs n \<subseteq> insert [] (all_logs c G)"
    using moves node_logs_in [OF i(1), of G] by (auto simp: log_moves_def)
  show "no_snapshot n" using ok i(1) moves by (simp add: all_ok_def log_moves_def)
  show "leads_ok (e # tr) (insert [] (all_logs c G)) i n"
  proof (cases "state n = LEADER")
    case True
    have same: "log n = log (nodes c ! i)" "currentTerm n = currentTerm (nodes c ! i)"
      and "(\<exists>t. e = Won i t (currentTerm n)) \<or> state (nodes c ! i) = LEADER"
      using mp [OF conjunct2 [OF conjunct2 [OF moves [unfolded log_moves_def]]] True] by blast+
    then show ?thesis
    proof (elim disjE exE)
      fix t assume e: "e = Won i t (currentTerm n)"
      have "\<not> has_term ys p (currentTerm n)" if "ys \<in> all_logs c G" for p ys
      proof -
        have sub: "entry_term ` set ys \<subseteq> won_terms tr" using old(1) that by (simp add: logs_ok_def)
        have "entry_term (ys ! p) \<in> won_terms tr" if "p < length ys"
          using subsetD [OF sub imageI [OF nth_mem [OF that]]] .
        then show ?thesis using win [OF e] by (auto simp: has_term_def)
      qed
      then show ?thesis using e win [OF e] by (auto simp: leads_ok_def)
    next
      assume "state (nodes c ! i) = LEADER"
      then show ?thesis using old(2) same by (auto simp: leads_ok_def)
    qed
  qed (simp add: leads_ok_def)
qed simp_all

section \<open>Every step keeps the invariant\<close>

lemma all_ok_same:
  assumes "all_ok c M tr G" "nodes c' = nodes c"
  shows "all_ok c' M (e # tr) G"
  using assms logs_ok_mono [of tr "all_logs c G" _ e] leads_ok_mono [of tr "all_logs c G" _ _ _ e]
    batch_ok_mono [of tr G _ G e]
  by (auto simp: all_ok_def all_logs_def)

lemma all_ok_ballot:
  assumes step: "ballot_step c e c'" and inv: "election_inv N c tr" "wins_ok c tr"
    and ok: "all_ok c M tr G" and fair: "fair_wins (e # tr)"
  shows "all_ok c' M (e # tr) G"
proof -
  have snap: "\<forall>n \<in> set (nodes c). no_snapshot n" using ok by (auto simp: all_ok_def in_set_conv_nth)
  have win: "t = t' \<and> t \<notin> won_terms tr" if e: "e = Won i t t'" for i t t'
  proof -
    have t: "t = t'" using fair e by (simp add: fair_wins_def)
    have "w = i" if "Won w t t \<in> set tr" for w
      using winner_unique [OF ballot_inv_preserved [OF step inv(1)], of w t i] that e t by simp
    then show ?thesis using wins_ok_ballot(2) [OF step inv e] t by (auto simp: won_terms_def)
  qed
  from step inv(1) snap show ?thesis
  proof (cases rule: ballot_moves)
    case 1
    then show ?thesis by (rule all_ok_same [OF ok])
  next
    case (2 i n)
    then show ?thesis using win by (intro all_ok_moves [OF ok]) auto
  qed
qed

lemma guard_open: "client_guard cid rid n = None \<Longrightarrow> state n = LEADER \<and> \<not> shutdownRequested n"
  by (auto simp: client_guard_def split: if_splits)

lemma append_command_simps [simp]:
  "state (append_command cmd n) = state n" "currentTerm (append_command cmd n) = currentTerm n"
  "metadataFile (append_command cmd n) = metadataFile n"
  "latestSnapshot (append_command cmd n) = latestSnapshot n"
  "snapshotFile (append_command cmd n) = snapshotFile n"
  "receivingSnapshot (append_command cmd n) = receivingSnapshot n"
  by (simp_all add: append_command_def)

lemma append_command_rely:
  "\<not> shutdownRequested n \<Longrightarrow> vote_persisted n \<Longrightarrow> vote_rely n (append_command cmd n)"
  by (rule vote_rely_frame) (simp_all add: append_command_def)

lemma all_ok_append:
  assumes inv: "election_inv N c tr" and ok: "all_ok c M tr G" and i: "i < length (nodes c)"
    and lead: "state (nodes c ! i) = LEADER"
  shows "all_ok (set_node i (append_command cmd (nodes c ! i)) c) M (Silent # tr) G"
proof (rule all_ok_update [OF ok i, where xs = "log (append_command cmd (nodes c ! i))"])
  let ?n = "nodes c ! i" and ?xs = "log (append_command cmd (nodes c ! i))"
  let ?T = "currentTerm ?n"
  have old: "logs_ok tr (all_logs c G)" "leads_ok tr (all_logs c G) i ?n" "no_snapshot ?n"
    using ok i by (simp_all add: all_ok_def)
  then have snap: "latestSnapshot ?n = None" by (simp add: no_snapshot_def)
  define e where "e = \<lparr>entry_term = ?T, entry_index = int (length (log ?n)), entry_command = cmd\<rparr>"
  have xs: "?xs = log ?n @ [e]" by (simp add: append_command_def e_def plain_log snap)
  have mine: "log ?n \<in> all_logs c G" using node_logs_in [OF i] by (auto simp: node_logs_def)
  have won: "Won i ?T ?T \<in> set tr" using old(2) lead by (simp add: leads_ok_def)
  show "nodes (set_node i (append_command cmd ?n) c) = (nodes c)[i := append_command cmd ?n]"
    by (simp add: set_node_def)
  show "node_logs (append_command cmd ?n) \<subseteq> insert ?xs (all_logs c G)"
    using node_logs_in [OF i, of G] by (auto simp: node_logs_def disk_logs_def)
  show "no_snapshot (append_command cmd ?n)" using old(3) by (simp add: no_snapshot_def)
  show "contiguous 0 ?xs"
    using old(1) mine by (simp add: xs e_def contiguous_append contiguous_Cons logs_ok_def)
  show "entry_term ` set ?xs \<subseteq> won_terms tr"
    using old(1) mine won by (auto simp: xs e_def logs_ok_def won_terms_def)
  show "logs_match ?xs ys" if ys: "ys \<in> all_logs c G" for ys
  proof -
    have "logs_match (log ?n) ys" using old(1) mine ys by (simp add: logs_ok_def)
    moreover have "entry_term (ys ! length (log ?n)) \<noteq> entry_term e" if "length (log ?n) < length ys"
      using old(2) lead ys that by (force simp: leads_ok_def has_term_def e_def)
    ultimately show ?thesis unfolding xs by (rule logs_match_snoc)
  qed
  show "has_term (log (nodes c ! j)) p (currentTerm (nodes c ! j))"
    if j: "j < length (nodes c)" "j \<noteq> i" "state (nodes c ! j) = LEADER"
      "has_term ?xs p (currentTerm (nodes c ! j))" for j p
  proof -
    have lj: "leads_ok tr (all_logs c G) j (nodes c ! j)" using ok j(1) by (simp add: all_ok_def)
    then have "currentTerm (nodes c ! j) \<noteq> ?T"
      using winner_unique [OF inv won, of j] j(2,3) by (auto simp: leads_ok_def)
    then show ?thesis using lj j(3,4) mine by (auto simp: leads_ok_def xs e_def)
  qed
  show "leads_ok (Silent # tr) (insert ?xs (all_logs c G)) i (append_command cmd ?n)"
    using old(2) by (fastforce simp: leads_ok_def xs)
qed

lemma message_cut:
  assumes "no_snapshot n" "contiguous 0 (log n)" "0 \<le> nextIndex n ! p"
    and "r = heartbeat_message p n \<or> r = client_message k p n"
  shows "\<exists>i m. batch_at r (log n) i m \<or> ae_entries r = []" "ae_term r = currentTerm n"
proof -
  have snap: "latestSnapshot n = None" using assms(1) by (simp add: no_snapshot_def)
  obtain i where i: "nextIndex n ! p = int i" using assms(3) nonneg_int_cases by blast
  show "ae_term r = currentTerm n"
    using assms(4) by (auto simp: heartbeat_message_def client_message_def Let_def)
  show "\<exists>i m. batch_at r (log n) i m \<or> ae_entries r = []"
  proof (cases "i \<le> length (log n)")
    case False
    then have "ae_entries r = []"
      using assms(4) i snap
      by (auto simp: heartbeat_message_def client_message_def Let_def getLogEntries_def plain_log)
    then show ?thesis by simp
  next
    case True
    have prev: "getLogTerm (int i - 1) n = (if i = 0 then 0 else entry_term (log n ! (i - 1)))"
      using True by (cases i) (auto simp: plain_log snap)
    have "batch_at (heartbeat_message p n) (log n) i 20"
      using plain_batch [OF snap i True] True prev by (simp add: batch_at_def)
    moreover have "batch_at (client_message k p n) (log n) i (nat (k + 1 - int i))"
    proof -
      have "getLogEntries (int i) (k + 1) n = take (nat (k + 1 - int i)) (drop i (log n))"
        using True by (auto simp: getLogEntries_def plain_log snap Let_def min_def)
      then show ?thesis using True prev i by (simp add: batch_at_def client_message_def Let_def)
    qed
    ultimately show ?thesis using assms(4) by blast
  qed
qed

lemma all_ok_send:
  assumes inv: "election_inv N c tr" and ok: "all_ok c M tr G" and i: "i < length (nodes c)"
    and lead: "state (nodes c ! i) = LEADER" and p: "p < length (peerRpcPorts (nodes c ! i))"
      "0 \<le> nextIndex (nodes c ! i) ! p"
    and r: "r = heartbeat_message p (nodes c ! i) \<or> r = client_message k p (nodes c ! i)"
    and mine: "log (nodes c ! i) \<in> G"
  shows "all_ok c (insert (peerRpcPorts (nodes c ! i) ! p, r) M) (Silent # tr) G"
proof -
  let ?n = "nodes c ! i"
  let ?b = "(peerRpcPorts ?n ! p, r)"
  have "log ?n \<in> all_logs c G" using mine by (simp add: all_logs_def)
  then have n: "no_snapshot ?n" "leads_ok tr (all_logs c G) i ?n" "contiguous 0 (log ?n)"
    using ok i by (simp_all add: all_ok_def logs_ok_def)
  note cut = message_cut [OF n(1,3) p(2) r]
  have "i \<noteq> port_node (peerRpcPorts ?n ! p)"
    using node_is_ok [OF inv i] p(1) by (auto simp: node_ok_def)
  moreover have "Won i (ae_term r) (ae_term r) \<in> set tr"
    using n(2) lead cut(2) by (simp add: leads_ok_def)
  ultimately have "batch_ok tr G ?b" using cut(1) mine by (auto simp: batch_ok_def)
  then have "all_ok c (insert ?b M) tr G" using ok by (simp add: all_ok_def)
  then show ?thesis by (rule all_ok_same) simp
qed

text \<open>The logs that the nodes have may be taken into \<open>G\<close> at any time.\<close>

lemma all_ok_grow:
  assumes "all_ok c M tr G"
  shows "all_ok c M tr (G \<union> log ` set (nodes c))"
proof -
  have "all_logs c (G \<union> log ` set (nodes c)) = all_logs c G"
    by (auto simp: all_logs_def node_logs_def)
  moreover have "batch_ok tr (G \<union> log ` set (nodes c)) b" if "b \<in> M" for b
    using assms that by (fastforce simp: all_ok_def batch_ok_def)
  ultimately show ?thesis using assms by (simp add: all_ok_def)
qed

lemma all_ok_receive:
  assumes inv: "election_inv N c tr" and ok: "all_ok c M tr G" and b: "(q, r) \<in> M"
    and i: "port_node q < length (nodes c)"
    and h: "handle_AppendEntries now rnd r (nodes c ! port_node q) s = (f, s', reply)"
    and len: "int (length (log (nodes c ! port_node q)) + length (ae_entries r)) < SNAPSHOT_THRESHOLD"
  shows "all_ok (set_node (port_node q) f c) M (Silent # tr) G"
proof (rule all_ok_update [OF ok i, where xs = "log f"])
  let ?i = "port_node q"
  let ?n = "nodes c ! ?i"
  have old: "logs_ok tr (all_logs c G)" "leads_ok tr (all_logs c G) ?i ?n" "no_snapshot ?n"
    using ok i by (simp_all add: all_ok_def)
  have n: "\<not> shutdownRequested ?n" "vote_persisted ?n"
    using node_is_ok [OF inv i] by (simp_all add: node_ok_def)
  note eff = handler_log [OF h old(3) len n]
  have mine: "log ?n \<in> all_logs c G" using node_logs_in [OF i] by (auto simp: node_logs_def)
  obtain xs k m w where xs: "xs \<in> G" "batch_at r xs k m \<or> ae_entries r = []"
    and w: "w \<noteq> ?i" "Won w (ae_term r) (ae_term r) \<in> set tr"
    using ok b by (fastforce simp: all_ok_def batch_ok_def)
  have in_all: "xs \<in> all_logs c G" using xs(1) by (simp add: all_logs_def)
  then have ok_xs: "logs_match xs (log ?n)" "contiguous 0 xs" using old(1) mine by (simp_all add: logs_ok_def)
  obtain ys j where ys: "ys \<in> all_logs c G" "log f = take j ys"
    and stays: "log f = log ?n \<or> ae_term r = currentTerm ?n"
  proof -
    have "log f = log ?n \<or> ae_term r = currentTerm ?n \<and> (\<exists>j. log f = take j xs)"
      using handler_takes_prefix [OF h old(3) len n xs(2) ok_xs] by blast
    then show thesis using that [of "log ?n" "length (log ?n)"] that [of xs] mine in_all by auto
  qed
  show "nodes (set_node ?i f c) = (nodes c)[?i := f]" by (simp add: set_node_def)
  show "node_logs f \<subseteq> insert (log f) (all_logs c G)" using eff(2) node_logs_in [OF i, of G] by blast
  show "no_snapshot f" by (rule eff(3))
  show "contiguous 0 (log f)" using old(1) ys by (simp add: logs_ok_def contiguous_take)
  show "entry_term ` set (log f) \<subseteq> won_terms tr"
    using old(1) ys set_take_subset [of j ys] by (force simp: logs_ok_def)
  show "logs_match (log f) zs" if "zs \<in> all_logs c G" for zs
    using old(1) ys that logs_match_take by (simp add: logs_ok_def)
  show "has_term (log (nodes c ! j')) p (currentTerm (nodes c ! j'))"
    if "j' < length (nodes c)" "j' \<noteq> ?i" "state (nodes c ! j') = LEADER"
      "has_term (log f) p (currentTerm (nodes c ! j'))" for j' p
  proof -
    have "leads_ok tr (all_logs c G) j' (nodes c ! j')" using ok that(1) by (simp add: all_ok_def)
    then show ?thesis using that ys by (auto simp: leads_ok_def)
  qed
  show "leads_ok (Silent # tr) (insert (log f) (all_logs c G)) ?i f"
  proof (cases "state f = LEADER")
    case True
    then have won: "Won ?i (currentTerm ?n) (currentTerm ?n) \<in> set tr"
      using old(2) eff(4) by (simp add: leads_ok_def)
    then have "ae_term r \<noteq> currentTerm ?n" using winner_unique [OF inv won, of w] w by auto
    then have "log f = log ?n" using stays by simp
    then show ?thesis using old(2) eff(4,5) mine by (auto simp: leads_ok_def)
  qed (simp add: leads_ok_def)
qed

lemma protocol_step_ok:
  assumes "protocol_step (c, M) e q'" and inv: "election_inv N c tr" "wins_ok c tr" "all_ok c M tr G"
    and "fair_wins (e # tr)" "log ` set (nodes c) \<subseteq> G"
  shows "election_inv N (fst q') (e # tr) \<and> wins_ok (fst q') (e # tr) \<and> all_ok (fst q') (snd q') (e # tr) G"
proof -
  have n: "\<not> shutdownRequested (nodes c ! i)" "vote_persisted (nodes c ! i)" "no_snapshot (nodes c ! i)"
    if "i < length (nodes c)" for i
    using node_is_ok [OF inv(1) that] that inv(3) by (auto simp: node_ok_def all_ok_def)
  have quiet: "election_inv N (set_node i m c) (Silent # tr) \<and> wins_ok (set_node i m c) (Silent # tr) \<and>
      all_ok (set_node i m c) M (Silent # tr) G"
    if "i < length (nodes c)" "vote_rely (nodes c ! i) m" "all_ok (set_node i m c) M (Silent # tr) G" for i m
    using that election_inv_other [OF inv(1)] wins_ok_quiet [OF inv(2)] by blast
  from assms(1) show ?thesis
  proof (cases rule: protocol_step.cases)
    case (Elect c')
    have "all_ok c' M (e # tr) G" by (rule all_ok_ballot [OF Elect(2) inv assms(5)])
    then show ?thesis
      using Elect(1) ballot_inv_preserved [OF Elect(2) inv(1)] wins_ok_ballot(1) [OF Elect(2) inv(1,2)]
      by simp
  next
    case (Append i cid rid cmd)
    note g = guard_open [OF Append(4)]
    show ?thesis
      unfolding Append(1,2) fst_conv snd_conv
      by (rule quiet [OF Append(3) append_command_rely all_ok_append [OF inv(1,3) Append(3)]])
        (use g n Append(3) in auto)
  next
    case (Send_Batch i p r k)
    have "log (nodes c ! i) \<in> G" using assms(6) Send_Batch(3) by auto
    then have "all_ok c (insert (peerRpcPorts (nodes c ! i) ! p, r) M) (Silent # tr) G"
      by (rule all_ok_send [OF inv(1,3) Send_Batch(3-7)])
    moreover have "election_inv N (set_node i (nodes c ! i) c) (Silent # tr)"
      "wins_ok (set_node i (nodes c ! i) c) (Silent # tr)"
      using election_inv_other [OF inv(1) Send_Batch(3)] wins_ok_quiet [OF inv(2) Send_Batch(3)]
        rely_refl [OF node_is_ok [OF inv(1) Send_Batch(3)]] by blast+
    ultimately show ?thesis unfolding Send_Batch(1,2) by (simp add: set_same)
  next
    case (Receive_Batch p r now rnd s f s' reply)
    note ni = n [OF Receive_Batch(4)]
    show ?thesis
      unfolding Receive_Batch(1,2) fst_conv snd_conv
      by (rule quiet [OF Receive_Batch(4) handler_log(6) [OF Receive_Batch(5) ni(3) Receive_Batch(6) ni(1,2)]
            all_ok_receive [OF inv(1,3) Receive_Batch(3-6)]])
  next
    case (Local i m)
    have "all_ok (set_node i m c) M (Silent # tr) G"
      by (rule all_ok_moves [OF inv(3) Local(3), where n = m])
        (use Local log_moves_mono in \<open>auto simp: set_node_def local_step_def\<close>)
    then show ?thesis
      unfolding Local(1,2) fst_conv snd_conv by (rule quiet [OF Local(3) conjunct1 [OF Local(4) [unfolded local_step_def]]])
  qed
qed

lemma protocol_inv_preserved:
  assumes "protocol_step q e q'" "protocol_inv N q tr" "fair_wins (e # tr)"
  shows "protocol_inv N q' (e # tr)"
proof -
  obtain c M where q: "q = (c, M)" by fastforce
  from assms(2) obtain G where inv: "election_inv N c tr" "wins_ok c tr" "all_ok c M tr G"
    by (auto simp: protocol_inv_def q)
  show ?thesis
    using protocol_step_ok [OF assms(1) [unfolded q] inv(1,2) all_ok_grow [OF inv(3)] assms(3)]
    by (auto simp: protocol_inv_def)
qed

lemma new_cluster_protocol: "protocol_inv N (new_cluster N, {}) []"
proof -
  have "no_snapshot n \<and> node_logs n = {[]} \<and> state n = FOLLOWER" if "n \<in> set (nodes (new_cluster N))" for n
    using that by (auto simp: new_cluster_def RaftNode_new_def no_snapshot_def node_logs_def disk_logs_def)
  then have "all_ok (new_cluster N) {} [] {}"
    by (auto simp: all_ok_def all_logs_def logs_ok_def leads_ok_def)
  then show ?thesis using new_cluster_inv [of N] by (auto simp: protocol_inv_def wins_ok_def)
qed

lemma protocol_run_inv:
  "protocol_run q tr q' \<Longrightarrow> protocol_inv N q [] \<Longrightarrow> fair_wins tr \<Longrightarrow> protocol_inv N q' tr"
proof (induction rule: protocol_run.induct)
  case (Continues_With q tr q' e q'')
  have "fair_wins tr" using Continues_With.prems(2) by (simp add: fair_wins_def)
  then show ?case using Continues_With protocol_inv_preserved by blast
qed

section \<open>Local steps\<close>

text \<open>
  What a leader does with the answers it gets, and the commit of a command, are local steps: for
  any answer and any peer.
\<close>

lemma local_trans: "local_step n m \<Longrightarrow> local_step m k \<Longrightarrow> local_step n k"
  using vote_rely_trans [of n m k] log_moves_trans [of n m k] by (simp add: local_step_def)

lemma local_frame:
  assumes "\<not> shutdownRequested n" "vote_persisted n"
    and "log n' = log n" "metadataFile n' = metadataFile n" "latestSnapshot n' = latestSnapshot n"
    and "snapshotFile n' = snapshotFile n" "receivingSnapshot n' = receivingSnapshot n"
    and "shutdownRequested n' = shutdownRequested n" "currentTerm n' = currentTerm n"
    and "votedFor n' = votedFor n" "state n' = state n" "node_id n' = node_id n"
    and "peerRpcPorts n' = peerRpcPorts n"
  shows "local_step n n'"
  unfolding local_step_def
  using assms by (intro conjI vote_rely_frame log_moves_frame) simp_all

lemma local_persist:
  assumes "local_step n m" "log m = log n"
  shows "local_step n (persistMetadata m)"
proof -
  have "log_moves False m (persistMetadata m)" by (rule log_moves_frame) simp_all
  then show ?thesis
    using assms vote_rely_persist [of n m] log_moves_trans [of n m "persistMetadata m"]
    by (simp add: local_step_def)
qed

lemma step_down_local:
  assumes "currentTerm n < t" "\<not> shutdownRequested n"
  shows "local_step n (step_down t n)"
  using step_down_rely [OF assms]
  by (auto simp: local_step_def step_down_def intro!: log_moves_frame)

lemma heartbeat_reply_local:
  assumes "\<not> shutdownRequested n" "vote_persisted n"
    and "heartbeat_reply now i k sent reply n \<in> {Next_Peer n', Leaves_Loop n', Thread_Ends n'}"
  shows "local_step n n'"
proof -
  have same: "local_step n n" "local_step n (back_off i n)"
    "local_step n (n\<lparr>nextIndex := x, matchIndex := y\<rparr>)" for x y
    by (rule local_frame [OF assms(1,2)]; simp add: back_off_def)+
  have down: "local_step n (persistMetadata (n\<lparr>currentTerm := t, state := FOLLOWER, metrics := m,
      votedFor := - 1, runningHeartbeats := False, lastHeartbeat := now\<rparr>))"
    if "currentTerm n < t" for t m
    using that assms(1) by (auto simp: local_step_def vote_rely_def intro!: log_moves_frame)
  show ?thesis
    using assms(3) same(1)
    by (cases reply) (auto simp: heartbeat_reply_def intro: same down split: if_splits)
qed

lemma client_reply_local:
  assumes "\<not> shutdownRequested n" "vote_persisted n" "no_snapshot n"
    and "client_reply net k i reply (n, w, c) = Continues (n', w', c') \<or>
      client_reply net k i reply (n, w, c) = Answers (n', w', c') a"
  shows "local_step n n'"
proof -
  have same: "local_step n n" "local_step n (back_off i n)"
    "local_step n (n\<lparr>nextIndex := x, matchIndex := y\<rparr>)" for x y
    by (rule local_frame [OF assms(1,2)]; simp add: back_off_def)+
  have snap: "latestSnapshot (back_off i n) = None"
    using assms(3) by (simp add: back_off_def no_snapshot_def)
  show ?thesis
    using assms(4) same(1)
    by (cases reply) (auto simp: client_reply_def after_refusal_def Let_def snap
        intro: same step_down_local [OF _ assms(1)] split: if_splits)
qed

lemma commit_local:
  assumes "\<not> shutdownRequested n" "vote_persisted n" "int (length (log n)) < SNAPSHOT_THRESHOLD"
    and "commit_and_apply cid rid k n s = Answers (n', s') a"
  shows "local_step n n'"
proof -
  obtain m t q where m: "apply_loop True (n\<lparr>commitIndex := k\<rparr>) s [] = (m, t, q)" using prod_cases3 by blast
  obtain j where j: "m = n\<lparr>commitIndex := k, lastApplied := j\<rparr>" using apply_loop_fields [OF m] by auto
  have "n' = persistMetadata (m\<lparr>clientLastRequest := (clientLastRequest m)(cid \<mapsto> rid),
      clientResultCache := (clientResultCache m)(cid \<mapsto> q)\<rparr>)"
    using assms(3,4) m j by (auto simp: commit_and_apply_def)
  moreover have "local_step n (m\<lparr>clientLastRequest := (clientLastRequest m)(cid \<mapsto> rid),
      clientResultCache := (clientResultCache m)(cid \<mapsto> q)\<rparr>)"
    by (rule local_frame [OF assms(1,2)]) (simp_all add: j)
  ultimately show ?thesis using local_persist j by simp
qed

section \<open>Properties\<close>

lemma reachable_logs:
  assumes "protocol_run (new_cluster N, {}) tr (c, M)" "fair_wins tr"
  obtains G where "logs_ok tr (all_logs c G)"
    "\<And>j. j < length (nodes c) \<Longrightarrow> leads_ok tr (all_logs c G) j (nodes c ! j)"
    "\<And>j. j < length (nodes c) \<Longrightarrow> log (nodes c ! j) \<in> all_logs c G"
proof -
  obtain G where "all_ok c M tr G"
    using protocol_run_inv [OF assms(1) new_cluster_protocol assms(2)] by (auto simp: protocol_inv_def)
  then show thesis
    using that [of G] node_logs_in [of _ c G] by (auto simp: all_ok_def node_logs_def)
qed



text \<open>Node 0 wins term 1, appends a command and sends it to node 1, which takes it over.\<close>

lemma demo_protocol_run:
  "\<exists>tr c M. protocol_run (new_cluster 3, {}) tr (c, M) \<and> fair_wins tr \<and> length (nodes c) = 3 \<and>
    state (nodes c ! 0) = LEADER \<and> currentTerm (nodes c ! 0) = 1 \<and>
    log (nodes c ! 0) = [demo_entry 1 0 ''PUT a 1''] \<and> log (nodes c ! 1) = [demo_entry 1 0 ''PUT a 1''] \<and>
    disk_logs (nodes c ! 1) = {log (nodes c ! 1)} \<and> currentTerm (nodes c ! 1) = 1"
proof -
  obtain tr c where c: "ballot_run (new_cluster 3) tr c" "sees c 0 1 0 CANDIDATE" "sees c 1 1 0 FOLLOWER"
    "threads c 0 = Some (Election 1 [] 3 Idle)" "length (nodes c) = 3" "fair_wins tr"
    using run_all_votes by blast
  obtain c1 where c1: "ballot_run (new_cluster 3) (Won 0 1 1 # tr) c1" "sees c1 0 1 0 LEADER"
    "nodes c1 ! 1 = nodes c ! 1" "length (nodes c1) = 3"
    using run_finish [OF c(1,2,4)] c(5) by auto
  let ?l = "nodes c1 ! 0" and ?f = "nodes c1 ! 1" and ?e = "demo_entry 1 0 ''PUT a 1''"
  have l: "seen 0 1 0 LEADER ?l" and f: "seen 1 1 0 FOLLOWER ?f"
    using c1(2,3) c(3) by (simp_all add: sees_def)
  let ?m = "append_command ''PUT a 1'' ?l"
  let ?c2 = "set_node 0 ?m c1" and ?r = "heartbeat_message 0 ?m"
  have m: "log ?m = [?e]" "peerRpcPorts ?m = [5001, 5002]" "nextIndex ?m = [0, 0]" "latestSnapshot ?m = None"
    using l by (simp_all add: seen_def append_command_def getLogSize_def base_index_def demo_entry_def)
  have cut: "batch_at ?r [?e] 0 20" "ae_term ?r = 1"
    using plain_batch [OF m(4), of 0 0] plain_log(4) [OF m(4)] m l
    by (simp_all add: batch_at_def seen_def append_command_def)
  have r0: "protocol_run (new_cluster 3, {}) (Won 0 1 1 # tr) (c1, {})"
    by (rule ballot_run_protocol [OF c1(1)])
  have s1: "protocol_step (c1, {}) Silent (?c2, {})"
    by (rule protocol_step.Append [where cid = "''c''" and rid = 1])
      (use l c1(4) in \<open>simp_all add: seen_def client_guard_def\<close>)
  have s2: "protocol_step (?c2, {}) Silent (?c2, {(5001, ?r)})"
    using protocol_step.Send_Batch [of 0 ?c2 0 ?r 0 "{}"] m c1(4) l by (simp add: seen_def)
  obtain f' s' reply where h: "handle_AppendEntries 0 0 ?r ?f empty_store = (f', s', reply)"
    using prod_cases3 by blast
  have s3: "protocol_step (?c2, {(5001, ?r)}) Silent (set_node 1 f' ?c2, {(5001, ?r)})"
    using protocol_step.Receive_Batch [of 5001 ?r "{(5001, ?r)}" ?c2 0 0 empty_store f' s' reply]
      c1(4) h f cut by (simp add: seen_def batch_at_def SNAPSHOT_THRESHOLD_def)
  have norm: "ae_normal ?r ?f"
    using f cut by (simp add: ae_normal_def seen_def batch_at_def SNAPSHOT_THRESHOLD_def)
  have snap: "latestSnapshot (ae_received 0 0 ?r ?f) = None" "logs_match [?e] (log (ae_received 0 0 ?r ?f))"
    using f by (simp_all add: seen_def)
  have "consistency_check ?r ?f" using cut(1) by (simp add: consistency_check_def batch_at_def)
  then have "log f' = [?e]"
    using handle_AE_result(2) [OF norm h] batch_append [OF cut(1) snap] f
    by (simp add: ae_appended_def contiguous_def demo_entry_def seen_def)
  moreover have "disk_logs f' = {log f'}" "currentTerm f' = 1"
    using handler_saves [OF norm h] handle_AE_result(4) [OF norm h] f by (simp_all add: seen_def)
  moreover have "fair_wins (Silent # Silent # Silent # Won 0 1 1 # tr)"
    using c(6) by (auto simp: fair_wins_def)
  moreover have "protocol_run (new_cluster 3, {}) (Silent # Silent # Silent # Won 0 1 1 # tr)
      (set_node 1 f' ?c2, {(5001, ?r)})"
    using r0 s1 s2 s3 by (blast intro: protocol_run.Continues_With)
  ultimately show ?thesis
    using m(1) l c1(4) by (intro exI [of _ "Silent # Silent # Silent # Won 0 1 1 # tr"]
        exI [of _ "set_node 1 f' ?c2"] exI [of _ "{(5001, ?r)}"]) (simp add: seen_def)
qed



end
