(* ===== verification/Leader_Logs.thy ===== *)
theory Leader_Logs
  imports Cluster_Log "HOL-Library.Sublist"
begin

text \<open>
  Leader completeness: what a majority has saved in the term it was written in is in the log of
  every later leader, and stays saved.  The argument is Raft's: a winner was at least as up to date
  as each of its voters, one of which had saved the entries.  It needs the logs with which a
  candidate stood and a voter voted, which the invariant names.
\<close>

section \<open>Runs in which it is noted what nodes have saved\<close>

text \<open>
  \<open>(j, P)\<close> is noted when node \<open>j\<close>, in the term of the last entry of \<open>P\<close>, has \<open>P\<close> in its log and that
  log in its file.
\<close>

definition saves :: "RaftNode \<Rightarrow> logEntry list \<Rightarrow> bool" where
  "saves n P \<longleftrightarrow>
     P \<noteq> [] \<and> prefix P (log n) \<and> entry_term (last P) = currentTerm n \<and> disk_logs n = {log n}"

inductive saving_run ::
  "cluster \<times> (int \<times> AppendEntriesRPC) set \<Rightarrow> election_event list \<Rightarrow> (nat \<times> logEntry list) set \<Rightarrow>
   cluster \<times> (int \<times> AppendEntriesRPC) set \<Rightarrow> bool" where
  First: "saving_run q [] {} q"
| Step: "saving_run q tr S q' \<Longrightarrow> protocol_step q' e q'' \<Longrightarrow> saving_run q (e # tr) S q''"
| Note: "saving_run q tr S (c, M) \<Longrightarrow> j < length (nodes c) \<Longrightarrow> saves (nodes c ! j) P \<Longrightarrow>
    saving_run q tr (insert (j, P) S) (c, M)"

abbreviation last_term :: "logEntry list \<Rightarrow> int" where
  "last_term P \<equiv> entry_term (last P)"

section \<open>Logs written in one term\<close>

text \<open>
  \<open>R w t\<close> is the log with which \<open>w\<close> stood for \<open>t\<close>: a log of the leader \<open>w\<close> of \<open>t\<close> is that log and
  entries of \<open>t\<close> behind it.
\<close>

definition log_of :: "(nat \<Rightarrow> int \<Rightarrow> logEntry list) \<Rightarrow> nat \<Rightarrow> int \<Rightarrow> logEntry list \<Rightarrow> bool" where
  "log_of R w t xs \<longleftrightarrow> (\<exists>zs. xs = R w t @ zs \<and> (\<forall>e \<in> set zs. entry_term e = t))"

lemma log_of_self [simp]: "log_of R w t (R w t)"
  by (simp add: log_of_def)

lemma log_of_prefix: "log_of R w t xs \<Longrightarrow> prefix (R w t) xs"
  by (auto simp: log_of_def)

lemma log_of_cong: "R' w t = R w t \<Longrightarrow> log_of R' w t xs \<longleftrightarrow> log_of R w t xs"
  by (simp add: log_of_def)

lemma log_of_snoc: "log_of R w t xs \<Longrightarrow> entry_term e = t \<Longrightarrow> log_of R w t (xs @ [e])"
  by (fastforce simp: log_of_def)

lemma log_of_take:
  assumes "log_of R w t xs" "length (R w t) \<le> k"
  shows "log_of R w t (take k xs)"
proof -
  obtain zs where zs: "xs = R w t @ zs" "\<forall>e \<in> set zs. entry_term e = t"
    using assms(1) by (auto simp: log_of_def)
  have "take k xs = R w t @ take (k - length (R w t)) zs" using zs(1) assms(2) by simp
  then show ?thesis
    using zs(2) set_take_subset [of "k - length (R w t)" zs] unfolding log_of_def by blast
qed

lemma log_of_has_term:
  "log_of R w t xs \<Longrightarrow> length (R w t) \<le> p \<Longrightarrow> p < length xs \<Longrightarrow> has_term xs p t"
  by (auto simp: log_of_def has_term_def nth_append)

lemma log_of_terms:
  assumes "log_of R w t xs" "e \<in> set xs"
  shows "e \<in> set (R w t) \<or> entry_term e = t"
  using assms by (auto simp: log_of_def)

text \<open>Of two logs of one leader that match, the shorter is a prefix of the longer.\<close>

lemma log_of_comparable:
  assumes "log_of R w t xs" "log_of R w t ys" "logs_match xs ys" "length xs \<le> length ys"
  shows "prefix xs ys"
proof (cases "length (R w t) < length xs")
  case False
  then have "xs = R w t" using assms(1) by (auto simp: log_of_def)
  then show ?thesis using log_of_prefix [OF assms(2)] by simp
next
  case True
  define p where "p = length xs - 1"
  have p: "length xs = Suc p" using True by (simp add: p_def)
  then have "has_term xs p t" "has_term ys p t"
    using log_of_has_term [OF assms(1), of p] log_of_has_term [OF assms(2), of p] True assms(4) by auto
  then have "take (Suc p) xs = take (Suc p) ys"
    using assms(3) by (auto simp: logs_match_def has_term_def)
  then have "xs = take (Suc p) ys" using p by simp
  then show ?thesis by (metis take_is_prefix)
qed

section \<open>Logs of the cluster\<close>

text \<open>Up to each entry, a log is a log of the leader of the entry's term.\<close>

definition logs_led ::
  "(nat \<Rightarrow> int \<Rightarrow> logEntry list) \<Rightarrow> election_event list \<Rightarrow> logEntry list set \<Rightarrow> bool" where
  "logs_led R tr Ls \<longleftrightarrow>
     (\<forall>xs \<in> Ls. \<forall>p t. has_term xs p t \<longrightarrow>
        (\<exists>w. Won w t t \<in> set tr \<and> length (R w t) \<le> p \<and> log_of R w t (take (Suc p) xs)))"

text \<open>Who stood for a term had entries of older terms only.\<close>

definition stood_before :: "(nat \<Rightarrow> int \<Rightarrow> logEntry list) \<Rightarrow> election_event list \<Rightarrow> bool" where
  "stood_before R tr \<longleftrightarrow>
     (\<forall>i t. Began i t \<in> set tr \<longrightarrow> 0 < t \<and> (\<forall>e \<in> set (R i t). entry_term e < t)) \<and>
     (\<forall>i t t'. Won i t t' \<in> set tr \<longrightarrow> Began i t \<in> set tr)"

lemma has_term_last: "xs \<noteq> [] \<Longrightarrow> has_term xs (length xs - 1) (last_term xs)"
  by (simp add: has_term_def last_conv_nth)

lemma led_last:
  assumes "logs_led R tr Ls" "xs \<in> Ls" "xs \<noteq> []"
  obtains w where "Won w (last_term xs) (last_term xs) \<in> set tr"
    "length (R w (last_term xs)) < length xs" "log_of R w (last_term xs) xs"
  using assms has_term_last [OF assms(3)] unfolding logs_led_def
  by (metis Suc_pred' le_imp_less_Suc length_greater_0_conv order_refl take_all)

lemma led_terms_rise:
  assumes "logs_led R tr Ls" "stood_before R tr" "xs \<in> Ls" "has_term xs p t" "k \<le> p"
  shows "entry_term (xs ! k) \<le> t"
proof -
  obtain w where w: "Won w t t \<in> set tr" "length (R w t) \<le> p" "log_of R w t (take (Suc p) xs)"
    using assms(1,3,4) unfolding logs_led_def by blast
  have p: "p < length xs" using assms(4) by (simp add: has_term_def)
  show ?thesis
  proof (cases "k < length (R w t)")
    case True
    have pre: "prefix (R w t) (take (Suc p) xs)" using w(3) by (rule log_of_prefix)
    then have "R w t ! k = take (Suc p) xs ! k" using True by (auto simp: prefix_def nth_append)
    then have "xs ! k = R w t ! k" using assms(5) by simp
    moreover have "entry_term (R w t ! k) < t"
      using assms(2) w(1) nth_mem [OF True] unfolding stood_before_def by blast
    ultimately show ?thesis by simp
  next
    case False
    then have "has_term (take (Suc p) xs) k t"
      using log_of_has_term [OF w(3)] assms(5) p by simp
    then have "has_term xs k t" by simp
    then show ?thesis by (simp add: has_term_def)
  qed
qed

section \<open>Logs stay led\<close>

text \<open>The logs with which nodes stood are not forgotten.\<close>

definition agree ::
  "election_event list \<Rightarrow> (nat \<Rightarrow> int \<Rightarrow> logEntry list) \<Rightarrow> (nat \<Rightarrow> int \<Rightarrow> logEntry list) \<Rightarrow> bool" where
  "agree tr R R' \<longleftrightarrow> (\<forall>i t. Began i t \<in> set tr \<longrightarrow> R' i t = R i t)"

definition node_led ::
  "(nat \<Rightarrow> int \<Rightarrow> logEntry list) \<Rightarrow> election_event list \<Rightarrow> nat \<Rightarrow> RaftNode \<Rightarrow> bool" where
  "node_led R tr j n \<longleftrightarrow>
     0 \<le> currentTerm n \<and> (\<forall>xs \<in> node_logs n. \<forall>e \<in> set xs. entry_term e \<le> currentTerm n) \<and>
     (state n = LEADER \<longrightarrow> Began j (currentTerm n) \<in> set tr \<and> log_of R j (currentTerm n) (log n))"

definition batch_led ::
  "(nat \<Rightarrow> int \<Rightarrow> logEntry list) \<Rightarrow> election_event list \<Rightarrow> logEntry list set \<Rightarrow> AppendEntriesRPC \<Rightarrow> bool" where
  "batch_led R tr G r \<longleftrightarrow>
     (\<exists>xs \<in> G. \<exists>w. Won w (ae_term r) (ae_term r) \<in> set tr \<and> log_of R w (ae_term r) xs \<and>
        (\<exists>k m. batch_at r xs k m \<or> ae_entries r = []))"

definition led ::
  "(nat \<Rightarrow> int \<Rightarrow> logEntry list) \<Rightarrow> cluster \<Rightarrow> (int \<times> AppendEntriesRPC) set \<Rightarrow>
   election_event list \<Rightarrow> logEntry list set \<Rightarrow> bool" where
  "led R c M tr G \<longleftrightarrow>
     logs_led R tr (all_logs c G) \<and> stood_before R tr \<and>
     (\<forall>i t. Began i t \<in> set tr \<longrightarrow> R i t \<in> G) \<and>
     (\<forall>j < length (nodes c). node_led R tr j (nodes c ! j)) \<and> (\<forall>b \<in> M. batch_led R tr G (snd b))"

lemma agree_won: "agree tr R R' \<Longrightarrow> stood_before R tr \<Longrightarrow> Won w t u \<in> set tr \<Longrightarrow> R' w t = R w t"
  unfolding agree_def stood_before_def by blast

lemma logs_led_mono:
  assumes "logs_led R tr Ls" "agree tr R R'" "stood_before R tr"
  shows "logs_led R' (e # tr) Ls"
  unfolding logs_led_def
proof (intro ballI allI impI)
  fix xs p t assume "xs \<in> Ls" "has_term xs p t"
  then obtain w where "Won w t t \<in> set tr" "length (R w t) \<le> p" "log_of R w t (take (Suc p) xs)"
    using assms(1) unfolding logs_led_def by blast
  moreover from this have "R' w t = R w t" by (intro agree_won [OF assms(2,3)])
  ultimately show "\<exists>w. Won w t t \<in> set (e # tr) \<and> length (R' w t) \<le> p \<and> log_of R' w t (take (Suc p) xs)"
    using log_of_cong [of R' w t R] by (intro exI [of _ w]) simp
qed

lemma node_led_mono: "node_led R tr j n \<Longrightarrow> agree tr R R' \<Longrightarrow> node_led R' (e # tr) j n"
  using log_of_cong [of R' j "currentTerm n" R] by (simp add: node_led_def agree_def)

lemma batch_led_mono:
  assumes "batch_led R tr G r" "agree tr R R'" "stood_before R tr"
  shows "batch_led R' (e # tr) G r"
proof -
  obtain xs w where "xs \<in> G" "Won w (ae_term r) (ae_term r) \<in> set tr" "log_of R w (ae_term r) xs"
    "\<exists>k m. batch_at r xs k m \<or> ae_entries r = []"
    using assms(1) unfolding batch_led_def by blast
  moreover from this have "log_of R' w (ae_term r) xs"
    using agree_won [OF assms(2,3)] log_of_cong [of R' w "ae_term r" R] by blast
  ultimately show ?thesis unfolding batch_led_def by auto
qed

text \<open>A log taken from one that is led, or with an entry more of the leader, is led.\<close>

lemma logs_led_take: "logs_led R tr Ls \<Longrightarrow> xs \<in> Ls \<Longrightarrow> logs_led R tr (insert (take q xs) Ls)"
  unfolding logs_led_def by (fastforce simp: min_def)

lemma logs_led_snoc:
  assumes "logs_led R tr Ls" "xs \<in> Ls" "Won w t t \<in> set tr" "log_of R w t xs" "entry_term e = t"
  shows "logs_led R tr (insert (xs @ [e]) Ls)"
  unfolding logs_led_def
proof (intro ballI allI impI)
  fix ys p u assume ys: "ys \<in> insert (xs @ [e]) Ls" "has_term ys p u"
  show "\<exists>w. Won w u u \<in> set tr \<and> length (R w u) \<le> p \<and> log_of R w u (take (Suc p) ys)"
  proof (cases "ys \<in> Ls")
    case True
    then show ?thesis using assms(1) ys(2) unfolding logs_led_def by blast
  next
    case False
    then have eq: "ys = xs @ [e]" using ys(1) by simp
    then consider "has_term xs p u" | "p = length xs" "u = t" using ys(2) assms(5) by auto
    then show ?thesis
    proof cases
      case 1
      then have "take (Suc p) ys = take (Suc p) xs" by (simp add: eq has_term_def)
      then show ?thesis using assms(1,2) 1 unfolding logs_led_def by auto
    next
      case 2
      then show ?thesis
        using assms(3,4) log_of_snoc [OF assms(4,5)] prefix_length_le [OF log_of_prefix [OF assms(4)]]
        by (auto simp: eq)
    qed
  qed
qed

text \<open>
  What a step does to the logs of a node: they come from those it had; or a leader appends an entry;
  or a follower takes over part of a leader's log, at least what the two have in common.
\<close>

inductive log_step ::
  "(nat \<Rightarrow> int \<Rightarrow> logEntry list) \<Rightarrow> election_event list \<Rightarrow> logEntry list set \<Rightarrow> RaftNode \<Rightarrow> RaftNode \<Rightarrow> bool"
  for R tr G where
  Kept: "node_logs n' \<subseteq> node_logs n \<Longrightarrow> currentTerm n \<le> currentTerm n' \<Longrightarrow> log_step R tr G n n'"
| Appended: "Won w (currentTerm n) (currentTerm n) \<in> set tr \<Longrightarrow> log_of R w (currentTerm n) (log n) \<Longrightarrow>
    currentTerm n' = currentTerm n \<Longrightarrow> log n' = log n @ [e] \<Longrightarrow> entry_term e = currentTerm n \<Longrightarrow>
    node_logs n' \<subseteq> insert (log n') (node_logs n) \<Longrightarrow> log_step R tr G n n'"
| Copied: "Won w (currentTerm n) (currentTerm n) \<in> set tr \<Longrightarrow> log_of R w (currentTerm n) xs \<Longrightarrow> xs \<in> G \<Longrightarrow>
    currentTerm n' = currentTerm n \<Longrightarrow> log n' = take q xs \<Longrightarrow> common_len xs (log n) \<le> q \<Longrightarrow>
    common_len xs (log n) < length xs \<Longrightarrow>
    node_logs n' \<subseteq> insert (log n') (node_logs n) \<Longrightarrow> log_step R tr G n n'"

lemma log_in_node_logs [simp]: "log n \<in> node_logs n"
  by (simp add: node_logs_def)

lemma log_step_term: "log_step R tr G n n' \<Longrightarrow> currentTerm n \<le> currentTerm n'"
  by (erule log_step.cases) simp_all

lemma log_step_logs: "log_step R tr G n n' \<Longrightarrow> node_logs n' \<subseteq> insert (log n') (node_logs n)"
  by (erule log_step.cases) auto

lemma log_step_led:
  assumes "log_step R tr G n n'" "logs_led R tr Ls" "node_logs n \<subseteq> Ls" "G \<subseteq> Ls"
  shows "logs_led R tr (insert (log n') Ls)"
  using assms(1)
proof cases
  case Kept
  then have "log n' \<in> Ls" using assms(3) log_in_node_logs [of n'] by blast
  then show ?thesis using assms(2) by (simp add: insert_absorb)
next
  case (Appended w e)
  have "log n \<in> Ls" using assms(3) log_in_node_logs [of n] by blast
  then show ?thesis using logs_led_snoc [OF assms(2) _ Appended(1,2,5)] Appended(4) by simp
next
  case (Copied w xs q)
  then show ?thesis using logs_led_take [OF assms(2), of xs q] assms(4) by auto
qed

lemma log_step_terms:
  assumes "log_step R tr G n n'" "node_led R tr j n" "stood_before R tr"
    and "xs \<in> node_logs n'" "e \<in> set xs"
  shows "entry_term e \<le> currentTerm n'"
proof -
  have old: "entry_term x \<le> currentTerm n" if "zs \<in> node_logs n" "x \<in> set zs" for zs x
    using assms(2) that unfolding node_led_def by blast
  show ?thesis
    using assms(1)
  proof cases
    case Kept
    then show ?thesis using old assms(4,5) by fastforce
  next
    case (Appended w a)
    then have "xs = log n @ [a] \<or> xs \<in> node_logs n" using assms(4) by auto
    then show ?thesis using old [of "log n"] old [of xs] assms(5) Appended(3,5) by auto
  next
    case (Copied w zs q)
    then consider "xs \<in> node_logs n" | "e \<in> set zs" using assms(4,5) in_set_takeD by fastforce
    then show ?thesis
    proof cases
      case 1
      then show ?thesis using old assms(5) Copied by simp
    next
      case 2
      have "\<forall>e \<in> set (R w (currentTerm n)). entry_term e < currentTerm n"
        using assms(3) Copied(1) unfolding stood_before_def by blast
      then show ?thesis using log_of_terms [OF Copied(2) 2] Copied(4) by auto
    qed
  qed
qed

text \<open>One node moves on.\<close>

lemma led_move:
  assumes "led R c M tr G" "i < length (nodes c)" "nodes c' = (nodes c)[i := n]"
    and step: "log_step R tr G (nodes c ! i) n" and agree: "agree tr R R'"
    and leads: "state n = LEADER \<Longrightarrow>
      Began i (currentTerm n) \<in> set (e # tr) \<and> log_of R' i (currentTerm n) (log n)"
    and began: "\<And>j t. e = Began j t \<Longrightarrow>
      j = i \<and> t = currentTerm (nodes c ! i) + 1 \<and> R' i t = log (nodes c ! i) \<and> log (nodes c ! i) \<in> G"
    and won: "\<And>j t t'. e = Won j t t' \<Longrightarrow> Began j t \<in> set tr"
  shows "led R' c' M (e # tr) G"
proof -
  note L = assms(1) [unfolded led_def]
  have stood: "stood_before R tr" and logs: "logs_led R tr (all_logs c G)"
    and nodes: "\<And>j. j < length (nodes c) \<Longrightarrow> node_led R tr j (nodes c ! j)" using L by blast+
  have in_all: "node_logs (nodes c ! i) \<subseteq> all_logs c G" "G \<subseteq> all_logs c G"
    using node_logs_in [OF assms(2)] by (auto simp: all_logs_def)
  have sub: "all_logs c' G \<subseteq> insert (log n) (all_logs c G)"
    using all_logs_update [OF assms(3)] log_step_logs [OF step] in_all(1) by blast
  have "logs_led R tr (all_logs c' G)"
    using log_step_led [OF step logs in_all] sub unfolding logs_led_def by blast
  then have "logs_led R' (e # tr) (all_logs c' G)" by (rule logs_led_mono [OF _ agree stood])
  moreover have "stood_before R' (e # tr)"
  proof -
    have old: "0 < t \<and> (\<forall>x \<in> set (R' j t). entry_term x < t)" if "Began j t \<in> set tr" for j t
      using stood agree that unfolding stood_before_def agree_def by fastforce
    have new: "0 < t \<and> (\<forall>x \<in> set (R' j t). entry_term x < t)" if "e = Began j t" for j t
      using began [OF that] nodes [OF assms(2)] by (fastforce simp: node_led_def)
    show ?thesis
      using old new won stood unfolding stood_before_def by (metis set_ConsD list.set_intros(2))
  qed
  moreover have "R' j t \<in> G" if "Began j t \<in> set (e # tr)" for j t
    using that began [of j t] L agree by (fastforce simp: agree_def)
  moreover have "node_led R' (e # tr) j (nodes c' ! j)" if "j < length (nodes c')" for j
  proof (cases "j = i")
    case True
    have "0 \<le> currentTerm n"
      using nodes [OF assms(2)] log_step_term [OF step] by (simp add: node_led_def)
    then show ?thesis
      using log_step_terms [OF step nodes [OF assms(2)] stood] leads assms(2,3) True
      by (auto simp: node_led_def)
  next
    case False
    then show ?thesis using nodes [of j] node_led_mono [OF _ agree] that assms(3) by simp
  qed
  moreover have "batch_led R' (e # tr) G (snd b)" if "b \<in> M" for b
    using L that batch_led_mono [OF _ agree stood] by blast
  ultimately show ?thesis unfolding led_def by blast
qed

section \<open>Votes\<close>

text \<open>The position of a log's last entry, as the vote handler compares it.\<close>

definition last_pos :: "logEntry list \<Rightarrow> log_pos" where
  "last_pos xs = (if xs = [] then Log_Pos 0 (- 1) else Log_Pos (last_term xs) (int (length xs) - 1))"

definition request_pos :: "RequestVoteRPC \<Rightarrow> log_pos" where
  "request_pos r = Log_Pos (rv_lastLogTerm r) (rv_lastLogIndex r)"

lemma vote_request_pos:
  assumes "no_snapshot n"
  shows "request_pos (vote_request n) = last_pos (log n)" "rv_term (vote_request n) = currentTerm n"
proof -
  have "latestSnapshot n = None" using assms by (simp add: no_snapshot_def)
  then show "request_pos (vote_request n) = last_pos (log n)"
    by (auto simp: request_pos_def vote_request_def last_pos_def plain_log last_conv_nth nat_diff_distrib')
  show "rv_term (vote_request n) = currentTerm n" by (simp add: vote_request_def)
qed

lemma decide_vote_pos:
  assumes "decide_vote r n = (n', True)"
  shows "last_pos (log n) \<le> request_pos r"
proof -
  have "last_pos (log n) = Log_Pos (voter_last_term n) (voter_last_index n)"
    by (auto simp: last_pos_def voter_last_term_def voter_last_index_def last_conv_nth nat_diff_distrib')
  then show ?thesis
    using assms by (auto simp: decide_vote_def request_pos_def candidateUpToDate_order split: if_splits)
qed

lemma granted_pos:
  assumes "vote_granted r n" "\<not> shutdownRequested n"
  shows "last_pos (log n) \<le> request_pos r" "currentTerm n \<le> rv_term r"
proof -
  let ?n = "n\<lparr>metrics := (metrics n)\<lparr>requestVotesReceived := requestVotesReceived (metrics n) + 1\<rparr>\<rparr>"
  obtain k n' where k: "decide_vote r k = (n', True)" "log k = log n" "currentTerm n \<le> rv_term r"
  proof (cases "rv_term r = currentTerm n")
    case True
    obtain n' g where "decide_vote r ?n = (n', g)" by fastforce
    then show thesis using assms(1) True that [of ?n n']
      by (auto simp: vote_granted_def handle_RequestVote_def Let_def)
  next
    case False
    then obtain k where k: "becomeFollower (rv_term r) ?n = Some k" "currentTerm n < rv_term r"
      using assms(1) by (auto simp: vote_granted_def handle_RequestVote_def Let_def split: if_splits option.splits)
    obtain n' g where "decide_vote r k = (n', g)" by fastforce
    then show thesis using assms k that [of k n'] becomeFollower_live(5) [OF k(1)]
      by (auto simp: vote_granted_def handle_RequestVote_def Let_def)
  qed
  then show "last_pos (log n) \<le> request_pos r" "currentTerm n \<le> rv_term r"
    using decide_vote_pos [OF k(1)] by simp_all
qed

text \<open>The votes cast before their term was won.\<close>

fun early :: "election_event list \<Rightarrow> (nat \<times> int \<times> nat) set" where
  "early [] = {}"
| "early (e # tr) = early tr \<union> {(q, t, i). (q, t, i) \<in> grants [e] \<and> t \<notin> won_terms tr}"

lemma grants_Cons: "grants (e # tr) = grants [e] \<union> grants tr"
  by (auto simp: grants_def)

lemma won_terms_Cons: "t \<in> won_terms tr \<Longrightarrow> t \<in> won_terms (e # tr)"
  using won_terms_mono by blast

lemma early_grants: "early tr \<subseteq> grants tr"
proof (induction tr)
  case (Cons e tr)
  then show ?case using grants_Cons [of e tr] by auto
qed simp

lemma early_unless_won: "(q, t, i) \<in> grants tr \<Longrightarrow> t \<notin> won_terms tr \<Longrightarrow> (q, t, i) \<in> early tr"
proof (induction tr)
  case (Cons e tr)
  have "t \<notin> won_terms tr" using Cons.prems(2) won_terms_Cons by blast
  then show ?case using Cons.IH Cons.prems(1) grants_Cons [of e tr] by auto
qed simp

text \<open>
  A thread in \<open>start_election\<close>: the node's log, as long as its term is the one it stands for and
  nobody has won it, is the one it stood with, and so is the one its requests tell of.
\<close>

definition stands ::
  "(nat \<Rightarrow> int \<Rightarrow> logEntry list) \<Rightarrow> election_event list \<Rightarrow> nat \<Rightarrow> RaftNode \<Rightarrow> election_thread \<Rightarrow> bool" where
  "stands R tr i n th \<longleftrightarrow>
     Began i (stood_for th) \<in> set tr \<and> (\<forall>t. Began i t \<in> set tr \<longrightarrow> t \<le> stood_for th) \<and>
     stood_for th \<le> currentTerm n \<and>
     (stood_for th \<notin> won_terms tr \<and> currentTerm n = stood_for th \<longrightarrow> log n = R i (stood_for th)) \<and>
     (\<forall>p r. phase th = Requested p r \<longrightarrow> stood_for th \<le> rv_term r \<and> rv_term r \<le> currentTerm n \<and>
        (stood_for th \<notin> won_terms tr \<and> rv_term r = stood_for th \<longrightarrow>
           request_pos r = last_pos (R i (stood_for th))))"

lemma stands_mono:
  assumes "stands R tr i n th" "agree tr R R'" "\<And>u. e \<noteq> Began i u" "currentTerm n \<le> currentTerm n'"
    and "currentTerm n' = currentTerm n \<Longrightarrow> log n' = log n \<or> currentTerm n \<in> won_terms tr"
  shows "stands R' (e # tr) i n' th"
proof -
  have "R' i (stood_for th) = R i (stood_for th)" using assms(1,2) by (simp add: stands_def agree_def)
  moreover have "s \<notin> won_terms tr" if "s \<notin> won_terms (e # tr)" for s using that won_terms_Cons by blast
  moreover have "Began i u \<in> set (e # tr) \<longleftrightarrow> Began i u \<in> set tr" for u using assms(3) by auto
  ultimately show ?thesis using assms(1,4,5) unfolding stands_def by (auto 0 4)
qed

lemma stands_phase:
  "stands R tr i n th \<Longrightarrow> stood_for th' = stood_for th \<Longrightarrow> (\<And>p r. phase th' \<noteq> Requested p r) \<Longrightarrow>
    stands R tr i n th'"
  by (simp add: stands_def)

lemma stands_send:
  "stands R tr i n (Election t (p # ps) v Idle) \<Longrightarrow> no_snapshot n \<Longrightarrow>
    stands R tr i n (Election t ps v (Requested p (vote_request n)))"
  by (simp add: stands_def vote_request_pos)

lemma stands_begin:
  assumes "begin_election (nodes c ! i) = Goes_On n" "R i (currentTerm n) = log n"
    and "\<And>t. Began i t \<in> set tr \<Longrightarrow> t \<le> currentTerm (nodes c ! i)"
  shows "stands R (Began i (currentTerm n) # tr) i n (Election (currentTerm n) ps v Idle)"
proof -
  have "currentTerm n = currentTerm (nodes c ! i) + 1"
    using assms(1) by (auto simp: begin_election_def split: if_splits)
  then show ?thesis using assms(2,3) by (fastforce simp: stands_def)
qed

definition voted ::
  "(nat \<Rightarrow> int \<Rightarrow> logEntry list) \<Rightarrow> (nat \<Rightarrow> int \<Rightarrow> logEntry list) \<Rightarrow> nat \<Rightarrow> cluster \<Rightarrow>
   election_event list \<Rightarrow> logEntry list set \<Rightarrow> bool" where
  "voted R Y N c tr G \<longleftrightarrow>
     (\<forall>q t i. (q, t, i) \<in> early tr \<longrightarrow> Y q t \<in> G \<and> i < N \<and> t \<le> currentTerm (nodes c ! i) \<and>
        (Began i t \<in> set tr \<longrightarrow> last_pos (Y q t) \<le> last_pos (R i t))) \<and>
     (\<forall>i th. threads c i = Some th \<longrightarrow> i < N \<and> stands R tr i (nodes c ! i) th) \<and>
     (\<forall>i t. Won i t t \<in> set tr \<longrightarrow> (\<exists>Q. majority N Q \<and> Q \<times> {(t, i)} \<subseteq> early tr))"

text \<open>How the logs that stand for an election change with a vote: they are the voter's log of the time.\<close>

definition ghost_step ::
  "(nat \<Rightarrow> int \<Rightarrow> logEntry list) \<Rightarrow> (nat \<Rightarrow> int \<Rightarrow> logEntry list) \<Rightarrow>
   (nat \<Rightarrow> int \<Rightarrow> logEntry list) \<Rightarrow> (nat \<Rightarrow> int \<Rightarrow> logEntry list) \<Rightarrow>
   cluster \<Rightarrow> election_event list \<Rightarrow> election_event \<Rightarrow> bool" where
  "ghost_step R Y R' Y' c tr e \<longleftrightarrow>
     agree tr R R' \<and>
     (\<forall>q u k. (q, u, k) \<in> grants [e] \<and> u \<notin> won_terms tr \<longrightarrow>
        q < length (nodes c) \<and> k < length (nodes c) \<and> Y' q u = log (nodes c ! q) \<and>
        currentTerm (nodes c ! q) \<le> u) \<and>
     (\<forall>q u k. (q, u, k) \<in> early tr \<and> Y' q u \<noteq> Y q u \<longrightarrow> (q, u, k) \<in> grants [e] \<and> u \<notin> won_terms tr)"

lemma ghost_same [simp]: "grants [e] = {} \<Longrightarrow> ghost_step R Y R Y c tr e"
  by (simp add: ghost_step_def agree_def)

lemma early_split:
  assumes "ghost_step R Y R' Y' c tr e" "(q, u, k) \<in> early (e # tr)"
  shows "(q, u, k) \<in> grants [e] \<and> u \<notin> won_terms tr \<or> (q, u, k) \<in> early tr \<and> Y' q u = Y q u"
proof -
  have "(q, u, k) \<in> early tr \<or> (q, u, k) \<in> grants [e] \<and> u \<notin> won_terms tr" using assms(2) by auto
  moreover have "(q, u, k) \<in> grants [e] \<and> u \<notin> won_terms tr" if "(q, u, k) \<in> early tr" "Y' q u \<noteq> Y q u"
    using assms(1) that unfolding ghost_step_def by blast
  ultimately show ?thesis by blast
qed

text \<open>One node moves on, and one thread is replaced.\<close>

lemma voted_move:
  assumes "voted R Y N c tr G" "length (nodes c) = N" "i < N" "nodes c' = (nodes c)[i := n]"
    and ghosts: "ghost_step R Y R' Y' c tr e" and logs: "log ` set (nodes c) \<subseteq> G"
    and up: "currentTerm (nodes c ! i) \<le> currentTerm n"
    and log: "currentTerm n = currentTerm (nodes c ! i) \<Longrightarrow> threads c' i \<noteq> None \<Longrightarrow>
      log n = log (nodes c ! i) \<or> currentTerm n \<in> won_terms tr"
    and thread: "threads c' = (threads c)(m := t)"
    and new: "\<And>th. t = Some th \<Longrightarrow> m < N \<and> stands R' (e # tr) m (nodes c' ! m) th"
    and began: "\<And>j u. e = Began j u \<Longrightarrow> j = m \<and> currentTerm (nodes c ! j) < u"
    and vote: "\<And>q u k. (q, u, k) \<in> grants [e] \<Longrightarrow> u \<notin> won_terms tr \<Longrightarrow>
      u \<le> currentTerm (nodes c' ! k) \<and>
      (Began k u \<in> set (e # tr) \<longrightarrow> last_pos (log (nodes c ! q)) \<le> last_pos (R' k u))"
    and won: "\<And>w u. e = Won w u u \<Longrightarrow> \<exists>Q. majority N Q \<and> Q \<times> {(u, w)} \<subseteq> early tr"
  shows "voted R' Y' N c' (e # tr) G"
proof -
  note V = assms(1) [unfolded voted_def]
  have agree: "agree tr R R'" using ghosts by (simp add: ghost_step_def)
  have rise: "currentTerm (nodes c ! j) \<le> currentTerm (nodes c' ! j)" if "j < N" for j
    using that assms(2,4) up by (cases "j = i") auto
  have "Y' q u \<in> G \<and> k < N \<and> u \<le> currentTerm (nodes c' ! k) \<and>
      (Began k u \<in> set (e # tr) \<longrightarrow> last_pos (Y' q u) \<le> last_pos (R' k u))"
    if mem: "(q, u, k) \<in> early (e # tr)" for q u k
    using early_split [OF ghosts mem]
  proof (elim disjE conjE)
    assume g: "(q, u, k) \<in> grants [e]" "u \<notin> won_terms tr"
    then have y: "q < N" "k < N" "Y' q u = log (nodes c ! q)"
      using ghosts assms(2) unfolding ghost_step_def by blast+
    then have "log (nodes c ! q) \<in> G" using logs assms(2) by (auto simp: image_subset_iff)
    then show ?thesis using y vote [OF g] by simp
  next
    assume o: "(q, u, k) \<in> early tr" "Y' q u = Y q u"
    then have old: "Y q u \<in> G" "k < N" "u \<le> currentTerm (nodes c ! k)"
      "Began k u \<in> set tr \<Longrightarrow> last_pos (Y q u) \<le> last_pos (R k u)" using V by blast+
    then have "e \<noteq> Began k u" using began [of k u] by auto
    then show ?thesis
      using o(2) old rise [OF old(2)] agree by (auto simp: agree_def)
  qed
  moreover have "j < N \<and> stands R' (e # tr) j (nodes c' ! j) th" if "threads c' j = Some th" for j th
  proof (cases "j = m")
    case True
    then show ?thesis using new that thread by simp
  next
    case False
    then have "j < N" "stands R tr j (nodes c ! j) th" using V that thread by auto
    moreover have "e \<noteq> Began j u" for u using began [of j u] False by auto
    ultimately show ?thesis
      using stands_mono [OF _ agree, of j "nodes c ! j" th e "nodes c' ! j"] rise [of j] log that assms(2-4)
      by (cases "j = i") auto
  qed
  moreover have "\<exists>Q. majority N Q \<and> Q \<times> {(u, w)} \<subseteq> early (e # tr)" if "Won w u u \<in> set (e # tr)" for w u
    using that won [of w u] V by (fastforce simp: subset_iff)
  ultimately show ?thesis unfolding voted_def by blast
qed

section \<open>What was saved\<close>

text \<open>Those who won a term between that of \<open>P\<close> and \<open>U\<close> stood with \<open>P\<close>.\<close>

definition winners_have ::
  "(nat \<Rightarrow> int \<Rightarrow> logEntry list) \<Rightarrow> election_event list \<Rightarrow> logEntry list \<Rightarrow> int \<Rightarrow> bool" where
  "winners_have R tr P U \<longleftrightarrow>
     (\<forall>w t. Won w t t \<in> set tr \<longrightarrow> last_term P < t \<longrightarrow> t < U \<longrightarrow> prefix P (R w t))"

lemma winners_have_less: "winners_have R tr P U \<Longrightarrow> U' \<le> U \<Longrightarrow> winners_have R tr P U'"
  by (auto simp: winners_have_def)

lemma winners_have_past:
  assumes "winners_have R' (e # tr) P U" "agree tr R R'" "stood_before R tr"
  shows "winners_have R tr P U"
  unfolding winners_have_def
proof (intro allI impI)
  fix w t assume w: "Won w t t \<in> set tr" "last_term P < t" "t < U"
  then have "prefix P (R' w t)" using assms(1) by (simp add: winners_have_def)
  then show "prefix P (R w t)" using agree_won [OF assms(2,3) w(1)] by simp
qed

text \<open>What a node has once saved it keeps, and has when it votes, as long as winners have it.\<close>

definition kept ::
  "(nat \<Rightarrow> int \<Rightarrow> logEntry list) \<Rightarrow> (nat \<Rightarrow> int \<Rightarrow> logEntry list) \<Rightarrow> cluster \<Rightarrow>
   election_event list \<Rightarrow> (nat \<times> logEntry list) set \<Rightarrow> logEntry list set \<Rightarrow> bool" where
  "kept R Y c tr S G \<longleftrightarrow>
     (\<forall>q P. (q, P) \<in> S \<longrightarrow>
        q < length (nodes c) \<and> P \<noteq> [] \<and> (\<exists>xs \<in> G. prefix P xs) \<and>
        last_term P \<le> currentTerm (nodes c ! q) \<and>
        (winners_have R tr P (currentTerm (nodes c ! q) + 1) \<longrightarrow>
           (\<forall>xs \<in> node_logs (nodes c ! q). prefix P xs)) \<and>
        (\<forall>t i. (q, t, i) \<in> early tr \<longrightarrow> last_term P < t \<longrightarrow> winners_have R tr P t \<longrightarrow> prefix P (Y q t)))"

lemma prefix_common:
  assumes "prefix P xs" "prefix P ys"
  shows "length P \<le> common_len xs ys"
proof -
  have "take (length P) xs = take (length P) ys" using assms by (auto simp: prefix_def)
  then show ?thesis using common_len_ge assms prefix_length_le by blast
qed

lemma prefix_take: "prefix P xs \<Longrightarrow> length P \<le> q \<Longrightarrow> prefix P (take q xs)"
  by (auto simp: prefix_def)

text \<open>A prefix of a led log is led itself.\<close>

lemma led_prefix:
  assumes "logs_led R tr Ls" "xs \<in> Ls" "prefix P xs" "P \<noteq> []"
  obtains w where "Won w (last_term P) (last_term P) \<in> set tr" "log_of R w (last_term P) P"
    "length (R w (last_term P)) < length P"
proof -
  have "P = take (length P) xs" using assms(3) by (auto simp: prefix_def)
  then have "logs_led R tr (insert P Ls)" using logs_led_take [OF assms(1,2)] by metis
  then show thesis using led_last [of R tr "insert P Ls" P] assms(4) that by blast
qed

text \<open>A leader's log and what was saved: one is a prefix of the other.\<close>

lemma saved_or_behind:
  assumes inv: "election_inv N c tr" and led: "logs_led R tr Ls" "zs \<in> Ls" "prefix P zs" "P \<noteq> []"
    and match: "logs_match zs xs" and w: "Won w t t \<in> set tr" "log_of R w t xs"
    and t: "last_term P \<le> t" and winners: "winners_have R tr P (t + 1)"
  shows "prefix P xs \<or> prefix xs P"
proof (cases "last_term P = t")
  case True
  obtain v where v: "Won v t t \<in> set tr" "log_of R v t P"
    using led_prefix [OF led] True by metis
  then have "log_of R w t P" using winner_unique [OF inv w(1) v(1)] by simp
  moreover have "P = take (length P) zs" using led(3) by (auto simp: prefix_def)
  then have "logs_match P xs" using logs_match_take [OF match] by metis
  ultimately show ?thesis
    using log_of_comparable [of R w t P xs] log_of_comparable [of R w t xs P] w(2) logs_match_sym [of P xs]
    by (meson nat_le_linear)
next
  case False
  then have "prefix P (R w t)" using winners w(1) t by (simp add: winners_have_def)
  then show ?thesis using log_of_prefix [OF w(2)] prefix_order.trans by blast
qed

lemma log_step_keeps:
  assumes step: "log_step R tr G n n'" and inv: "election_inv N c tr"
    and led: "logs_led R tr G" "zs \<in> G" "prefix P zs" "P \<noteq> []"
    and match: "\<And>xs. xs \<in> G \<Longrightarrow> logs_match zs xs"
    and winners: "winners_have R tr P (currentTerm n' + 1)" and t: "last_term P \<le> currentTerm n"
    and old: "\<And>xs. xs \<in> node_logs n \<Longrightarrow> prefix P xs" and xs: "xs \<in> node_logs n'"
  shows "prefix P xs"
proof -
  have mine: "prefix P (log n)" using old by simp
  from step show ?thesis
  proof cases
    case Kept
    then show ?thesis using old xs by blast
  next
    case (Appended w e)
    then show ?thesis using old xs mine by auto
  next
    case (Copied w ys q)
    have "prefix P ys \<or> prefix ys P"
      by (rule saved_or_behind [OF inv led match [OF Copied(3)] Copied(1,2) t]) (use winners Copied(4) in simp)
    moreover have "\<not> prefix ys P"
      using prefix_common [of ys ys "log n"] mine Copied(7) prefix_order.trans [of ys P "log n"] by auto
    ultimately have "prefix P ys" by blast
    then have "prefix P (take q ys)"
      using prefix_take prefix_common mine Copied(6) by (meson order_trans)
    then show ?thesis using Copied(5,8) xs old by auto
  qed
qed

text \<open>One node moves on: it keeps what it saved, and what it has when it votes is what it kept.\<close>

lemma kept_logs:
  assumes K: "kept R Y c tr S G" "(q, P) \<in> S" and inv: "election_inv N c tr" "all_ok c M tr G"
    and led: "logs_led R tr (all_logs c G)"
    and i: "i < length (nodes c)" "nodes c' = (nodes c)[i := n]" and step: "log_step R tr G (nodes c ! i) n"
    and w: "winners_have R tr P (currentTerm (nodes c' ! q) + 1)" and xs: "xs \<in> node_logs (nodes c' ! q)"
  shows "prefix P xs"
proof -
  have k: "q < length (nodes c)" "P \<noteq> []" "\<exists>xs \<in> G. prefix P xs" "last_term P \<le> currentTerm (nodes c ! q)"
    "winners_have R tr P (currentTerm (nodes c ! q) + 1) \<Longrightarrow> \<forall>xs \<in> node_logs (nodes c ! q). prefix P xs"
    using K unfolding kept_def by blast+
  have "currentTerm (nodes c ! q) \<le> currentTerm (nodes c' ! q)"
    using k(1) i log_step_term [OF step] by (cases "q = i") auto
  then have old: "prefix P ys" if "ys \<in> node_logs (nodes c ! q)" for ys
    using k(5) winners_have_less [OF w] that by auto
  show ?thesis
  proof (cases "q = i")
    case True
    obtain zs where zs: "zs \<in> G" "prefix P zs" using k(3) by blast
    have "logs_match zs ys" if "ys \<in> G" for ys
      using inv(2) zs(1) that by (auto simp: all_ok_def logs_ok_def all_logs_def)
    moreover have "logs_led R tr G" using led by (auto simp: logs_led_def all_logs_def)
    moreover have "nodes c' ! q = n" "nodes c ! q = nodes c ! i" using True i by simp_all
    ultimately show ?thesis
      using log_step_keeps [OF step inv(1) _ zs k(2)] k(4) old xs w by (metis (full_types))
  next
    case False
    then show ?thesis using old xs i(2) by simp
  qed
qed

lemma kept_votes:
  assumes K: "kept R Y c tr S G" "(q, P) \<in> S" and ghosts: "ghost_step R Y R' Y' c tr e"
    and v: "(q, t, k) \<in> early (e # tr)" and t: "last_term P < t" and w: "winners_have R tr P t"
  shows "prefix P (Y' q t)"
  using early_split [OF ghosts v]
proof (elim disjE conjE)
  assume g: "(q, t, k) \<in> grants [e]" "t \<notin> won_terms tr"
  then have y: "Y' q t = log (nodes c ! q)" "currentTerm (nodes c ! q) \<le> t"
    using ghosts unfolding ghost_step_def by blast+
  have "u \<noteq> t" if "Won v u u \<in> set tr" for v u using that g(2) by (auto simp: won_terms_def)
  then have "winners_have R tr P (t + 1)"
    using w unfolding winners_have_def zless_add1_eq by metis
  then have "winners_have R tr P (currentTerm (nodes c ! q) + 1)"
    by (rule winners_have_less) (use y(2) in simp)
  then have "\<forall>xs \<in> node_logs (nodes c ! q). prefix P xs" using K unfolding kept_def by blast
  then show ?thesis using y(1) by simp
next
  assume o: "(q, t, k) \<in> early tr" "Y' q t = Y q t"
  then have "prefix P (Y q t)" using K t w unfolding kept_def by blast
  then show ?thesis using o(2) by simp
qed

lemma kept_move:
  assumes K: "kept R Y c tr S G" and inv: "election_inv N c tr" "led R c M tr G" "all_ok c M tr G"
    and i: "i < length (nodes c)" "nodes c' = (nodes c)[i := n]"
    and step: "log_step R tr G (nodes c ! i) n" and ghosts: "ghost_step R Y R' Y' c tr e"
  shows "kept R' Y' c' (e # tr) S G"
  unfolding kept_def
proof (intro allI impI conjI ballI)
  fix q P assume S: "(q, P) \<in> S"
  have k: "q < length (nodes c)" "P \<noteq> []" "\<exists>xs \<in> G. prefix P xs"
    "last_term P \<le> currentTerm (nodes c ! q)"
    using mp [OF spec [OF spec [OF K [unfolded kept_def]]] S] by - (elim conjE, assumption)+
  have logs: "logs_led R tr (all_logs c G)" and stood: "stood_before R tr"
    using inv(2) [unfolded led_def] by - (elim conjE, assumption)+
  have agree: "agree tr R R'" using ghosts [unfolded ghost_step_def] by (elim conjE)
  note past = winners_have_past [OF _ agree stood]
  have "currentTerm (nodes c ! q) \<le> currentTerm (nodes c' ! q)"
    using k(1) i log_step_term [OF step] by (cases "q = i") auto
  then show "last_term P \<le> currentTerm (nodes c' ! q)" using k(4) by simp
  show "q < length (nodes c')" "P \<noteq> []" "\<exists>xs \<in> G. prefix P xs" using k i by simp_all
  show "prefix P xs" if "winners_have R' (e # tr) P (currentTerm (nodes c' ! q) + 1)"
    "xs \<in> node_logs (nodes c' ! q)" for xs
    by (rule kept_logs [OF K S inv(1,3) logs i step past [OF that(1)] that(2)])
  show "prefix P (Y' q t)" if "(q, t, k) \<in> early (e # tr)" "last_term P < t" "winners_have R' (e # tr) P t" for t k
    by (rule kept_votes [OF K S ghosts that(1,2) past [OF that(3)]])
qed

section \<open>Every step keeps track\<close>

definition tracked ::
  "(nat \<Rightarrow> int \<Rightarrow> logEntry list) \<Rightarrow> (nat \<Rightarrow> int \<Rightarrow> logEntry list) \<Rightarrow> nat \<Rightarrow> cluster \<Rightarrow>
   (int \<times> AppendEntriesRPC) set \<Rightarrow> election_event list \<Rightarrow> (nat \<times> logEntry list) set \<Rightarrow>
   logEntry list set \<Rightarrow> bool" where
  "tracked R Y N c M tr S G \<longleftrightarrow> led R c M tr G \<and> voted R Y N c tr G \<and> kept R Y c tr S G"

definition track ::
  "(nat \<Rightarrow> int \<Rightarrow> logEntry list) \<Rightarrow> (nat \<Rightarrow> int \<Rightarrow> logEntry list) \<Rightarrow> nat \<Rightarrow> cluster \<Rightarrow>
   (int \<times> AppendEntriesRPC) set \<Rightarrow> election_event list \<Rightarrow> (nat \<times> logEntry list) set \<Rightarrow>
   logEntry list set \<Rightarrow> bool" where
  "track R Y N c M tr S G \<longleftrightarrow>
     election_inv N c tr \<and> all_ok c M tr G \<and> log ` set (nodes c) \<subseteq> G \<and> tracked R Y N c M tr S G"

lemma track_parts:
  assumes "track R Y N c M tr S G"
  shows "election_inv N c tr" "all_ok c M tr G" "log ` set (nodes c) \<subseteq> G" "led R c M tr G"
    "voted R Y N c tr G" "kept R Y c tr S G" "length (nodes c) = N"
    "i < N \<Longrightarrow> node_led R tr i (nodes c ! i)" "i < N \<Longrightarrow> no_snapshot (nodes c ! i)"
    "threads c i = Some th \<Longrightarrow> i < N \<and> stands R tr i (nodes c ! i) th"
    "i < N \<Longrightarrow> \<not> shutdownRequested (nodes c ! i)" "i < N \<Longrightarrow> vote_persisted (nodes c ! i)"
    "i < N \<Longrightarrow> log (nodes c ! i) \<in> G"
  using assms election_inv_parts(1,2) [of N c tr]
  by (auto simp: track_def tracked_def led_def voted_def all_ok_def node_ok_def image_subset_iff)

text \<open>The term of a node is at least every term it has stood for.\<close>

lemma track_began:
  assumes "track R Y N c M tr S G" "Began i t \<in> set tr"
  shows "i < N" "t \<le> currentTerm (nodes c ! i)"
proof -
  have g: "(i, t, i) \<in> grants tr" using assms(2) by (simp add: grants_def)
  show "i < N" using election_inv_parts(4) [OF track_parts(1) [OF assms(1)]] g by blast
  then have "backs (grants tr) i (nodes c ! i)"
    using track_parts(1) [OF assms(1)] unfolding election_inv_def by blast
  then show "t \<le> currentTerm (nodes c ! i)" using g unfolding backs_def by blast
qed

text \<open>A step that casts no vote: a thread is dropped, kept or replaced, a node moves.\<close>

lemma track_quiet:
  assumes T: "track R Y N c M tr S G" and "i < N" "nodes c' = (nodes c)[i := n]"
    and step: "log_step R tr G (nodes c ! i) n"
    and log: "currentTerm n = currentTerm (nodes c ! i) \<Longrightarrow> threads c' i \<noteq> None \<Longrightarrow>
      log n = log (nodes c ! i) \<or> currentTerm n \<in> won_terms tr"
    and thread: "threads c' = (threads c)(m := t)"
    and new: "\<And>th. t = Some th \<Longrightarrow> m < N \<and> stands R (e # tr) m (nodes c' ! m) th"
    and leads: "state n = LEADER \<Longrightarrow> Began i (currentTerm n) \<in> set tr \<and> log_of R i (currentTerm n) (log n)"
    and quiet: "grants [e] = {}" and won: "\<And>w u u'. e = Won w u u' \<Longrightarrow> Began w u \<in> set tr"
      "\<And>w u. e = Won w u u \<Longrightarrow> \<exists>Q. majority N Q \<and> Q \<times> {(u, w)} \<subseteq> early tr"
  shows "tracked R Y N c' M (e # tr) S G"
proof -
  note P = track_parts [OF T]
  have i: "i < length (nodes c)" using assms(2) P(7) by simp
  have noone: "e \<noteq> Began j u" for j u using quiet by auto
  have same: "agree tr R R" by (simp add: agree_def)
  have "led R c' M (e # tr) G"
    by (rule led_move [OF P(4) i assms(3) step same]) (use leads noone won in auto)
  moreover have "voted R Y N c' (e # tr) G"
    by (rule voted_move [OF P(5,7) assms(2,3) ghost_same [OF quiet] P(3) log_step_term [OF step] log thread new])
      (use noone quiet won in auto)
  moreover have "kept R Y c' (e # tr) S G"
    by (rule kept_move [OF P(6,1,4,2) i assms(3) step ghost_same [OF quiet]])
  ultimately show ?thesis by (simp add: tracked_def)
qed

section \<open>Elections\<close>

lemma vote_handler_log:
  assumes "handle_RequestVote r n = (n', resp)" "\<not> shutdownRequested n"
  shows "log n' = log n"
proof -
  let ?n = "n\<lparr>metrics := (metrics n)\<lparr>requestVotesReceived := requestVotesReceived (metrics n) + 1\<rparr>\<rparr>"
  consider "n' = ?n" | k g where "becomeFollower (rv_term r) ?n = Some k" "decide_vote r k = (n', g)"
    | g where "decide_vote r ?n = (n', g)"
    using assms(1)
    by (auto simp: handle_RequestVote_def Let_def split: if_splits option.splits prod.splits)
  then show ?thesis
  proof cases
    case 2
    then show ?thesis using becomeFollower_live(5) [OF 2(1)] decide_vote_frame(3) [OF 2(2)] assms(2) by simp
  qed (auto dest: decide_vote_frame(3))
qed

lemma receive_vote_log:
  "receive_vote reply (n, v) = Goes_On (n', v') \<Longrightarrow> log n' = log n"
  by (auto simp: receive_vote_def Let_def split: if_splits rpc_reply.splits)

lemma leader_keeps:
  assumes "node_led R tr i n" "log_moves False n n'" "state n' = LEADER"
  shows "Began i (currentTerm n') \<in> set tr \<and> log_of R i (currentTerm n') (log n')"
  using assms by (simp add: node_led_def log_moves_def)

text \<open>A node moves without leading anew, and the thread of a node goes on.\<close>

lemma track_moved:
  assumes T: "track R Y N c M tr S G" and i: "i < N" "nodes c' = (nodes c)[i := n]"
    and moves: "log_moves False (nodes c ! i) n" and up: "currentTerm (nodes c ! i) \<le> currentTerm n"
    and log: "log n = log (nodes c ! i) \<or> threads c' i = None"
    and thread: "threads c' = (threads c)(m := t)"
    and new: "\<And>th. t = Some th \<Longrightarrow> m < N \<and> stands R (Silent # tr) m (nodes c' ! m) th"
  shows "tracked R Y N c' M (Silent # tr) S G"
proof (rule track_quiet [OF T i _ _ thread new])
  show "log_step R tr G (nodes c ! i) n"
    using moves up by (intro log_step.Kept) (simp_all add: log_moves_def)
  show "state n = LEADER \<Longrightarrow> Began i (currentTerm n) \<in> set tr \<and> log_of R i (currentTerm n) (log n)"
    by (rule leader_keeps [OF track_parts(8) [OF T i(1)] moves])
  show "log n = log (nodes c ! i) \<or> currentTerm n \<in> won_terms tr" if "threads c' i \<noteq> None"
    using log that by simp
qed simp_all

lemma track_thread:
  assumes T: "track R Y N c M tr S G" and th: "threads c m = Some th"
    and "stood_for th' = stood_for th" "\<And>p r. phase th' \<noteq> Requested p r" "\<And>u. e \<noteq> Began m u"
    and "currentTerm (nodes c ! m) \<le> currentTerm n" "log n = log (nodes c ! m)"
  shows "m < N \<and> stands R (e # tr) m n th'"
proof -
  have s: "m < N" "stands R tr m (nodes c ! m) th" using track_parts(10) [OF T th] by blast+
  have "stands R (e # tr) m n th"
    by (rule stands_mono [OF s(2)]) (use assms(5-7) in \<open>auto simp: agree_def\<close>)
  then show ?thesis using s(1) stands_phase assms(3,4) by blast
qed

lemma track_begin:
  assumes T: "track R Y N c M tr S G" and i: "i < N" and b: "begin_election (nodes c ! i) = Goes_On n"
    and c': "nodes c' = (nodes c)[i := n]"
      "threads c' = (threads c)(i \<mapsto> Election (currentTerm n) ps v Idle)"
  shows "\<exists>R Y. tracked R Y N c' M (Began i (currentTerm n) # tr) S G"
proof -
  let ?n = "nodes c ! i" and ?e = "Began i (currentTerm n)"
  note P = track_parts [OF T]
  have n: "currentTerm n = currentTerm ?n + 1" "log n = log ?n" "state n \<noteq> LEADER"
    using b by (auto simp: begin_election_def split: if_splits)
  have up: "currentTerm ?n \<le> currentTerm n" using n(1) by simp
  have len: "i < length (nodes c)" using i P(7) by simp
  define R' where "R' = R(i := (R i)(currentTerm n := log ?n))"
  define Y' where "Y' = Y(i := (Y i)(currentTerm n := log ?n))"
  have old: "t \<le> currentTerm ?n" if "Began i t \<in> set tr" for t using track_began(2) [OF T that] .
  have agree: "agree tr R R'" using old n(1) by (fastforce simp: agree_def R'_def)
  have fresh: "currentTerm n \<noteq> u" if "(i, u, k) \<in> early tr" for u k
  proof -
    have "(i, u, k) \<in> grants tr" using that early_grants by blast
    moreover have "backs (grants tr) i ?n" using P(1) i unfolding election_inv_def by blast
    ultimately show ?thesis using n(1) by (fastforce simp: backs_def)
  qed
  have ghosts: "ghost_step R Y R' Y' c tr ?e"
    using agree len n(1) fresh by (auto simp: ghost_step_def Y'_def fun_upd_apply split: if_splits)
  have step: "log_step R tr G ?n n"
    using begin_moves [OF b] up by (intro log_step.Kept) (simp_all add: log_moves_def)
  have "led R' c' M (?e # tr) G"
    by (rule led_move [OF P(4) len c'(1) step agree]) (use n P(13) [OF i] in \<open>simp_all add: R'_def\<close>)
  moreover have "voted R' Y' N c' (?e # tr) G"
  proof (rule voted_move [OF P(5,7) i c'(1) ghosts P(3) up _ c'(2)])
    show "i < N \<and> stands R' (?e # tr) i (nodes c' ! i) th"
      if "Some (Election (currentTerm n) ps v Idle) = Some th" for th
      using stands_begin [OF b, where R = R' and tr = tr and ps = ps and v = v] that i n(2) old c'(1) len by (auto simp: R'_def)
  qed (use n c' len in \<open>auto simp: R'_def\<close>)
  moreover have "kept R' Y' c' (?e # tr) S G"
    by (rule kept_move [OF P(6,1,4,2) len c'(1) step ghosts])
  ultimately show ?thesis unfolding tracked_def by blast
qed

lemma track_grant:
  assumes T: "track R Y N c M tr S G" and th: "threads c i = Some (Election t ps v (Requested p r))"
    and j: "j < N" and h: "handle_RequestVote r (nodes c ! j) = (n, resp)"
    and g: "vote_granted r (nodes c ! j)"
    and c': "nodes c' = (nodes c)[j := n]" "threads c' = (threads c)(i \<mapsto> Election t ps v (Answered a))"
    and inv': "election_inv N c' (Granted j (rv_term r) i # tr)"
  shows "\<exists>R Y. tracked R Y N c' M (Granted j (rv_term r) i # tr) S G"
proof -
  let ?e = "Granted j (rv_term r) i" and ?n = "nodes c ! j"
  note P = track_parts [OF T]
  have len: "j < length (nodes c)" "length (nodes c') = N" using j P(7) c'(1) by simp_all
  have alive: "\<not> shutdownRequested ?n" "vote_persisted ?n" using P(11,12) [OF j] by simp_all
  have up: "currentTerm ?n \<le> currentTerm n" using vote_step(3) [OF alive h] .
  have same: "log n = log ?n" by (rule vote_handler_log [OF h alive(1)])
  have moves: "log_moves False ?n n" by (rule vote_handler_moves [OF h alive(1)])
  have s: "i < N" "stands R tr i (nodes c ! i) (Election t ps v (Requested p r))"
    using P(10) [OF th] by blast+
  have rise: "currentTerm (nodes c ! i) \<le> currentTerm (nodes c' ! i)"
    and logi: "log (nodes c' ! i) = log (nodes c ! i)"
    using up same c'(1) len by (cases "i = j"; simp)+
  define Y' where "Y' = (if rv_term r \<in> won_terms tr then Y else Y(j := (Y j)(rv_term r := log ?n)))"
  have single: "k = i" if "(j, rv_term r, k) \<in> early tr" for k
  proof -
    have "(j, rv_term r, k) \<in> grants tr" using that early_grants by blast
    then have "(j, rv_term r, k) \<in> grants (?e # tr)" "(j, rv_term r, i) \<in> grants (?e # tr)" by simp_all
    then show ?thesis using election_inv_parts(5) [OF inv'] unfolding single_votes_def by blast
  qed
  have agree: "agree tr R R" by (simp add: agree_def)
  have ghosts: "ghost_step R Y R Y' c tr ?e"
    using agree len(1) s(1) P(7) granted_pos(2) [OF g alive(1)] single
    by (auto simp: ghost_step_def Y'_def split: if_splits)
  have step: "log_step R tr G ?n n"
    using moves up by (intro log_step.Kept) (simp_all add: log_moves_def)
  have "led R c' M (?e # tr) G"
    by (rule led_move [OF P(4) len(1) c'(1) step agree]) (use leader_keeps [OF P(8) [OF j] moves] in auto)
  moreover have "voted R Y' N c' (?e # tr) G"
  proof (rule voted_move [OF P(5,7) j c'(1) ghosts P(3) up _ c'(2)])
    show "i < N \<and> stands R (?e # tr) i (nodes c' ! i) th'"
      if "Some (Election t ps v (Answered a)) = Some th'" for th'
      using track_thread [OF T th, of th' ?e "nodes c' ! i"] that rise logi by auto
    fix q u k assume v: "(q, u, k) \<in> grants [?e]" "u \<notin> won_terms tr"
    then have [simp]: "q = j" "u = rv_term r" "k = i" by simp_all
    have "last_pos (log ?n) \<le> last_pos (R i u)" if "Began i u \<in> set (?e # tr)"
    proof -
      have "u = t" using that s(2) by (fastforce simp: stands_def)
      then show ?thesis using s(2) v(2) granted_pos(1) [OF g alive(1)] by (simp add: stands_def)
    qed
    moreover have "u \<le> currentTerm (nodes c' ! i)" using s(2) rise by (simp add: stands_def)
    ultimately show "u \<le> currentTerm (nodes c' ! k) \<and>
        (Began k u \<in> set (?e # tr) \<longrightarrow> last_pos (log (nodes c ! q)) \<le> last_pos (R k u))" by simp
  qed (use same in auto)
  moreover have "kept R Y' c' (?e # tr) S G"
    by (rule kept_move [OF P(6,1,4,2) len(1) c'(1) step ghosts])
  ultimately show ?thesis unfolding tracked_def by blast
qed

lemma track_win:
  assumes T: "track R Y N c M tr S G" and th: "threads c i = Some (Election t [] v Idle)"
    and f: "finish_election N now rnd (nodes c ! i, v) = Returns n" and win: "t \<notin> won_terms tr"
    and now_t: "currentTerm n = t"
    and c': "nodes c' = (nodes c)[i := n]" "threads c' = (threads c)(i := None)"
    and inv': "election_inv N c' (Won i t t # tr)"
  shows "tracked R Y N c' M (Won i t t # tr) S G"
proof -
  let ?n = "nodes c ! i"
  note P = track_parts [OF T]
  have s: "i < N" "stands R tr i ?n (Election t [] v Idle)" using P(10) [OF th] by blast+
  have alive: "\<not> shutdownRequested ?n" "vote_persisted ?n" using P(11,12) [OF s(1)] by simp_all
  have same: "currentTerm n = currentTerm ?n" by (rule finish_rely(2) [OF f alive])
  have moves: "log_moves (v > int (N div 2)) ?n n" by (rule finish_moves [OF f alive(1)])
  show ?thesis
  proof (rule track_quiet [OF T s(1) c'(1) _ _ c'(2)])
    show "log_step R tr G ?n n"
      using moves same by (intro log_step.Kept) (simp_all add: log_moves_def)
    show "Began i (currentTerm n) \<in> set tr \<and> log_of R i (currentTerm n) (log n)" if "state n = LEADER"
    proof -
      have "log n = R i t" using moves that s(2) win same now_t by (simp add: log_moves_def stands_def)
      then show ?thesis using s(2) now_t by (simp add: stands_def)
    qed
    show "Began w u \<in> set tr" if "Won i t t = Won w u u'" for w u u' using that s(2) by (simp add: stands_def)
    show "\<exists>Q. majority N Q \<and> Q \<times> {(u, w)} \<subseteq> early tr" if e: "Won i t t = Won w u u" for w u
    proof -
      obtain Q where "majority N Q" "Q \<times> {(t, i)} \<subseteq> grants tr"
        using election_inv_parts(6) [OF inv', of i t] by auto
      then show ?thesis using e win early_unless_won by (intro exI [of _ Q]) blast
    qed
  qed (use c'(2) in simp_all)
qed

lemma term_not_won:
  assumes "ballot_step c (Won i t t) c'" "election_inv N c tr" "wins_ok c tr"
  shows "t \<notin> won_terms tr"
proof
  assume "t \<in> won_terms tr"
  then obtain w where w: "Won w t t \<in> set tr" by (auto simp: won_terms_def)
  then have "w = i" using winner_unique [OF ballot_inv_preserved [OF assms(1,2)], of w t i] by simp
  then show False using wins_ok_ballot(2) [OF assms, of i t t t] w by simp
qed

text \<open>A vote request reaches its voter.\<close>

lemma track_deliver:
  assumes T: "track R Y N c M tr S G" and th: "threads c i = Some (Election t ps v (Requested p r))"
    and j: "port_node p < N" and h: "handle_RequestVote r (nodes c ! port_node p) = (n, resp)"
    and e: "e = (if vote_granted r (nodes c ! port_node p) then Granted (port_node p) (rv_term r) i else Silent)"
    and c': "nodes c' = (nodes c)[port_node p := n]"
      "threads c' = (threads c)(i \<mapsto> Election t ps v (Answered (answer_of resp)))"
    and inv': "election_inv N c' (e # tr)"
  shows "\<exists>R Y. tracked R Y N c' M (e # tr) S G"
proof (cases "vote_granted r (nodes c ! port_node p)")
  case True
  then have e: "e = Granted (port_node p) (rv_term r) i" using e by simp
  show ?thesis
    unfolding e by (rule track_grant [OF T th j h True c' inv' [unfolded e]])
next
  case False
  let ?j = "port_node p" and ?th = "Election t ps v (Answered (answer_of resp))"
  note P = track_parts [OF T]
  have e: "e = Silent" using False e by simp
  have same: "log n = log (nodes c ! ?j)" by (rule vote_handler_log [OF h P(11) [OF j]])
  have up: "currentTerm (nodes c ! ?j) \<le> currentTerm n" by (rule vote_step(3) [OF P(11,12) [OF j] h])
  have "log (nodes c' ! i) = log (nodes c ! i)" "currentTerm (nodes c ! i) \<le> currentTerm (nodes c' ! i)"
    using same up j c'(1) P(7) by (cases "i = ?j"; simp)+
  then have "i < N \<and> stands R (Silent # tr) i (nodes c' ! i) ?th"
    using track_thread [OF T th, of ?th Silent "nodes c' ! i"] by simp
  then have "tracked R Y N c' M (Silent # tr) S G"
    by (intro track_moved [OF T j c'(1) vote_handler_moves [OF h P(11) [OF j]] up _ c'(2)])
      (use same in auto)
  then show ?thesis unfolding e by blast
qed

text \<open>The votes are counted.\<close>

lemma track_finish:
  assumes T: "track R Y N c M tr S G" and th: "threads c i = Some (Election t [] v Idle)"
    and f: "finish_election N now rnd (nodes c ! i, v) = Returns n"
    and step: "ballot_step c e c'" and wins: "wins_ok c tr" and fair: "fair_wins (e # tr)"
    and e: "e = (if v > int (N div 2) then Won i t (currentTerm n) else Silent)"
    and c': "nodes c' = (nodes c)[i := n]" "threads c' = (threads c)(i := None)"
  shows "tracked R Y N c' M (e # tr) S G"
proof (cases "v > int (N div 2)")
  case True
  note P = track_parts [OF T]
  have e: "e = Won i t (currentTerm n)" and t: "currentTerm n = t" using True e fair by simp_all
  have "t \<notin> won_terms tr" using term_not_won [OF step [unfolded e t] P(1) wins] .
  then show ?thesis
    using track_win [OF T th f _ t c'] ballot_inv_preserved [OF step P(1)] unfolding e t by blast
next
  case False
  note P = track_parts [OF T]
  have e: "e = Silent" using False e by simp
  have i: "i < N" using P(10) [OF th] by blast
  have "log_moves False (nodes c ! i) n" using finish_moves [OF f P(11) [OF i]] False by simp
  then show ?thesis
    unfolding e by (intro track_moved [OF T i c'(1) _ _ _ c'(2)])
      (use finish_rely(2) [OF f P(11,12) [OF i]] c'(2) in auto)
qed

lemma track_ballot:
  assumes step: "ballot_step c e c'" and T: "track R Y N c M tr S G" and wins: "wins_ok c tr"
    and fair: "fair_wins (e # tr)"
  shows "\<exists>R Y. tracked R Y N c' M (e # tr) S G"
proof -
  note P = track_parts [OF T]
  note inv' = ballot_inv_preserved [OF step P(1)]
  note up = ballot_terms(2) [OF step P(1), unfolded P(7)]
  have refl: "log_moves False n n" for n by (rule log_moves_refl)
  from step show ?thesis
  proof cases
    case (Begin i n)
    then show ?thesis
      using track_begin [OF T _ Begin(5), of c' "peerRpcPorts n" 1] P(7)
      by (simp add: set_thread_def set_node_def)
  next
    case (Send i t p ps v)
    have i: "i < N" "nodes c' = (nodes c)[i := nodes c ! i]" using Send(2,3) P(7) by simp_all
    have "stands R (Silent # tr) i (nodes c ! i) (Election t ps v (Requested p (vote_request (nodes c ! i))))"
      by (rule stands_mono [OF stands_send [OF conjunct2 [OF P(10) [OF Send(4)]] P(9) [OF i(1)]]])
        (simp_all add: agree_def)
    then have "tracked R Y N c' M (Silent # tr) S G"
      by (intro track_moved [OF T i refl]) (use i Send(2) in \<open>auto simp: set_thread_def\<close>)
    then show ?thesis unfolding Send(1) by blast
  next
    case (Deliver i t ps v p r n resp)
    show ?thesis
      by (rule track_deliver [OF T Deliver(4) _ Deliver(6) Deliver(1) _ _ inv'])
        (use Deliver(2,5) P(7) in \<open>simp_all add: set_thread_def set_node_def\<close>)
  next
    case (Lose i t ps v ph)
    have i: "i < N" "nodes c' = (nodes c)[i := nodes c ! i]" using Lose(2) P(10) [OF Lose(3)] by simp_all
    have "stands R (Silent # tr) i (nodes c ! i) (Election t ps v (Answered No_Reply))"
      using track_thread [OF T Lose(3), of "Election t ps v (Answered No_Reply)" Silent "nodes c ! i"] by simp
    then have "tracked R Y N c' M (Silent # tr) S G"
      by (intro track_moved [OF T i refl]) (use i Lose(2) in \<open>auto simp: set_thread_def\<close>)
    then show ?thesis unfolding Lose(1) by blast
  next
    case (Receive i t ps v reply n v')
    have i: "i < N" "nodes c' = (nodes c)[i := n]" using Receive(2,3) P(7) by (simp_all add: set_node_def)
    have same: "log n = log (nodes c ! i)" by (rule receive_vote_log [OF Receive(5)])
    have "stands R (Silent # tr) i n (Election t ps v' Idle)"
      using track_thread [OF T Receive(4), of "Election t ps v' Idle" Silent n] same
        receive_goes_on(1) [OF Receive(5)] by simp
    then have "tracked R Y N c' M (Silent # tr) S G"
      by (intro track_moved [OF T i receive_moves(1) [OF Receive(5)]])
        (use i Receive(2) up [of i] same P(7) in \<open>auto simp: set_thread_def\<close>)
    then show ?thesis unfolding Receive(1) by blast
  next
    case (Give_Up i t ps v reply n v')
    have i: "i < N" "nodes c' = (nodes c)[i := n]" using Give_Up(2,3) P(7) by (simp_all add: set_node_def)
    have "tracked R Y N c' M (Silent # tr) S G"
      by (intro track_moved [OF T i receive_moves(2) [OF Give_Up(5)]])
        (use i Give_Up(2) up [of i] P(7) in \<open>auto simp: set_thread_def\<close>)
    then show ?thesis unfolding Give_Up(1) by blast
  next
    case (Finish i t v now rnd n)
    show ?thesis
      by (rule exI, rule exI, rule track_finish [OF T Finish(4) Finish(5) [unfolded P(7)] step wins fair])
        (use Finish(1,2) P(7) in \<open>simp_all add: set_thread_def set_node_def\<close>)
  next
    case (Restart i now rnd s n s')
    have i: "i < N" "nodes c' = (nodes c)[i := n]" using Restart(2,3) P(7) by (simp_all add: set_node_def)
    have "tracked R Y N c' M (Silent # tr) S G"
      by (intro track_moved [OF T i reboot_moves [OF Restart(4) P(12) [OF i(1)] P(9) [OF i(1)]]])
        (use i Restart(2) up [of i] P(7) in \<open>auto simp: set_thread_def\<close>)
    then show ?thesis unfolding Restart(1) by blast
  qed
qed

section \<open>Replication\<close>

lemma track_lone:
  assumes T: "track R Y N c M tr S G" and i: "i < N"
    and step: "log_step R tr G (nodes c ! i) n"
    and log: "currentTerm n = currentTerm (nodes c ! i) \<Longrightarrow>
      log n = log (nodes c ! i) \<or> currentTerm n \<in> won_terms tr"
    and leads: "state n = LEADER \<Longrightarrow> Began i (currentTerm n) \<in> set tr \<and> log_of R i (currentTerm n) (log n)"
  shows "tracked R Y N (set_node i n c) M (Silent # tr) S G"
proof (rule track_quiet [OF T i _ step, where m = i and t = "threads c i"])
  fix th assume "threads c i = Some th"
  then have "stands R tr i (nodes c ! i) th" using track_parts(10) [OF T] by blast
  then have "stands R (Silent # tr) i n th"
    by (rule stands_mono) (use log_step_term [OF step] log in \<open>auto simp: agree_def\<close>)
  then show "i < N \<and> stands R (Silent # tr) i (nodes (set_node i n c) ! i) th"
    using i track_parts(7) [OF T] by simp
qed (use log leads in \<open>auto simp: set_node_def\<close>)

lemma track_append:
  assumes T: "track R Y N c M tr S G" and i: "i < N" and lead: "state (nodes c ! i) = LEADER"
  shows "tracked R Y N (set_node i (append_command cmd (nodes c ! i)) c) M (Silent # tr) S G"
proof (rule track_lone [OF T i])
  let ?n = "nodes c ! i" and ?m = "append_command cmd (nodes c ! i)"
  note P = track_parts [OF T]
  let ?e = "\<lparr>entry_term = currentTerm ?n, entry_index = int (length (log ?n)), entry_command = cmd\<rparr>"
  have m: "log ?m = log ?n @ [?e]"
    using P(9) [OF i] by (simp add: append_command_def plain_log no_snapshot_def)
  have won: "Won i (currentTerm ?n) (currentTerm ?n) \<in> set tr"
    using P(2,7) i lead by (simp add: all_ok_def leads_ok_def)
  have mine: "Began i (currentTerm ?n) \<in> set tr" "log_of R i (currentTerm ?n) (log ?n)"
    using P(8) [OF i] lead by (simp_all add: node_led_def)
  have disk: "disk_logs ?m = disk_logs ?n" by (simp add: disk_logs_def)
  show "log_step R tr G ?n ?m"
    by (rule log_step.Appended [OF won mine(2) _ m]) (auto simp: node_logs_def disk)
  show "log ?m = log ?n \<or> currentTerm ?m \<in> won_terms tr" using won by (auto simp: won_terms_def)
  show "Began i (currentTerm ?m) \<in> set tr \<and> log_of R i (currentTerm ?m) (log ?m)"
    using mine log_of_snoc [OF mine(2), of ?e] by (simp add: m)
qed

lemma track_send:
  assumes T: "track R Y N c M tr S G" and i: "i < N" and lead: "state (nodes c ! i) = LEADER"
    and "0 \<le> nextIndex (nodes c ! i) ! p"
    and "r = heartbeat_message p (nodes c ! i) \<or> r = client_message k p (nodes c ! i)"
  shows "tracked R Y N c (insert (q, r) M) (Silent # tr) S G"
proof -
  let ?n = "nodes c ! i"
  note P = track_parts [OF T]
  have n: "contiguous 0 (log ?n)" "Won i (currentTerm ?n) (currentTerm ?n) \<in> set tr"
    using P(2,7,13) i lead by (auto simp: all_ok_def logs_ok_def leads_ok_def all_logs_def)
  note cut = message_cut [OF P(9) [OF i] n(1) assms(4,5)]
  have mine: "log_of R i (currentTerm ?n) (log ?n)" using P(8) [OF i] lead by (simp add: node_led_def)
  have "tracked R Y N (set_node i ?n c) M (Silent # tr) S G"
    by (rule track_lone [OF T i log_step.Kept]) (use P(8) [OF i] in \<open>simp_all add: node_led_def\<close>)
  moreover have "batch_led R (Silent # tr) G r"
    using cut n(2) mine P(13) [OF i] by (auto simp: batch_led_def)
  ultimately show ?thesis by (simp add: tracked_def led_def set_same)
qed

lemma track_receive:
  assumes T: "track R Y N c M tr S G" and b: "(q, r) \<in> M" and i: "port_node q < N"
    and h: "handle_AppendEntries now rnd r (nodes c ! port_node q) s = (f, s', reply)"
    and len: "int (length (log (nodes c ! port_node q)) + length (ae_entries r)) < SNAPSHOT_THRESHOLD"
  shows "tracked R Y N (set_node (port_node q) f c) M (Silent # tr) S G"
proof -
  let ?i = "port_node q"
  let ?n = "nodes c ! ?i"
  note P = track_parts [OF T]
  note eff = handler_log [OF h P(9) [OF i] len P(11,12) [OF i]]
  obtain xs w k m where xs: "xs \<in> G" "Won w (ae_term r) (ae_term r) \<in> set tr" "log_of R w (ae_term r) xs"
    "batch_at r xs k m \<or> ae_entries r = []"
    using P(4) b unfolding led_def batch_led_def by fastforce
  have ok: "logs_match xs (log ?n)" "contiguous 0 xs"
    using P(2) xs(1) P(13) [OF i] by (auto simp: all_ok_def logs_ok_def all_logs_def)
  have kept: "tracked R Y N (set_node ?i f c) M (Silent # tr) S G" if "log f = log ?n"
    by (rule track_lone [OF T i log_step.Kept])
      (use eff that P(8) [OF i] in \<open>auto simp: node_led_def node_logs_def\<close>)
  consider "log f = log ?n" | j where "log f \<noteq> log ?n" "ae_term r = currentTerm ?n" "log f = take j xs"
    "common_len xs (log ?n) \<le> j" "common_len xs (log ?n) < length xs"
    using handler_takes_prefix [OF h P(9) [OF i] len P(11,12) [OF i] xs(4) ok] by blast
  then show ?thesis
  proof cases
    case (2 j)
    have "w \<noteq> ?i"
    proof -
      obtain v where "v \<noteq> ?i" "Won v (ae_term r) (ae_term r) \<in> set tr"
        using P(2) b by (fastforce simp: all_ok_def batch_ok_def)
      then show ?thesis using winner_unique [OF P(1) xs(2), of v] by auto
    qed
    have "state f \<noteq> LEADER"
    proof
      assume "state f = LEADER"
      then have "Won ?i (currentTerm ?n) (currentTerm ?n) \<in> set tr"
        using P(2,7) i eff(4) by (simp add: all_ok_def leads_ok_def)
      then show False using winner_unique [OF P(1) xs(2), of ?i] 2(2) \<open>w \<noteq> ?i\<close> by simp
    qed
    moreover have "log_step R tr G ?n f"
      by (rule log_step.Copied [OF _ _ xs(1) eff(5) 2(3-5) eff(2)]) (use xs 2(2) in simp_all)
    ultimately show ?thesis
      by (intro track_lone [OF T i]) (use xs(2) 2(2) eff(5) in \<open>auto simp: won_terms_def\<close>)
  qed (rule kept)
qed

lemma track_local:
  assumes T: "track R Y N c M tr S G" and i: "i < N" and l: "local_step (nodes c ! i) n"
  shows "tracked R Y N (set_node i n c) M (Silent # tr) S G"
proof (rule track_lone [OF T i log_step.Kept])
  show "node_logs n \<subseteq> node_logs (nodes c ! i)" "currentTerm (nodes c ! i) \<le> currentTerm n"
    "log n = log (nodes c ! i) \<or> currentTerm n \<in> won_terms tr"
    using l by (simp_all add: local_step_def log_moves_def vote_rely_def)
  show "state n = LEADER \<Longrightarrow> Began i (currentTerm n) \<in> set tr \<and> log_of R i (currentTerm n) (log n)"
    using leader_keeps [OF track_parts(8) [OF T i], of n] l unfolding local_step_def by blast
qed

lemma track_step:
  assumes step: "protocol_step (c, M) e q'" and T: "track R Y N c M tr S G" and "wins_ok c tr"
    and "fair_wins (e # tr)"
  shows "\<exists>R Y. tracked R Y N (fst q') (snd q') (e # tr) S G"
  using step
proof (cases rule: protocol_step.cases)
  case (Elect c')
  then show ?thesis using track_ballot [OF Elect(2) T assms(3,4)] by simp
next
  case (Append i cid rid cmd)
  then show ?thesis
    using track_append [OF T, of i cmd] guard_open [OF Append(4)] track_parts(7) [OF T]
    by (metis fst_conv snd_conv)
next
  case (Send_Batch i p r k)
  then show ?thesis using track_send [OF T _ Send_Batch(4,6,7)] track_parts(7) [OF T] by auto
next
  case (Receive_Batch p r now rnd s f s' reply)
  then show ?thesis using track_receive [OF T Receive_Batch(3) _ Receive_Batch(5,6)] track_parts(7) [OF T] by auto
next
  case (Local i n)
  then show ?thesis using track_local [OF T _ Local(4)] track_parts(7) [OF T] by auto
qed

section \<open>Runs\<close>

definition saving_inv ::
  "nat \<Rightarrow> cluster \<times> (int \<times> AppendEntriesRPC) set \<Rightarrow> election_event list \<Rightarrow>
   (nat \<times> logEntry list) set \<Rightarrow> bool" where
  "saving_inv N q tr S \<longleftrightarrow>
     wins_ok (fst q) tr \<and> (\<exists>G R Y. track R Y N (fst q) (snd q) tr S G)"

text \<open>The logs of the nodes may be taken into \<open>G\<close>.\<close>

lemma tracked_grow:
  assumes "tracked R Y N c M tr S G" "all_ok c M tr G" "election_inv N c tr"
  shows "track R Y N c M tr S (G \<union> log ` set (nodes c))"
proof -
  let ?G = "G \<union> log ` set (nodes c)"
  have logs: "all_logs c ?G = all_logs c G" by (auto simp: all_logs_def)
  have "batch_led R tr ?G r" if "batch_led R tr G r" for r using that unfolding batch_led_def by blast
  then have "led R c M tr ?G" using assms(1) by (auto simp: tracked_def led_def logs)
  moreover have "voted R Y N c tr ?G" using assms(1) unfolding tracked_def voted_def by blast
  moreover have "kept R Y c tr S ?G" using assms(1) unfolding tracked_def kept_def by blast
  ultimately show ?thesis using assms(2,3) all_ok_grow by (simp add: track_def tracked_def)
qed

lemma saving_step:
  assumes step: "protocol_step q e q'" and inv: "saving_inv N q tr S" and "fair_wins (e # tr)"
  shows "saving_inv N q' (e # tr) S"
proof -
  obtain c M where q: "q = (c, M)" by fastforce
  obtain G R Y where T: "track R Y N c M tr S G" and wins: "wins_ok c tr"
    using inv by (auto simp: saving_inv_def q)
  note P = track_parts(1-3) [OF T]
  have "election_inv N (fst q') (e # tr) \<and> wins_ok (fst q') (e # tr) \<and> all_ok (fst q') (snd q') (e # tr) G"
    by (rule protocol_step_ok [OF step [unfolded q] P(1) wins P(2) assms(3) P(3)])
  then show ?thesis
    using track_step [OF step [unfolded q] T wins assms(3)] tracked_grow
    unfolding saving_inv_def by blast
qed

text \<open>What a node has just saved is led, kept, and of a term in which it has not voted for a later one.\<close>

lemma saving_note:
  assumes inv: "saving_inv N (c, M) tr S" and j: "j < length (nodes c)" and P: "saves (nodes c ! j) P"
  shows "saving_inv N (c, M) tr (insert (j, P) S)"
proof -
  obtain G R Y where T: "track R Y N c M tr S G" and wins: "wins_ok c tr"
    using inv by (auto simp: saving_inv_def)
  note parts = track_parts [OF T]
  have jN: "j < N" using j parts(7) by simp
  have mine: "P \<noteq> []" "prefix P (log (nodes c ! j))" "last_term P = currentTerm (nodes c ! j)"
    "node_logs (nodes c ! j) = {log (nodes c ! j)}"
    using P by (simp_all add: saves_def node_logs_def)
  have "\<not> last_term P < t" if "(j, t, i) \<in> early tr" for t i
  proof -
    have "backs (grants tr) j (nodes c ! j)" using parts(1) jN unfolding election_inv_def by blast
    then show ?thesis using that early_grants mine(3) by (fastforce simp: backs_def)
  qed
  then have "kept R Y c tr (insert (j, P) S) G"
    using parts(6) mine j parts(13) [OF jN] unfolding kept_def by auto
  then show ?thesis using T wins by (auto simp: saving_inv_def track_def tracked_def)
qed

lemma new_cluster_saving: "saving_inv N (new_cluster N, {}) [] {}"
proof -
  have n: "no_snapshot n \<and> node_logs n = {[]} \<and> state n = FOLLOWER \<and> currentTerm n = 0"
    if "n \<in> set (nodes (new_cluster N))" for n
    using that by (auto simp: new_cluster_def RaftNode_new_def no_snapshot_def node_logs_def disk_logs_def)
  have "all_ok (new_cluster N) {} [] {}"
    using n by (auto simp: all_ok_def all_logs_def logs_ok_def leads_ok_def)
  moreover have "tracked R Y N (new_cluster N) {} [] {} {}" for R Y
  proof -
    have "all_logs (new_cluster N) {} \<subseteq> {[]}" using n by (auto simp: all_logs_def)
    then have "logs_led R [] (all_logs (new_cluster N) {})" by (auto simp: logs_led_def)
    moreover have "node_led R [] j (nodes (new_cluster N) ! j)" if "j < length (nodes (new_cluster N))" for j
      using n [OF nth_mem [OF that]] by (simp add: node_led_def)
    ultimately have "led R (new_cluster N) {} [] {}" by (simp add: led_def stood_before_def)
    then show ?thesis by (simp add: tracked_def voted_def kept_def new_cluster_def)
  qed
  ultimately have "track R Y N (new_cluster N) {} [] {} ({} \<union> log ` set (nodes (new_cluster N)))" for R Y
    using tracked_grow new_cluster_inv by blast
  moreover have "wins_ok (new_cluster N) []" by (simp add: wins_ok_def)
  ultimately show ?thesis unfolding saving_inv_def fst_conv snd_conv by blast
qed

lemma saving_run_inv:
  "saving_run q tr S q' \<Longrightarrow> saving_inv N q [] {} \<Longrightarrow> fair_wins tr \<Longrightarrow> saving_inv N q' tr S"
proof (induction rule: saving_run.induct)
  case (Step q tr S q' e q'')
  have "fair_wins tr" using Step.prems(2) by (simp add: fair_wins_def)
  then show ?case using Step saving_step by blast
qed (auto intro: saving_note)

text \<open>These runs are the runs of the protocol.\<close>

lemma saving_protocol_run: "saving_run q tr S q' \<Longrightarrow> protocol_run q tr q'"
  by (induction rule: saving_run.induct) (auto intro: protocol_run.intros)

lemma protocol_saving_run: "protocol_run q tr q' \<Longrightarrow> saving_run q tr {} q'"
  by (induction rule: protocol_run.induct) (auto intro: saving_run.intros)

section \<open>Winners have what a majority has saved\<close>

text \<open>
  A log at least as up to date as one that starts with \<open>P\<close> starts with \<open>P\<close> itself, if winners of the
  terms before its own do.
\<close>

lemma up_to_date_contains:
  assumes inv: "election_inv N c tr" and led: "logs_led R tr Ls" "stood_before R tr"
    and ys: "ys \<in> Ls" "prefix P ys" "P \<noteq> []" and xs: "xs \<in> Ls" "logs_match ys xs"
    and pos: "last_pos ys \<le> last_pos xs" and below: "\<forall>e \<in> set xs. entry_term e < U"
    and winners: "winners_have R tr P U"
  shows "prefix P xs"
proof -
  have ne: "ys \<noteq> []" using ys by auto
  obtain v where v: "Won v (last_term ys) (last_term ys) \<in> set tr"
    "length (R v (last_term ys)) < length ys" "log_of R v (last_term ys) ys"
    using led_last [OF led(1) ys(1) ne] .
  have positive: "0 < last_term ys" using v(1) led(2) unfolding stood_before_def by blast
  have nx: "xs \<noteq> []" using pos positive ne by (auto simp: last_pos_def less_eq_log_pos_def)
  obtain w where w: "Won w (last_term xs) (last_term xs) \<in> set tr"
    "length (R w (last_term xs)) < length xs" "log_of R w (last_term xs) xs"
    using led_last [OF led(1) xs(1) nx] .
  have le: "last_term P \<le> last_term ys"
  proof -
    have "last P = ys ! (length P - 1)"
      using ys(2,3) by (auto simp: prefix_def nth_append last_conv_nth)
    moreover have "length P - 1 \<le> length ys - 1" using prefix_length_le [OF ys(2)] by simp
    ultimately show ?thesis
      using led_terms_rise [OF led ys(1) has_term_last [OF ne]] by simp
  qed
  consider "last_term ys < last_term xs" | "last_term ys = last_term xs" "length ys \<le> length xs"
    using pos ne nx by (auto simp: last_pos_def less_eq_log_pos_def)
  then show ?thesis
  proof cases
    case 1
    have "last_term xs < U" using below last_in_set [OF nx] by blast
    then have "prefix P (R w (last_term xs))" using winners w(1) 1 le by (simp add: winners_have_def)
    then show ?thesis using log_of_prefix [OF w(3)] prefix_order.trans by blast
  next
    case 2
    then have "v = w" using winner_unique [OF inv v(1), of w] w(1) by simp
    then have "prefix ys xs" using log_of_comparable [of R w "last_term xs" ys xs] v(3) w(3) 2 xs(2) by simp
    then show ?thesis using ys(2) prefix_order.trans by blast
  qed
qed

lemma winners_have_all:
  assumes T: "track R Y N c M tr S G" and Q: "majority N Q" "\<And>q. q \<in> Q \<Longrightarrow> (q, P) \<in> S"
  shows "winners_have R tr P U"
proof -
  note parts = track_parts [OF T]
  have stood: "stood_before R tr" and led: "logs_led R tr (all_logs c G)" and RG: "\<And>i t. Began i t \<in> set tr \<Longrightarrow> R i t \<in> G"
    using parts(4) by (simp_all add: led_def)
  have "prefix P (R w t)" if "Won w t t \<in> set tr" "last_term P < t" for w t
    using that
  proof (induction "nat t" arbitrary: w t rule: less_induct)
    case less
    have began: "Began w t \<in> set tr" using less.prems(1) stood unfolding stood_before_def by blast
    have before: "winners_have R tr P t"
      unfolding winners_have_def
    proof (intro allI impI)
      fix v u assume v: "Won v u u \<in> set tr" "last_term P < u" "u < t"
      then have "0 < u" using stood unfolding stood_before_def by blast
      then show "prefix P (R v u)" using less.hyps [of u v] v by simp
    qed
    obtain V where V: "majority N V" "V \<times> {(t, w)} \<subseteq> early tr"
      using parts(5) less.prems(1) unfolding voted_def by blast
    then obtain q where q: "q \<in> Q" "(q, t, w) \<in> early tr" using majorities.overlap [OF Q(1) V(1)] by blast
    have Y: "prefix P (Y q t)" "P \<noteq> []"
      using parts(6) Q(2) [OF q(1)] q(2) less.prems(2) before unfolding kept_def by blast+
    have V1: "Y q t \<in> G" "last_pos (Y q t) \<le> last_pos (R w t)"
      using parts(5) q(2) began unfolding voted_def by blast+
    have in_all: "Y q t \<in> all_logs c G" "R w t \<in> all_logs c G"
      using V1(1) RG [OF began] by (simp_all add: all_logs_def)
    then have "logs_match (Y q t) (R w t)" using parts(2) by (simp add: all_ok_def logs_ok_def)
    moreover have "\<forall>e \<in> set (R w t). entry_term e < t" using stood began unfolding stood_before_def by blast
    ultimately show ?case
      using up_to_date_contains [OF parts(1) led stood in_all(1) Y in_all(2) _ V1(2) _ before] by blast
  qed
  then show ?thesis by (simp add: winners_have_def)
qed

section \<open>Properties\<close>



end
