(* ===== verification/Lost_Write.thy ===== *)
theory Lost_Write
  imports Client_Facts Catch_Up
begin

text \<open>
  A command that is acknowledged and that no node but the leader has: the client's side of the
  leader (\<open>Client\<close>) put together with the followers' side (\<open>Replication\<close>), for followers that have
  more of the log than the leader knows, as they do when their replies to an earlier round were lost.
\<close>

section \<open>A follower the leader thinks is behind\<close>

definition ahead_of :: "nat \<Rightarrow> RaftNode \<Rightarrow> RaftNode \<Rightarrow> bool" where
  "ahead_of i n f \<longleftrightarrow>
     latestSnapshot f = None \<and> \<not> mtxHeld f \<and> \<not> receivingSnapshot f \<and>
     currentTerm f = currentTerm n \<and> state f \<noteq> CANDIDATE \<and>
     logs_match (log n) (log f) \<and> length (log f) \<le> length (log n) \<and>
     0 \<le> nextIndex n ! i \<and> nat (nextIndex n ! i) < common_len (log n) (log f)"

lemma client_batch_at:
  assumes "latestSnapshot m = None" "nextIndex m ! i = int k" "k \<le> length (log m)"
    and "K + 1 = int (length (log m))"
  shows "batch_at (client_message K i m) (log m) k (length (log m) - k)"
    and "ae_term (client_message K i m) = currentTerm m"
proof -
  have "getLogEntries (int k) (K + 1) m = drop k (log m)"
    using assms(3,4) by (auto simp: getLogEntries_def plain_log [OF assms(1)] Let_def min_def)
  moreover have "getLogTerm (int k - 1) m = (if k = 0 then 0 else entry_term (log m ! (k - 1)))"
    using assms(3) by (cases k) (auto simp: plain_log [OF assms(1)])
  ultimately show "batch_at (client_message K i m) (log m) k (length (log m) - k)"
    using assms(2,3) by (simp add: batch_at_def client_message_def Let_def)
  show "ae_term (client_message K i m) = currentTerm m" by (simp add: client_message_def Let_def)
qed

text \<open>Such a follower answers the batch with success and keeps its log.\<close>

lemma ahead_answers:
  assumes f: "ahead_of i n f" and m: "log m = log n @ [e]" "currentTerm m = currentTerm n"
      "latestSnapshot m = None" "nextIndex m ! i = nextIndex n ! i"
    and size: "2 * int (length (log n)) + 1 < SNAPSHOT_THRESHOLD"
    and h: "handle_AppendEntries now rnd (client_message (int (length (log n))) i m) f s = (f', s', reply)"
  shows "reply = AE_Reply \<lparr>aer_term = currentTerm n, aer_success = True\<rparr>" "log f' = log f"
proof -
  let ?r = "client_message (int (length (log n))) i m"
  note F = f [unfolded ahead_of_def]
  obtain k where k: "nextIndex m ! i = int k" "k < common_len (log n) (log f)"
    using F m(4) nonneg_int_cases by (metis nat_int)
  have len: "k < length (log n)" "k < length (log f)"
    using k(2) common_len_bounds [of "log n" "log f"] by simp_all
  have cut: "batch_at ?r (log m) k (length (log m) - k)" "ae_term ?r = currentTerm m"
    by (rule client_batch_at [where k = k]; use m k len in simp)+
  have match: "logs_match (log m) (log f)"
    unfolding m(1) by (rule logs_match_snoc) (use F in simp_all)
  have "take (Suc k) (log n) = take (Suc k) (log f)" using take_le_common k(2) by (metis Suc_leI)
  then have same: "log n ! k = log f ! k" "k \<le> common_len (log m) (log f)"
    using len m(1) common_len_ge [of k "log m" "log f"]
    by (simp_all add: nth_append take_Suc_conv_app_nth)
  have normal: "ae_normal ?r f"
    using F cut m size len by (auto simp: ae_normal_def batch_at_def)
  have check: "consistency_check ?r f" using batch_check [OF cut(1) _ match] F same(2) by simp
  have "\<not> first_is_new ?r (ae_received now rnd ?r f)"
    using cut(1) len same(1) F m(1) by (auto simp: first_is_new_def batch_at_def plain_log hd_drop_conv_nth)
  then have "append_entries ?r (ae_received now rnd ?r f) = ae_received now rnd ?r f"
    by (rule append_entries_present)
  then show "reply = AE_Reply \<lparr>aer_term = currentTerm n, aer_success = True\<rparr>" "log f' = log f"
    using handle_AE_result(1,2) [OF normal h] check F by (simp_all add: ae_appended_def)
qed

section \<open>The round\<close>

lemma one_peer:
  assumes "peer_update J (append_command cmd n) m" "i \<notin> J" "i < length (peerRpcPorts n)"
    and "latestSnapshot n = None" "\<not> shutdownRequested n"
    and "2 * int (length (log n)) + 1 < SNAPSHOT_THRESHOLD"
    and "fst w (peerRpcPorts n ! i) = Some f" "ahead_of i n f"
  shows "\<exists>m' w' f'. replicate_to (live_network dump_len order alloc junk now rnd) (getLogSize n) i (m, w, c) =
      Continues (m', w', c + 1) \<and> peer_update (insert i J) (append_command cmd n) m' \<and>
      fst w' = (fst w)(peerRpcPorts n ! i \<mapsto> f') \<and> log f' = log f"
proof -
  let ?net = "live_network dump_len order alloc junk now rnd"
  let ?K = "int (length (log n))" and ?p = "peerRpcPorts n ! i"
  note up = peer_update_fields [OF assms(1)]
  have m: "log m = log n @ [\<lparr>entry_term = currentTerm n, entry_index = ?K, entry_command = cmd\<rparr>]"
    "currentTerm m = currentTerm n" "latestSnapshot m = None" "peerRpcPorts m = peerRpcPorts n"
    "\<not> shutdownRequested m" "nextIndex m ! i = nextIndex n ! i"
    using up assms(1,2,4,5) by (auto simp: append_command_def plain_log peer_update_def)
  obtain f' s' reply where h: "handle_AppendEntries now rnd (client_message ?K i m) f (snd w) = (f', s', reply)"
    using prod_cases3 by blast
  note a = ahead_answers [OF assms(8) m(1-3) m(6) assms(6) h]
  let ?m1 = "m\<lparr>metrics := (metrics m)\<lparr>appendEntriesSent := appendEntriesSent (metrics m) + 1\<rparr>\<rparr>"
  let ?m2 = "?m1\<lparr>nextIndex := (nextIndex ?m1)[i := ?K + 1], matchIndex := (matchIndex ?m1)[i := ?K]\<rparr>"
  have size: "getLogSize n = ?K" using assms(4) by (simp add: plain_log)
  have "replicate_to ?net (getLogSize n) i (m, w, c) = Continues (?m2, ((fst w)(?p \<mapsto> f'), s'), c + 1)"
    using h a(1) m assms(7)
    by (simp add: replicate_to_def live_network_def deliver_append_def read_append_reply_def client_reply_def size)
  moreover have "peer_update {i} m ?m2"
    using peer_update_trans [OF peer_update_metrics peer_update_set] by (simp add: request_balance_def)
  then have "peer_update (insert i J) (append_command cmd n) ?m2"
    using peer_update_trans [OF peer_update_mono [OF assms(1)] peer_update_mono [of "{i}" m ?m2]] by blast
  ultimately show ?thesis using a(2) by auto
qed

lemma round_of_ahead:
  assumes "peer_update J (append_command cmd n) m" "J \<inter> set is = {}" "distinct is"
    and "set is \<subseteq> {..<length (peerRpcPorts n)}" "distinct (peerRpcPorts n)"
    and "latestSnapshot n = None" "\<not> shutdownRequested n"
    and "2 * int (length (log n)) + 1 < SNAPSHOT_THRESHOLD"
    and "\<And>i. i \<in> set is \<Longrightarrow> \<exists>f. fst w (peerRpcPorts n ! i) = Some f \<and> ahead_of i n f"
  shows "\<exists>m' w'. replicate_all (live_network dump_len order alloc junk now rnd) (getLogSize n) is (m, w, c) =
      Continues (m', w', c + int (length is)) \<and> peer_update (J \<union> set is) (append_command cmd n) m' \<and>
      (\<forall>p. p \<notin> (!) (peerRpcPorts n) ` set is \<longrightarrow> fst w' p = fst w p) \<and>
      (\<forall>i \<in> set is. \<exists>f f'. fst w (peerRpcPorts n ! i) = Some f \<and>
         fst w' (peerRpcPorts n ! i) = Some f' \<and> log f' = log f)"
  using assms
proof (induction "is" arbitrary: J m w c)
  case Nil
  then show ?case by simp
next
  case (Cons i "is")
  let ?net = "live_network dump_len order alloc junk now rnd" and ?port = "(!) (peerRpcPorts n)"
  have i: "i \<notin> J" "i < length (peerRpcPorts n)" "i \<notin> set is" using Cons.prems(2-4) by auto
  obtain f where f: "fst w (?port i) = Some f" "ahead_of i n f" using Cons.prems(9) [of i] by auto
  obtain m1 w1 f1 where one: "replicate_to ?net (getLogSize n) i (m, w, c) = Continues (m1, w1, c + 1)"
    "peer_update (insert i J) (append_command cmd n) m1" "fst w1 = (fst w)(?port i \<mapsto> f1)" "log f1 = log f"
    using one_peer [OF Cons.prems(1) i(1,2) Cons.prems(6-8) f] by blast
  have other: "?port j \<noteq> ?port i" if "j \<in> set is" for j
    using that i Cons.prems(4,5) by (auto simp: nth_eq_iff_index_eq)
  have "\<exists>m' w'. replicate_all ?net (getLogSize n) is (m1, w1, c + 1) =
      Continues (m', w', c + 1 + int (length is)) \<and>
      peer_update (insert i J \<union> set is) (append_command cmd n) m' \<and>
      (\<forall>p. p \<notin> ?port ` set is \<longrightarrow> fst w' p = fst w1 p) \<and>
      (\<forall>j \<in> set is. \<exists>g g'. fst w1 (?port j) = Some g \<and> fst w' (?port j) = Some g' \<and> log g' = log g)"
    by (rule Cons.IH [OF one(2)]) (use Cons.prems i(3) other in \<open>auto simp: one(3)\<close>)
  then obtain m' w' where rest: "replicate_all ?net (getLogSize n) is (m1, w1, c + 1) =
      Continues (m', w', c + 1 + int (length is))"
    "peer_update (insert i J \<union> set is) (append_command cmd n) m'"
    "\<And>p. p \<notin> ?port ` set is \<Longrightarrow> fst w' p = fst w1 p"
    "\<And>j. j \<in> set is \<Longrightarrow> \<exists>g g'. fst w1 (?port j) = Some g \<and> fst w' (?port j) = Some g' \<and> log g' = log g"
    by blast
  have mine: "fst w' (?port i) = Some f1"
    using rest(3) [of "?port i"] other one(3) by force
  have "\<exists>g g'. fst w (?port j) = Some g \<and> fst w' (?port j) = Some g' \<and> log g' = log g"
    if "j \<in> set (i # is)" for j
    using that mine f(1) one(3,4) rest(4) [of j] other by (cases "j = i") auto
  moreover have "insert i J \<union> set is = J \<union> set (i # is)" by simp
  ultimately show ?case
    using one(1,3) rest(1-3) by (intro exI [of _ m'] exI [of _ w']) (auto simp: ac_simps)
qed

section \<open>How followers get ahead\<close>

text \<open>A network that delivers every batch and loses every reply.\<close>

definition losing_network :: "(int \<rightharpoonup> RaftNode) network" where
  "losing_network = (live_network (\<lambda>_. 0) (\<lambda>_. []) (\<lambda>_. True) ([], []) 0 0)
     \<lparr>send_append := \<lambda>port w msg. (fst (deliver_append 0 0 port w msg), No_Reply)\<rparr>"

definition idle_follower :: RaftNode where
  "idle_follower = demo_node\<lparr>currentTerm := 1\<rparr>"

lemma idle_takes:
  assumes "log m = [e]" "currentTerm m = 1" "entry_index e = 0" "latestSnapshot m = None" "nextIndex m ! i = 0"
    and h: "handle_AppendEntries 0 0 (client_message 0 i m) idle_follower s = (f', s', reply)"
  shows "ahead_of i m f'"
proof -
  let ?r = "client_message 0 i m"
  have cut: "batch_at ?r [e] 0 1" "ae_term ?r = 1"
    using client_batch_at [of m i 0 0] assms by simp_all
  have f: "log idle_follower = []" "latestSnapshot idle_follower = None" "\<not> mtxHeld idle_follower"
    "\<not> receivingSnapshot idle_follower" "currentTerm idle_follower = 1" "state idle_follower = FOLLOWER"
    by (simp_all add: idle_follower_def demo_node_def RaftNode_new_def)
  have norm: "ae_normal ?r idle_follower"
    using f cut by (simp add: ae_normal_def batch_at_def SNAPSHOT_THRESHOLD_def)
  have check: "consistency_check ?r idle_follower" using cut(1) by (simp add: consistency_check_def batch_at_def)
  note res = handle_AE_result [OF norm h]
  have "log f' = [e]"
    using res(2) check batch_append [OF cut(1), of "ae_received 0 0 ?r idle_follower"] f assms(3)
    by (simp add: ae_appended_def contiguous_def)
  then show ?thesis
    using res f assms by (simp add: ahead_of_def logs_match_refl)
qed

section \<open>Properties\<close>

text \<open>
  C7: An acknowledged command that only the leader has.  When the leader's \<open>nextIndex\<close> of each peer is
  behind what the peer has - its replies to the round before were lost - the next command is
  recorded as committed and applied, though every peer has dropped it and answered success: the
  handler looks at the first entry of the batch only.
\<close>

theorem acknowledged_on_leader_only:
  assumes "client_guard cid rid n = None" "\<not> mtxHeld n" "latestSnapshot n = None"
    and "distinct (peerRpcPorts n)" "2 * int (length (log n)) + 1 < SNAPSHOT_THRESHOLD"
    and "\<And>i. i < length (peerRpcPorts n) \<Longrightarrow> \<exists>f. fst w (peerRpcPorts n ! i) = Some f \<and> ahead_of i n f"
  shows "\<exists>n' w' a. handleClientCommand (live_network dump_len order alloc junk now rnd) cid rid command key val (n, w) =
      Answers (n', w') a \<and> clientLastRequest n' cid = Some rid \<and> commitIndex n' = getLogSize n \<and>
      (\<forall>p \<in> set (peerRpcPorts n). \<exists>f f'. fst w p = Some f \<and> fst w' p = Some f' \<and> log f' = log f \<and>
         length (log f') \<le> length (log n))"
proof -
  let ?net = "live_network dump_len order alloc junk now rnd" and ?N = "length (peerRpcPorts n)"
  let ?m = "appended command key val n"
  have alive: "\<not> shutdownRequested n" using assms(1) by (auto simp: client_guard_def split: if_splits)
  have "\<exists>m' w'. client_round ?net command key val n w = Continues (m', w', 1 + int (length [0..<?N])) \<and>
      peer_update ({} \<union> set [0..<?N]) ?m m' \<and>
      (\<forall>p. p \<notin> (!) (peerRpcPorts n) ` set [0..<?N] \<longrightarrow> fst w' p = fst w p) \<and>
      (\<forall>i \<in> set [0..<?N]. \<exists>f f'. fst w (peerRpcPorts n ! i) = Some f \<and>
         fst w' (peerRpcPorts n ! i) = Some f' \<and> log f' = log f)"
    by (rule round_of_ahead [OF peer_update_refl]) (use assms alive in auto)
  then obtain m1 w1 where r: "client_round ?net command key val n w = Continues (m1, w1, 1 + int ?N)"
    "peer_update {0..<?N} ?m m1"
    "\<And>i. i < ?N \<Longrightarrow> \<exists>f f'. fst w (peerRpcPorts n ! i) = Some f \<and>
       fst w1 (peerRpcPorts n ! i) = Some f' \<and> log f' = log f" by auto
  note up = peer_update_fields [OF r(2)]
  have m1: "\<not> shutdownRequested m1" "\<not> mtxHeld m1" "getLogTerm (getLogSize n) m1 = currentTerm m1"
    "length (peerRpcPorts m1) = ?N" "length (log m1) = Suc (length (log n))" "latestSnapshot m1 = None"
    using up alive assms(2,3) by (simp_all add: plain_log append_command_def nth_append)
  obtain w2 s2 where w1: "w1 = (w2, s2)" by fastforce
  obtain n2 s3 a where loop: "apply_loop True (m1\<lparr>commitIndex := getLogSize n\<rparr>) s2 [] = (n2, s3, a)"
    using prod_cases3 by blast
  obtain j where n2: "n2 = m1\<lparr>commitIndex := getLogSize n, lastApplied := j\<rparr>"
    using apply_loop_fields [OF loop] by blast
  have small: "\<not> SNAPSHOT_THRESHOLD \<le> int (length (log n2))" using m1(5) assms(5) by (simp add: n2)
  let ?n' = "persistMetadata (n2\<lparr>clientLastRequest := (clientLastRequest n2)(cid \<mapsto> rid),
      clientResultCache := (clientResultCache n2)(cid \<mapsto> a)\<rparr>)"
  have majority: "1 + int ?N > int ((length (peerRpcPorts m1) + 1) div 2)" using m1(4) by linarith
  then have "commit_command cid rid (getLogSize n) (1 + int ?N) m1 s2 = Answers (?n', s3) a"
    using m1(1-3) loop small by (simp add: commit_command_def commit_and_apply_def)
  then have "handleClientCommand ?net cid rid command key val (n, w) = Answers (?n', (w2, s3)) a"
    using assms(1,2) r(1) w1 by (simp add: handleClientCommand_def Let_def)
  moreover have "\<exists>f f'. fst w p = Some f \<and> w2 p = Some f' \<and> log f' = log f \<and> length (log f') \<le> length (log n)"
    if p: "p \<in> set (peerRpcPorts n)" for p
  proof -
    obtain i where i: "i < ?N" "peerRpcPorts n ! i = p" using p by (auto simp: in_set_conv_nth)
    obtain f where "fst w p = Some f" "ahead_of i n f" using assms(6) i by blast
    then show ?thesis using r(3) [OF i(1)] i(2) w1 by (auto simp: ahead_of_def)
  qed
  ultimately show ?thesis
    by (intro exI [of _ ?n'] exI [of _ "(w2, s3)"] exI [of _ a]) (simp add: n2 persistMetadata_def)
qed

theorem acknowledged_on_leader_only_witness:
  "\<exists>n w. handleClientCommand losing_network ''c'' 1 ''PUT'' ''a'' ''1''
      (demo_leader [], ([5001 \<mapsto> idle_follower, 5002 \<mapsto> idle_follower], empty_store)) =
        Answers (n, w) ''error: not committed'' \<and>
    (\<exists>n' w' a f. handleClientCommand (live_network (\<lambda>_. 0) (\<lambda>_. []) (\<lambda>_. True) ([], []) 0 0)
        ''c'' 2 ''PUT'' ''b'' ''2'' (n, w) = Answers (n', w') a \<and>
      clientLastRequest n' ''c'' = Some 2 \<and> fst w' 5001 = Some f \<and> length (log f) \<le> 1)"
proof -
  let ?m = "appended ''PUT'' ''a'' ''1'' (demo_leader [])"
  let ?n = "\<lambda>m. ?m\<lparr>metrics := m\<rparr>"
  have msg: "client_message 0 i (?n x) = client_message 0 i ?m" for i x
    by (auto simp: client_message_def Let_def getLogTerm_def getLogEntries_def base_index_def split: option.splits)
  obtain f1 s1 r1 where h1: "handle_AppendEntries 0 0 (client_message 0 0 ?m) idle_follower empty_store = (f1, s1, r1)"
    using prod_cases3 by blast
  obtain f2 s2 r2 where h2: "handle_AppendEntries 0 0 (client_message 0 1 ?m) idle_follower s1 = (f2, s2, r2)"
    using prod_cases3 by blast
  have m: "log (?n x) = [demo_entry 1 0 (sendCommand ''PUT'' ''a'' ''1'')]" "currentTerm (?n x) = 1"
    "latestSnapshot (?n x) = None" "nextIndex (?n x) = [0, 0]" "peerRpcPorts (?n x) = [5001, 5002]" for x
    by (simp_all add: demo_leader_defs append_command_def getLogSize_def base_index_def)
  have ahead: "ahead_of 0 (?n x) f1" "ahead_of 1 (?n x) f2" for x
    using idle_takes [OF m(1,2) _ m(3) _ h1 [folded msg [of 0 x]]]
      idle_takes [OF m(1,2) _ m(3) _ h2 [folded msg [of 1 x]]] m(4) by (simp_all add: demo_entry_def)
  let ?w0 = "([5001 \<mapsto> idle_follower, 5002 \<mapsto> idle_follower], empty_store)"
    and ?w1 = "([5001 \<mapsto> f1, 5002 \<mapsto> f2], s2)"
  have up: "\<not> shutdownRequested (demo_leader [])" "\<not> mtxHeld (demo_leader [])"
    by (simp_all add: demo_leader_defs)
  obtain x where round: "client_round losing_network ''PUT'' ''a'' ''1'' (demo_leader []) ?w0 =
      Continues (?n x, ?w1, 1)"
  proof
    show "client_round losing_network ''PUT'' ''a'' ''1'' (demo_leader []) ?w0 =
      Continues (?n ((metrics ?m)\<lparr>appendEntriesSent := 2 + appendEntriesSent (metrics ?m)\<rparr>), ?w1, 1)"
      using h1 h2 msg m up
      by (simp add: upt_rec replicate_to_def losing_network_def live_network_def deliver_append_def
          client_reply_def)
  qed
  have free: "\<not> shutdownRequested (?n x)" "\<not> mtxHeld (?n x)" "client_guard ''c'' 2 (?n x) = None"
    "getLogSize (?n x) = 1"
    by (simp_all add: demo_leader_defs append_command_def client_guard_def getLogSize_def base_index_def)
  have "commit_command ''c'' 1 0 1 (?n x) s2 = Answers (?n x, s2) ''error: not committed''"
    using free(1) m(5) by (simp add: commit_command_def)
  then have first: "handleClientCommand losing_network ''c'' 1 ''PUT'' ''a'' ''1'' (demo_leader [], ?w0) =
      Answers (?n x, ?w1) ''error: not committed''"
    using round up by (simp add: handleClientCommand_def Let_def)
  have peer: "\<exists>f. fst ?w1 (peerRpcPorts (?n x) ! i) = Some f \<and> ahead_of i (?n x) f"
    if i: "i < length (peerRpcPorts (?n x))" for i
  proof -
    consider "i = 0" | "i = 1" using i m(5) by (auto simp: less_Suc_eq)
    then show ?thesis using ahead [of x] m(5) by cases simp_all
  qed
  obtain n' w' a where second: "handleClientCommand (live_network (\<lambda>_. 0) (\<lambda>_. []) (\<lambda>_. True) ([], []) 0 0)
      ''c'' 2 ''PUT'' ''b'' ''2'' (?n x, ?w1) = Answers (n', w') a" "clientLastRequest n' ''c'' = Some 2"
    "\<forall>p \<in> set (peerRpcPorts (?n x)). \<exists>f f'. fst ?w1 p = Some f \<and> fst w' p = Some f' \<and> log f' = log f \<and>
       length (log f') \<le> length (log (?n x))"
    using acknowledged_on_leader_only [OF free(3,2) m(3) _ _ peer, of "\<lambda>_. 0" "\<lambda>_. []" "\<lambda>_. True" "([], [])" 0 0
        "''PUT''" "''b''" "''2''"] m(1,5) by (auto simp: SNAPSHOT_THRESHOLD_def)
  have "\<exists>f. fst w' 5001 = Some f \<and> length (log f) \<le> 1"
    using second(3) m(1,5) by auto
  with first second(1,2) show ?thesis by blast
qed

end
