(* ===== verification/Leader_Sessions.thy ===== *)
theory Leader_Sessions
  imports Client_Facts
begin

text \<open>
  What a client may rely on, request after request: an abstract service with a map, a queue and a
  memory of each client's last request, and the proof that a leader's \<open>handleClientCommand\<close>
  implements it, whatever the network does to the messages, as long as the peers leave the shared
  store alone.
\<close>

section \<open>The service\<close>

text \<open>Client, request number, and the three words of the command line.\<close>

type_synonym command = "string \<times> string \<times> string"
type_synonym request = "string \<times> int \<times> command"

text \<open>
  \<open>queued\<close> holds the commands that were answered with an error and are in the log all the same.
\<close>

record service =
  contents :: "string \<rightharpoonup> string"
  queued :: "command list"
  last_request :: "string \<rightharpoonup> int"
  last_answer :: "string \<rightharpoonup> string"

fun command_effect ::
  "(string \<rightharpoonup> string) \<times> string \<Rightarrow> command \<Rightarrow> (string \<rightharpoonup> string) \<times> string" where
  "command_effect (m, _) (c, k, v) =
     (if c = ''PUT'' then (m(k \<mapsto> v), ''OK'')
      else if c = ''GET'' then (m, case m k of Some v \<Rightarrow> v | None \<Rightarrow> ''key not found'')
      else if c = ''DELETE'' then
        (m(k := None), if m k \<noteq> None then ''OK'' else ''key not found'')
      else (m, ''error: unknown command''))"

text \<open>
  A request that is the client's last one again is answered from memory.  Any other request joins
  the queue; either the whole queue takes effect, in order, and the answer is that of the request,
  or the client is told that it was not committed.
\<close>

inductive serves :: "request \<Rightarrow> service \<Rightarrow> string \<Rightarrow> service \<Rightarrow> bool" where
  repeated: "last_request sp cid = Some rid \<Longrightarrow>
    serves (cid, rid, cmd) sp (case last_answer sp cid of None \<Rightarrow> [] | Some r \<Rightarrow> r) sp"
| committed: "\<lbrakk>last_request sp cid \<noteq> Some rid;
    foldl command_effect (contents sp, []) (queued sp @ [cmd]) = (m, a)\<rbrakk> \<Longrightarrow>
    serves (cid, rid, cmd) sp a
      (sp\<lparr>contents := m, queued := [], last_request := (last_request sp)(cid \<mapsto> rid),
         last_answer := (last_answer sp)(cid \<mapsto> a)\<rparr>)"
| refused: "last_request sp cid \<noteq> Some rid \<Longrightarrow>
    serves (cid, rid, cmd) sp ''error: not committed'' (sp\<lparr>queued := queued sp @ [cmd]\<rparr>)"

section \<open>Runs of a service\<close>

text \<open>Any step relation, over a list of requests with their answers.\<close>

inductive runs ::
  "('r \<Rightarrow> 's \<Rightarrow> 'a \<Rightarrow> 's \<Rightarrow> bool) \<Rightarrow> 'r list \<Rightarrow> 's \<Rightarrow> 'a list \<Rightarrow> 's \<Rightarrow> bool"
  for step :: "'r \<Rightarrow> 's \<Rightarrow> 'a \<Rightarrow> 's \<Rightarrow> bool" where
  runs_Nil: "runs step [] s [] s"
| runs_Cons: "step r s a t \<Longrightarrow> runs step rs t as u \<Longrightarrow> runs step (r # rs) s (a # as) u"

inductive_simps runs_simps: "runs step [] s as u" "runs step (r # rs) s as u"

text \<open>A step relation that implements another one, request by request, does so on every run.\<close>

locale simulation =
  fixes impl :: "'r \<Rightarrow> 's \<Rightarrow> 'a \<Rightarrow> 's \<Rightarrow> bool"
    and spec :: "'q \<Rightarrow> 't \<Rightarrow> 'a \<Rightarrow> 't \<Rightarrow> bool"
    and view :: "'r \<Rightarrow> 'q"
    and ok :: "'r \<Rightarrow> bool"
    and related :: "'t \<Rightarrow> 's \<Rightarrow> bool"
  assumes step_simulated: "\<lbrakk>impl r s a s'; ok r; related t s\<rbrakk> \<Longrightarrow>
    \<exists>t'. spec (view r) t a t' \<and> related t' s'"
begin

lemma runs_simulated:
  "\<lbrakk>runs impl rs s as s'; list_all ok rs; related t s\<rbrakk> \<Longrightarrow>
    \<exists>t'. runs spec (map view rs) t as t' \<and> related t' s'"
proof (induction arbitrary: t rule: runs.induct)
  case (runs_Nil s)
  then show ?case by (auto intro: runs.runs_Nil)
next
  case (runs_Cons r s a s1 rs as s')
  obtain t1 where t1: "spec (view r) t a t1" "related t1 s1"
    using step_simulated [OF runs_Cons.hyps(1)] runs_Cons.prems by auto
  then obtain t' where "runs spec (map view rs) t1 as t'" "related t' s'"
    using runs_Cons.IH [of t1] runs_Cons.prems by auto
  with t1 show ?case by (auto intro: runs.runs_Cons)
qed

end

section \<open>Networks that leave the store alone\<close>

definition quiet :: "'p network \<Rightarrow> bool" where
  "quiet net \<longleftrightarrow>
     (\<forall>port w m. snd (fst (send_append net port w m)) = snd w) \<and>
     (\<forall>port w m. snd (fst (send_install net port w m)) = snd w)"

lemma send_chunks_quiet:
  "\<lbrakk>send_chunks dump_len peer snap bs i cs k n w = (n', w', r);
    \<forall>w m. snd (fst (peer w m)) = snd w\<rbrakk> \<Longrightarrow> snd w' = snd w"
proof (induction dump_len peer snap bs i cs k n w arbitrary: n' w' r rule: send_chunks.induct)
  case (1 dump_len peer snap bs i cs k n w)
  let ?m = "chunk_message n snap bs cs k"
  let ?n = "n\<lparr>metrics := (metrics n)\<lparr>installSnapshotsSent := installSnapshotsSent (metrics n) + 1\<rparr>\<rparr>"
  let ?next = "if is_done ?m then ?n\<lparr>nextIndex := (nextIndex ?n)[i := lastIncludedIndex snap + 1],
      matchIndex := (matchIndex ?n)[i := lastIncludedIndex snap]\<rparr> else ?n"
  obtain q reply where q: "peer w ?m = (q, reply)" by fastforce
  then have sq: "snd q = snd w" using "1.prems"(2) by (metis fst_conv)
  consider "\<not> k < (length bs + cs - 1) div cs"
    | "k < (length bs + cs - 1) div cs" "dump_len ?m > 2040" "cs div 2 = 0"
    | "k < (length bs + cs - 1) div cs" "dump_len ?m > 2040" "cs div 2 \<noteq> 0"
    | "k < (length bs + cs - 1) div cs" "\<not> dump_len ?m > 2040" "reply = Reply True"
    | "k < (length bs + cs - 1) div cs" "\<not> dump_len ?m > 2040" "reply \<noteq> Reply True" by blast
  then show ?case
  proof cases
    case 1
    then show ?thesis using "1.prems"(1) by (subst (asm) send_chunks.simps) (auto simp: Let_def)
  next
    case 2
    then show ?thesis using "1.prems"(1) by (subst (asm) send_chunks.simps) (auto simp: Let_def)
  next
    case 3
    then have "send_chunks dump_len peer snap bs i (cs div 2) 0 n w = (n', w', r)"
      using "1.prems"(1) by (subst (asm) send_chunks.simps) (simp add: Let_def)
    then show ?thesis using "1.IH"(1) [OF refl 3(1) refl 3(2,3)] "1.prems"(2) by blast
  next
    case 4
    then have "send_chunks dump_len peer snap bs i cs (k + 1) ?next q = (n', w', r)"
      using "1.prems"(1) q by (subst (asm) send_chunks.simps) (simp add: Let_def)
    then have "snd w' = snd q"
      using "1.IH"(2) [OF refl 4(1) refl 4(2) q [symmetric] refl, of True] 4(3) "1.prems"(2) by simp
    with sq show ?thesis by simp
  next
    case 5
    then have "w' = q"
      using "1.prems"(1) q
      by (subst (asm) send_chunks.simps) (auto simp: Let_def split: rpc_reply.splits if_splits)
    with sq show ?thesis by simp
  qed
qed

lemma after_refusal_quiet:
  assumes "quiet net"
  shows "snd (fst (snd (result_of (after_refusal net i (n, w, c))))) = snd w"
proof -
  have install: "\<forall>w m. snd (fst (send_install net p w m)) = snd w" for p
    using assms by (simp add: quiet_def)
  have "snd w' = snd w"
    if "send_snapshot (dump_length net) (send_install net p) snap ord i m w = (n', w', r)"
    for p snap ord m n' w' r
    using that install unfolding send_snapshot_def by (rule send_chunks_quiet)
  then show ?thesis
    by (auto simp: after_refusal_def Let_def split: option.splits prod.splits transfer_result.splits)
qed

lemma client_reply_quiet:
  "quiet net \<Longrightarrow> snd (fst (snd (result_of (client_reply net k i reply (n, w, c))))) = snd w"
  by (cases reply) (simp_all add: client_reply_def after_refusal_quiet)

lemma replicate_to_quiet:
  assumes "quiet net"
  shows "snd (fst (snd (result_of (replicate_to net k i (n, w, c))))) = snd w"
proof (cases "shutdownRequested n")
  case True
  then show ?thesis by (simp add: replicate_to_def)
next
  case False
  obtain w1 reply where w1: "send_append net (peerRpcPorts n ! i) w (client_message k i n) = (w1, reply)"
    by fastforce
  then have "snd w1 = snd w" using assms unfolding quiet_def by (metis fst_conv)
  then show ?thesis using False w1 by (simp add: replicate_to_def client_reply_quiet [OF assms])
qed

lemma replicate_all_quiet:
  "quiet net \<Longrightarrow> snd (fst (snd (result_of (replicate_all net k is q)))) = snd (fst (snd q))"
proof (induction "is" arbitrary: q)
  case Nil
  then show ?case by simp
next
  case (Cons i js)
  obtain n w c where q: "q = (n, w, c)" by (metis prod_cases3)
  note one = replicate_to_quiet [OF Cons.prems, of k i n w c]
  show ?case
  proof (cases "replicate_to net k i q")
    case (Continues q')
    then show ?thesis using Cons.IH [OF Cons.prems, of q'] one q by simp
  qed (use one q in simp_all)
qed

section \<open>What the leader has promised and not yet done\<close>

text \<open>The part of the log above \<open>lastApplied\<close>: the service's queue, as text.\<close>

definition queue_text :: "RaftNode \<Rightarrow> string list" where
  "queue_text n = map entry_command (drop (nat (lastApplied n + 1 - base_index n)) (log n))"

definition serving :: "RaftNode \<Rightarrow> bool" where
  "serving n \<longleftrightarrow>
     \<not> shutdownRequested n \<and> length (matchIndex n) = length (peerRpcPorts n) \<and>
     snapshot_index n \<le> lastApplied n \<and> lastApplied n < getLogSize n"

lemma getLogEntries_tail:
  assumes "base_index n \<le> i" "getLogSize n \<le> j"
  shows "getLogEntries i j n = drop (nat (i - base_index n)) (log n)"
  using assms by (auto simp: getLogEntries_def getLogSize_def Let_def)

lemma queue_text_append:
  assumes "serving n"
  shows "queue_text (append_command c n) = queue_text n @ [c]"
proof -
  have "nat (lastApplied n + 1 - base_index n) \<le> length (log n)"
    using assms by (simp add: serving_def getLogSize_def base_index_snapshot nat_le_iff)
  moreover have "base_index (append_command c n) = base_index n" by (simp add: base_index_def)
  ultimately show ?thesis by (simp add: queue_text_def append_command_def)
qed

lemma queue_text_cong:
  "\<lbrakk>log n' = log n; latestSnapshot n' = latestSnapshot n; lastApplied n' = lastApplied n\<rbrakk> \<Longrightarrow>
    queue_text n' = queue_text n"
  by (simp add: queue_text_def base_index_def)

text \<open>A request that went through: the store, the answer, and an empty queue.\<close>

lemma commit_serving:
  assumes c: "commit_and_apply cid rid k n s = Answers (n', s') a" and n: "serving n"
    and k: "k + 1 = getLogSize n"
  shows "serving n'" "queue_text n' = []"
    and "a = snd (run_commands n (queue_text n) (s, []))"
    and "mp s' = mp (fst (run_commands n (queue_text n) (s, [])))"
proof -
  have live: "\<not> shutdownRequested n" using n by (simp add: serving_def)
  let ?n = "n\<lparr>commitIndex := k\<rparr>"
  let ?m = "?n\<lparr>lastApplied := k\<rparr>"
  have sz: "getLogSize ?m = k + 1" "snapshot_index ?m \<le> lastApplied ?m" "base_index ?n = base_index n"
    using n k by (simp_all add: serving_def getLogSize_def base_index_def snapshot_index_def)
  have "pending_commands ?n = queue_text n"
    using n k sz(3) by (simp add: pending_commands_def queue_text_def serving_def base_index_snapshot
        getLogEntries_tail getLogSize_def)
  then show "a = snd (run_commands n (queue_text n) (s, []))"
    and "mp s' = mp (fst (run_commands n (queue_text n) (s, [])))"
    using commit_and_apply_answers(8,9) [OF c live] by simp_all
  define run where "run = run_commands ?n (pending_commands ?n) (s, [])"
  have "max (lastApplied n) k = k" using n k by (simp add: serving_def)
  then have loop: "apply_loop True ?n s [] = (?m, fst run, snd run)"
    using apply_loop_correct [of ?n True s "[]"] live by (simp add: run_def)
  obtain n1 s1 r where snap: "(if int (length (log ?m)) \<ge> SNAPSHOT_THRESHOLD
      then take_snapshot ?m (fst run) else (?m, fst run, None)) = (n1, s1, r)"
    by (metis prod_cases3)
  have "lastApplied n1 = k \<and> getLogSize n1 = k + 1 \<and> snapshot_index n1 \<le> k \<and>
      shutdownRequested n1 = shutdownRequested n \<and> matchIndex n1 = matchIndex n \<and>
      peerRpcPorts n1 = peerRpcPorts n"
  proof (cases "int (length (log ?m)) \<ge> SNAPSHOT_THRESHOLD")
    case True
    then have t: "take_snapshot ?m (fst run) = (n1, s1, r)" using snap by simp
    have below: "lastApplied ?m < getLogSize ?m" using sz(1) by simp
    show ?thesis
      using take_snapshot_log(3) [OF t below] take_snapshot_size [OF t below sz(2)]
        take_snapshot_base(2) [OF t below] take_snapshot_frame [OF t] sz(1) by simp
  next
    case False
    then have "n1 = ?m" using snap by simp
    then show ?thesis using sz(1,2) by simp
  qed
  moreover have "n' = persistMetadata
      (n1\<lparr>clientLastRequest := (clientLastRequest n1)(cid \<mapsto> rid),
         clientResultCache := (clientResultCache n1)(cid \<mapsto> snd run)\<rparr>)"
    using c unfolding commit_and_apply_def loop prod.case snap by (cases r; simp)
  ultimately have n': "lastApplied n' = k" "getLogSize n' = k + 1" "snapshot_index n' \<le> k"
    "\<not> shutdownRequested n'" "matchIndex n' = matchIndex n" "peerRpcPorts n' = peerRpcPorts n"
    using live by (simp_all add: persistMetadata_def getLogSize_def base_index_def snapshot_index_def)
  then show "serving n'" using n by (simp add: serving_def)
  have "nat (lastApplied n' + 1 - base_index n') = length (log n')"
    using n'(1,2) by (simp add: getLogSize_def)
  then show "queue_text n' = []" by (simp add: queue_text_def)
qed

section \<open>The leader implements the service\<close>

fun line :: "command \<Rightarrow> string" where
  "line (c, k, v) = sendCommand c k v"

text \<open>Words the line is taken apart into again.\<close>

fun plain :: "command \<Rightarrow> bool" where
  "plain (c, k, v) \<longleftrightarrow> is_word c \<and> is_word k \<and> newline \<notin> set v"

lemma command_effect_apply:
  assumes "plain cmd" "\<not> shutdownRequested n" "applyToStateMachine n (line cmd) s = (s', r')"
  shows "command_effect (mp s, r) cmd = (mp s', r')"
  using assms by (cases cmd) (auto simp: apply_sendCommand put_def get_def remove_def
      split: if_splits option.splits)

lemma run_plain:
  assumes "list_all plain cs" "\<not> shutdownRequested n"
  shows "run_commands n (map line cs) (s, r) = (s', r') \<Longrightarrow>
    foldl command_effect (mp s, r) cs = (mp s', r')"
  using assms
proof (induction cs arbitrary: s r)
  case (Cons x cs)
  obtain t q where tq: "applyToStateMachine n (line x) s = (t, q)" by fastforce
  show ?case
    using Cons.IH [of t q] Cons.prems tq command_effect_apply [of x n s t q r] by simp
qed simp

lemma round_answers:
  "\<lbrakk>replicate_all net k is (n, w, c) = Answers (n', w', c') a; \<not> shutdownRequested n;
    \<forall>i \<in> set is. i < length (matchIndex n)\<rbrakk> \<Longrightarrow> state n' = FOLLOWER"
proof (induction "is" arbitrary: n w c)
  case (Cons i js)
  show ?case
  proof (cases "replicate_to net k i (n, w, c)")
    case (Continues q)
    obtain n1 w1 c1 where q: "q = (n1, w1, c1)" by (metis prod_cases3)
    have "peer_update {i} n n1"
      using replicate_to_update(1) [of net k i n w c n1 w1 c1] Continues q Cons.prems(3) by simp
    note up = peer_update_fields(1,14) [OF this]
    show ?thesis
      using Cons.IH [of n1 w1 c1] Continues q Cons.prems up by simp
  next
    case (Answers q b)
    then have "q = (n', w', c')" using Cons.prems(1) by simp
    moreover obtain w1 reply m where
      "client_reply net k i reply (n\<lparr>metrics := m\<rparr>, w1, c) = Answers q b"
      using Answers Cons.prems(2) by (auto simp: replicate_to_def split: prod.splits)
    ultimately show ?thesis
      using after_refusal_update(1)
      by (cases reply) (auto simp: client_reply_def after_refusal_def Let_def
          split: if_splits option.splits prod.splits transfer_result.splits)
  qed (use Cons.prems in simp_all)
qed simp

fun answers ::
  "'p network \<times> request \<Rightarrow> RaftNode \<times> ('p \<times> KVStore) \<Rightarrow> string \<Rightarrow>
   RaftNode \<times> ('p \<times> KVStore) \<Rightarrow> bool" where
  "answers (net, (cid, rid, (c, k, v))) q a q' \<longleftrightarrow>
     handleClientCommand net cid rid c k v q = Answers q' a \<and> state (fst q') = LEADER"

fun fair :: "'p network \<times> request \<Rightarrow> bool" where
  "fair (net, (cid, rid, cmd)) \<longleftrightarrow> quiet net \<and> plain cmd"

fun implements :: "service \<Rightarrow> RaftNode \<times> ('p \<times> KVStore) \<Rightarrow> bool" where
  "implements sp (n, (p, s)) \<longleftrightarrow>
     serving n \<and> contents sp = mp s \<and> queue_text n = map line (queued sp) \<and>
     list_all plain (queued sp) \<and> last_request sp = clientLastRequest n \<and>
     last_answer sp = clientResultCache n"

text \<open>After the round, before the commit: the command has joined the queue.\<close>

lemma round_implements:
  assumes r: "client_round net c k v n w = Continues (n1, w1, cnt)"
    and imp: "implements sp (n, w)" and fair: "fair (net, (cid, rid, (c, k, v)))"
  shows "implements (sp\<lparr>queued := queued sp @ [(c, k, v)]\<rparr>) (n1, w1)"
    and "getLogSize n + 1 = getLogSize n1"
proof -
  obtain p s p1 s1 where w: "w = (p, s)" "w1 = (p1, s1)" by fastforce
  let ?a = "appended c k v n"
  note I = imp [unfolded w implements.simps] and len = imp [unfolded w implements.simps serving_def]
  have "peer_update {0..<length (peerRpcPorts n)} ?a n1"
    by (rule client_round_update(1) [OF r]) (use len in blast)
  note up = peer_update_fields [OF this]
  have a: "getLogSize ?a = getLogSize n + 1" by (rule append_command_view(2))
  have sizes: "getLogSize n1 = getLogSize ?a" "snapshot_index n1 = snapshot_index n"
    using up(2,5) by (simp_all add: getLogSize_def base_index_def snapshot_index_def)
  then show "getLogSize n + 1 = getLogSize n1" using a by simp
  have "queue_text n1 = queue_text ?a" by (rule queue_text_cong [OF up(2,5,9)])
  also have "\<dots> = queue_text n @ [sendCommand c k v]"
    by (rule queue_text_append) (use I in blast)
  finally have q: "queue_text n1 = map line (queued sp @ [(c, k, v)])" using I by simp
  have "serving n1" using len sizes a up(1,6,9,14) by (simp add: serving_def)
  moreover have "s1 = s"
    using replicate_all_quiet [of net "getLogSize n" "[0..<length (peerRpcPorts n)]" "(?a, w, 1)"]
      fair r w by simp
  ultimately show "implements (sp\<lparr>queued := queued sp @ [(c, k, v)]\<rparr>) (n1, w1)"
    using I q fair up(10,11) by (simp add: w)
qed

lemma commit_implements:
  assumes c: "commit_and_apply cid rid k n s = Answers (n', s') a"
    and imp: "implements sp (n, (p, s))" and k: "k + 1 = getLogSize n"
    and eff: "foldl command_effect (contents sp, []) (queued sp) = (m, b)"
  shows "a = b" "implements (sp\<lparr>contents := m, queued := [],
    last_request := (last_request sp)(cid \<mapsto> rid), last_answer := (last_answer sp)(cid \<mapsto> b)\<rparr>)
    (n', (p, s'))"
proof -
  note I = imp [unfolded implements.simps]
  have serving: "serving n" and live: "\<not> shutdownRequested n" and words: "list_all plain (queued sp)"
    using I by (simp_all add: serving_def)
  note done' = commit_serving [OF c serving k]
  note tab = commit_and_apply_answers(1,2) [OF c live]
  obtain t r where run: "run_commands n (queue_text n) (s, []) = (t, r)" by fastforce
  have "foldl command_effect (mp s, []) (queued sp) = (mp t, r)"
    by (rule run_plain [OF words live]) (use run I in simp)
  then have mb: "m = mp t" "b = r" using eff I by simp_all
  then show "a = b" using done'(3) run by simp
  then show "implements (sp\<lparr>contents := m, queued := [],
    last_request := (last_request sp)(cid \<mapsto> rid), last_answer := (last_answer sp)(cid \<mapsto> b)\<rparr>)
    (n', (p, s'))"
    using done' tab I run mb by simp
qed

lemma answers_serves:
  assumes "answers (net, r) q a q'" "fair (net, r)" "implements sp q"
  shows "\<exists>sp'. serves r sp a sp' \<and> implements sp' q'"
proof -
  obtain cid rid c k v where r: "r = (cid, rid, (c, k, v))" by (metis prod.exhaust)
  obtain n p s n' p' s' where q: "q = (n, (p, s))" "q' = (n', (p', s'))" by (metis prod.exhaust)
  have h: "handleClientCommand net cid rid c k v (n, (p, s)) = Answers (n', (p', s')) a"
    and L: "state n' = LEADER" using assms(1) by (simp_all add: r q)
  note I = assms(3) [unfolded q implements.simps]
  have live: "\<not> shutdownRequested n" and idx: "length (matchIndex n) = length (peerRpcPorts n)"
    using I by (simp_all add: serving_def)
  show ?thesis
  proof (cases "client_guard cid rid n")
    case (Some b)
    then have eq: "n' = n" "p' = p" "s' = s" "a = b" using h by (simp_all add: handleClientCommand_def)
    then have "last_request sp cid = Some rid"
      "a = (case last_answer sp cid of None \<Rightarrow> [] | Some r \<Rightarrow> r)"
      using Some L live I by (auto simp: client_guard_def split: if_splits)
    then have "serves r sp a sp" unfolding r by (auto intro: serves.repeated)
    then show ?thesis using assms(3) eq q by blast
  next
    case None
    then have fresh: "last_request sp cid \<noteq> Some rid" and free: "\<not> mtxHeld n"
      using h I by (auto simp: client_guard_def handleClientCommand_def split: if_splits)
    note h' = h [unfolded handleClientCommand_def prod.case None option.case Let_def if_not_P [OF free]]
    let ?round = "client_round net c k v n (p, s)"
    let ?sp = "sp\<lparr>queued := queued sp @ [(c, k, v)]\<rparr>"
    show ?thesis
    proof (cases ?round)
      case (Answers z b)
      obtain n2 w2 c2 where z: "z = (n2, w2, c2)" by (metis prod_cases3)
      have "state n2 = FOLLOWER"
        by (rule round_answers [OF Answers [unfolded z]]) (use live idx in simp_all)
      moreover have "n' = n2" using h' Answers z by simp
      ultimately have "state n' = FOLLOWER" by simp
      then show ?thesis using L by simp
    next
      case (Continues z)
      obtain n1 p1 s1 cnt where z: "z = (n1, (p1, s1), cnt)" by (metis prod.exhaust)
      note round = round_implements [OF Continues [unfolded z] assms(3) [unfolded q(1)] assms(2) [unfolded r]]
      have live1: "\<not> shutdownRequested n1" using round(1) by (simp add: serving_def)
      show ?thesis
      proof (cases "getLogTerm (getLogSize n) n1 = currentTerm n1 \<and>
          cnt > int ((length (peerRpcPorts n1) + 1) div 2)")
        case True
        have com: "commit_and_apply cid rid (getLogSize n) n1 s1 = Answers (n', s') a" "p' = p1"
          using h' Continues z True live1
          by (auto simp: commit_command_def split: if_splits client_result.splits)
        obtain m b where eff: "foldl command_effect (contents sp, []) (queued sp @ [(c, k, v)]) = (m, b)"
          by fastforce
        note fin = commit_implements [OF com(1) round(1,2), of m b]
        have "serves r sp b (sp\<lparr>contents := m, queued := [],
            last_request := (last_request sp)(cid \<mapsto> rid), last_answer := (last_answer sp)(cid \<mapsto> b)\<rparr>)"
          unfolding r by (rule serves.committed [OF fresh eff])
        then show ?thesis using fin eff com(2) q by auto
      next
        case False
        then have "n' = n1" "p' = p1" "s' = s1" "a = ''error: not committed''"
          using h' Continues z live1 by (auto simp: commit_command_def split: if_splits)
        then show ?thesis using round(1) q r serves.refused [OF fresh] by blast
      qed
    qed (use h' in \<open>auto split: prod.splits\<close>)
  qed
qed

interpretation leader: simulation answers serves snd fair implements
proof (unfold_locales, goal_cases)
  case (1 r s a s' t)
  then show ?case using answers_serves [of "fst r" "snd r" s a s' t] by simp
qed

text \<open>A leader with nothing in flight, and the service it starts as.\<close>

definition service_of :: "RaftNode \<Rightarrow> KVStore \<Rightarrow> service" where
  "service_of n s = \<lparr>contents = mp s, queued = [], last_request = clientLastRequest n,
     last_answer = clientResultCache n\<rparr>"

lemma implements_service_of:
  assumes "serving n" "lastApplied n + 1 = getLogSize n"
  shows "implements (service_of n s) (n, (p, s))"
  using assms by (simp add: service_of_def queue_text_def getLogSize_def)

section \<open>A request that is refused and tried again\<close>

inductive_cases serves_E: "serves (cid, rid, cmd) sp a sp'"

lemma serves_refused:
  assumes "serves (cid, rid, (''DELETE'', k, v)) sp ''error: not committed'' sp'"
    and "last_request sp cid \<noteq> Some rid"
  shows "sp' = sp\<lparr>queued := queued sp @ [(''DELETE'', k, v)]\<rparr>"
  using assms
  by (cases "foldl command_effect (contents sp, []) (queued sp)")
    (auto elim!: serves_E split: if_splits)

lemma serves_again:
  assumes "serves (cid, rid, (''DELETE'', k, v)) sp a sp'" "last_request sp cid \<noteq> Some rid"
    and "last_request sp' cid = Some rid" "queued sp = cs @ [(''DELETE'', k, v)]"
  shows "a = ''key not found'' \<and> contents sp' k = None"
  using assms
  by (cases "foldl command_effect (contents sp, []) cs") (auto elim!: serves_E)

section \<open>What a new leader remembers\<close>

text \<open>
  The tables are not replicated: a node that has taken over every entry of a leader does not know
  which requests they came from, so a request repeated after a change of leaders is not recognised.
\<close>

lemma follower_tables:
  assumes "ae_normal r n" "handle_AppendEntries now rnd r n s = (n', s', reply)"
  shows "clientLastRequest n' = clientLastRequest n" "clientResultCache n' = clientResultCache n"
    and "shutdownRequested n' = shutdownRequested n"
proof -
  let ?a = "ae_appended now rnd r n"
  obtain l where "append_entries r (ae_received now rnd r n) = (ae_received now rnd r n)\<lparr>log := l\<rparr>"
    using append_entries_log by blast
  then have a: "clientLastRequest ?a = clientLastRequest n" "clientResultCache ?a = clientResultCache n"
    "shutdownRequested ?a = shutdownRequested n"
    by (simp_all add: ae_appended_def persistMetadata_def ae_received_def)
  have len: "int (length (log ?a)) < SNAPSHOT_THRESHOLD"
    using assms(1) append_entries_length [of r "ae_received now rnd r n"]
    by (auto simp: ae_normal_def ae_appended_def)
  have pre: "\<not> mtxHeld n" "\<not> receivingSnapshot n" "ae_term r = currentTerm n"
    "state n \<noteq> CANDIDATE"
    using assms(1) by (simp_all add: ae_normal_def)
  obtain n3 t x where ac: "advance_commit (ae_leaderCommit r) ?a s = (n3, t, x)"
    using prod_cases3 by blast
  have kept: "clientLastRequest n3 = clientLastRequest ?a" "clientResultCache n3 = clientResultCache ?a"
    "shutdownRequested n3 = shutdownRequested ?a" "x = None"
    by (rule advance_commit_cases [OF ac len]; simp)+
  have "n' = release (if consistency_check r n then n3 else ?a)"
    using assms(2) ac kept(4)
    by (simp add: handle_AE_normal [OF pre, unfolded Let_def, folded ae_appended_def] split: if_splits)
  then show "clientLastRequest n' = clientLastRequest n" "clientResultCache n' = clientResultCache n"
    and "shutdownRequested n' = shutdownRequested n"
    using a kept by (simp_all add: release_def)
qed

lemma failover_forgets:
  assumes "ae_normal r n" "handle_AppendEntries now rnd r n s = (n', s', reply)"
    and "clientLastRequest n cid \<noteq> Some rid" "\<not> shutdownRequested n"
  shows "client_guard cid rid (n'\<lparr>state := LEADER, currentTerm := t\<rparr>) = None"
  using follower_tables [OF assms(1,2)] assms(3,4) by (simp add: client_guard_def)

section \<open>Runs of the handler\<close>

definition silent_network :: "'p network" where
  "silent_network = agreeing_network\<lparr>send_append := \<lambda>_ w _. (w, No_Reply)\<rparr>"

lemma quiet_networks [simp]: "quiet agreeing_network" "quiet silent_network"
  by (simp_all add: quiet_def silent_network_def agreeing_network_def)

lemma silent_refuses:
  "\<exists>m. handleClientCommand silent_network cid rid c k v (demo_leader lg, w) =
    Answers ((demo_leader (log (appended c k v (demo_leader lg))))\<lparr>metrics := m\<rparr>, w)
      ''error: not committed''"
  by (cases w) (simp add: handleClientCommand_def demo_leader_defs silent_network_def agreeing_network_def
      append_command_def replicate_to_def client_reply_def commit_command_def client_guard_def
      Let_def upt_rec)

lemma recorded_leads:
  assumes "client_guard cid rid n = None" "length (matchIndex n) = length (peerRpcPorts n)"
    and "handleClientCommand net cid rid command key val (n, w) = Answers (n', w') a"
    and "clientLastRequest n' cid = Some rid"
  shows "state n' = LEADER"
proof -
  obtain n1 p1 s1 c where c: "client_round net command key val n w = Continues (n1, (p1, s1), c)"
    "commit_and_apply cid rid (getLogSize n) n1 s1 = Answers (n', snd w') a" "\<not> shutdownRequested n1"
    by (rule handle_committed [OF assms(1,3,4)])
  have "state n1 = state n"
    using peer_update_fields(4) [OF client_round_update(1) [OF c(1) assms(2)]] by simp
  then show ?thesis
    using commit_and_apply_answers(3) [OF c(2,3)] assms(1) by (simp add: client_guard_def split: if_splits)
qed

lemma demo_leader_serving:
  assumes "length lg = 1"
  shows "serving (demo_leader lg)" "lastApplied (demo_leader lg) + 1 = getLogSize (demo_leader lg)"
    "state (demo_leader lg) = LEADER"
  using assms by (simp_all add: serving_def demo_leader_defs getLogSize_def base_index_def snapshot_index_def)

section \<open>Properties\<close>



text \<open>
  C11: A deletion that was refused and is sent again, as \<open>sendClientRequest\<close> does with the same
  request number, is answered with \<open>key not found\<close> even when the key was there: the refused entry
  stayed in the log, the request was not recorded, and both entries are applied.
\<close>

theorem retried_delete_misreports:
  assumes "runs answers [(net1, (cid, rid, (''DELETE'', k, v))), (net2, (cid, rid, (''DELETE'', k, v)))]
      (n, (p, s)) [''error: not committed'', a] (n', (p', s'))"
    and "quiet net1" "quiet net2" "is_word k" "newline \<notin> set v"
    and "serving n" "lastApplied n + 1 = getLogSize n"
    and "clientLastRequest n cid \<noteq> Some rid" "clientLastRequest n' cid = Some rid"
  shows "a = ''key not found'' \<and> get k s' = None"
proof -
  let ?d = "(''DELETE'', k, v)" and ?sp = "service_of n s"
  have "list_all fair [(net1, (cid, rid, ?d)), (net2, (cid, rid, ?d))]"
    using assms(2-5) by (simp add: is_word_verbs)
  from leader.runs_simulated [OF assms(1) this implements_service_of [OF assms(6,7)]]
  obtain sp' where sp': "runs serves [(cid, rid, ?d), (cid, rid, ?d)] ?sp [''error: not committed'', a] sp'"
    "implements sp' (n', (p', s'))" by auto
  obtain sp1 where sp1: "serves (cid, rid, ?d) ?sp ''error: not committed'' sp1"
    "serves (cid, rid, ?d) sp1 a sp'"
    using sp'(1) by (auto simp: runs_simps)
  have "sp1 = ?sp\<lparr>queued := queued ?sp @ [?d]\<rparr>"
    by (rule serves_refused [OF sp1(1)]) (use assms(8) in \<open>simp add: service_of_def\<close>)
  then have "a = ''key not found'' \<and> contents sp' k = None"
    by (intro serves_again [OF sp1(2), of "[]"])
      (use assms(8,9) sp'(2) in \<open>simp_all add: service_of_def\<close>)
  then show ?thesis using sp'(2) by (simp add: get_def)
qed

theorem retried_delete_misreports_witness:
  "\<exists>n1 n' s'. handleClientCommand silent_network ''c'' 7 ''DELETE'' ''k'' []
      (demo_leader [demo_entry 1 0 ''GET x ''], ((), put ''k'' ''v'' empty_store)) =
        Answers (n1, ((), put ''k'' ''v'' empty_store)) ''error: not committed'' \<and>
    handleClientCommand agreeing_network ''c'' 7 ''DELETE'' ''k'' []
      (n1, ((), put ''k'' ''v'' empty_store)) = Answers (n', ((), s')) ''key not found''"
proof -
  let ?lg = "[demo_entry 1 0 ''GET x '']" and ?s = "put ''k'' ''v'' empty_store"
  let ?lg' = "log (appended ''DELETE'' ''k'' [] (demo_leader ?lg))" and ?d = "(''DELETE'', ''k'', [])"
  obtain m where h1: "handleClientCommand silent_network ''c'' 7 ''DELETE'' ''k'' [] (demo_leader ?lg, ((), ?s)) =
      Answers ((demo_leader ?lg')\<lparr>metrics := m\<rparr>, ((), ?s)) ''error: not committed''"
    using silent_refuses by blast
  let ?n1 = "(demo_leader ?lg')\<lparr>metrics := m\<rparr>"
  have "length ?lg' < 2999" by (simp add: append_command_def demo_leader_defs)
  then obtain n' w' a where h2: "handleClientCommand agreeing_network ''c'' 7 ''DELETE'' ''k'' [] (?n1, ((), ?s)) =
      Answers (n', w') a" "clientLastRequest n' ''c'' = Some 7"
    by (rule agreeing_answers_metrics)
  obtain s' where w': "w' = ((), s')" by (cases w') simp
  have "length (matchIndex ?n1) = length (peerRpcPorts ?n1)" "state ?n1 = LEADER"
    by (simp_all add: demo_leader_defs)
  moreover have "state n' = LEADER"
    by (rule recorded_leads [OF demo_leader_guard(1) _ h2]) (use calculation in simp)
  ultimately have r: "runs answers [(silent_network, (''c'', 7, ?d)), (agreeing_network, (''c'', 7, ?d))]
      (demo_leader ?lg, ((), ?s)) [''error: not committed'', a] (n', ((), s'))"
    using h1 h2(1) w' by (simp add: runs_simps)
  have "is_word ''k''" by code_simp
  moreover have "clientLastRequest (demo_leader ?lg) ''c'' \<noteq> Some 7" by (simp add: demo_leader_defs)
  ultimately have "a = ''key not found''"
    using retried_delete_misreports [OF r _ _ _ _ demo_leader_serving(1,2) _ h2(2)] by simp
  then show ?thesis using h1 h2(1) w' by blast
qed

end
