(* ===== verification/Shared_Store.thy ===== *)
theory Shared_Store
  imports Leader_Sessions Catch_Up
begin

text \<open>
  \<open>kvstore_global.h\<close> declares one \<open>store\<close> for the process, so the leader and its followers apply
  their logs to the same map.  A follower that catches up applies old entries to it after the leader
  has applied newer ones.
\<close>

section \<open>A follower more than a batch behind\<close>

text \<open>\<open>f\<close> has the first \<open>k\<close> entries, the leader knows, and the next batch is full.\<close>

definition lags :: "nat \<Rightarrow> nat \<Rightarrow> RaftNode \<Rightarrow> RaftNode \<Rightarrow> bool" where
  "lags i k n f \<longleftrightarrow>
     follows n f \<and> leads i n \<and> nextIndex n ! i = int k \<and> log f = take k (log n) \<and>
     k + 20 < length (log n) \<and> int k + 19 \<le> commitIndex n \<and>
     \<not> shutdownRequested f \<and> commitIndex f < int k + 19 \<and> lastApplied f < int k + 19"

text \<open>The last command of the batch is the last the store sees.\<close>

lemma lagging_applies:
  assumes lag: "lags i k n f"
    and h: "handle_AppendEntries now rnd (heartbeat_message i n) f s = (f', s', reply)"
  shows "\<exists>t. s' = fst (applyToStateMachine f (entry_command (log n ! (k + 19))) t)"
proof -
  let ?r = "heartbeat_message i n" and ?L = "log n"
  have fol: "follows n f" and L: "nextIndex n ! i = int k" "log f = take k ?L" "k + 20 < length ?L"
    and com: "int k + 19 \<le> commitIndex n" "commitIndex f < int k + 19" "lastApplied f < int k + 19"
    and live: "\<not> shutdownRequested f"
    using lag by (simp_all add: lags_def)
  have k: "k \<le> length ?L" using L(3) by simp
  have snap: "latestSnapshot n = None" "latestSnapshot f = None" using fol by (simp_all add: follows_def)
  have M: "common_len ?L (log f) = k"
    using common_len_prefix [of ?L k] L(2) k by simp
  note batch = plain_batch [OF snap(1) L(1) k]
  note st = follower_step [OF fol L(1) k h, unfolded M]
  have log': "log f' = take (k + 20) ?L" using st(2) L(3) by simp
  have normal: "ae_normal ?r f" using fol by (auto simp: follows_def ae_normal_def batch)
  note res = handle_AE_result [OF normal h]
  have ok: "consistency_check ?r f" using res(1) st(1) by simp
  have lc: "ae_leaderCommit ?r = commitIndex n" by (simp add: heartbeat_message_def Let_def)
  have snap': "latestSnapshot f' = None" using res(3) snap(2) by simp
  have c': "commitIndex f' = int k + 19"
    using res(10) ok lc com plain_log(2) [OF snap'] log' L(3) by simp
  have "int k + 20 = commitIndex f' + 1" using c' by simp
  have len: "length (log f') = k + 20" using log' L(3) by simp
  let ?a = "lastApplied f + 1"
  have "getLogEntries ?a (commitIndex f' + 1) f' = drop (nat ?a) (log f')"
    using com(3) len c'
    by (cases "0 \<le> ?a") (auto simp: getLogEntries_def plain_log [OF snap'] Let_def nat_less_iff)
  moreover have "nat ?a \<le> k + 19" using com(3) by simp
  then have "drop (nat ?a) (log f') = drop (nat ?a) (take (k + 19) ?L) @ [?L ! (k + 19)]"
    using take_Suc_conv_app_nth [of "k + 19" ?L] log' L(3) by (simp add: numeral_eq_Suc)
  ultimately have pend: "map entry_command (getLogEntries ?a (commitIndex f' + 1) f') =
      map entry_command (drop (nat ?a) (take (k + 19) ?L)) @ [entry_command (?L ! (k + 19))]"
    by simp
  have gt: "ae_leaderCommit ?r > commitIndex f" using lc com by simp
  note app = handle_AE_applies(1) [OF normal h ok gt live, unfolded pend run_commands_append]
  obtain t r where "run_commands f (map entry_command (drop (nat ?a) (take (k + 19) ?L))) (s, []) = (t, r)"
    by fastforce
  then show ?thesis using app by auto
qed

text \<open>The whole exchange, on a process whose nodes share the store.\<close>

lemma lagging_exchange:
  assumes lag: "lags i k n f" and f: "nodes (peerRpcPorts n ! i) = Some f"
    and old: "entry_command (log n ! (k + 19)) = sendCommand ''PUT'' key old" "plain (''PUT'', key, old)"
  obtains n' nodes' s' where
    "heartbeat_to (live_network dl ord alloc junk now rnd) t i (n, (nodes, s)) =
       Next_Peer (n', (nodes', s'))"
    "get key s' = Some old" "peer_update {i} n n'"
proof -
  let ?net = "live_network dl ord alloc junk now rnd" and ?r = "heartbeat_message i n"
  let ?m = "n\<lparr>metrics := (metrics n)\<lparr>appendEntriesSent := appendEntriesSent (metrics n) + 1\<rparr>\<rparr>"
  let ?n = "?m\<lparr>nextIndex := (nextIndex ?m)[i := int k + 20], matchIndex := (matchIndex ?m)[i := int k + 20 - 1]\<rparr>"
  have fol: "follows n f" and L: "nextIndex n ! i = int k" "log f = take k (log n)" "k + 20 < length (log n)"
    and run: "runningHeartbeats n" "\<not> shutdownRequested n" and live: "\<not> shutdownRequested f"
    using lag by (simp_all add: lags_def leads_def)
  have k: "k \<le> length (log n)" and snap: "latestSnapshot n = None"
    using L(3) fol by (simp_all add: follows_def)
  note batch = plain_batch [OF snap L(1) k]
  obtain f' s' reply where h: "handle_AppendEntries now rnd ?r f s = (f', s', reply)"
    using prod_cases3 by blast
  obtain u where u: "s' = fst (applyToStateMachine f (entry_command (log n ! (k + 19))) u)"
    using lagging_applies [OF lag h] by blast
  then have get: "get key s' = Some old"
    using old live apply_sendCommand [of "''PUT''" key old f u] by (simp add: get_def put_def)
  have "common_len (log n) (log f) = k" using common_len_prefix [of "log n" k] L(2) k by simp
  then have reply: "reply = AE_Reply \<lparr>aer_term = currentTerm n, aer_success = True\<rparr>"
    using follower_step(1) [OF fol L(1) k h] by simp
  have "int (length (ae_entries ?r)) = 20" using batch(1) L(3) by simp
  then have "heartbeat_reply t i (nextIndex n ! i) (int (length (ae_entries ?r)))
      (read_append_reply reply) ?m = Next_Peer ?n"
    using run L(1) by (simp add: heartbeat_reply_def read_append_reply_def reply)
  moreover have "send_append ?net (peerRpcPorts n ! i) (nodes, s) ?r =
      ((nodes(peerRpcPorts n ! i \<mapsto> f'), s'), read_append_reply reply)"
    by (simp add: live_network_def deliver_append_def f h)
  ultimately have "heartbeat_to ?net t i (n, (nodes, s)) =
      Next_Peer (?n, (nodes(peerRpcPorts n ! i \<mapsto> f'), s'))"
    using run snap by (simp add: heartbeat_to_def exchange_batch_def Let_def)
  moreover have "peer_update {i} n ?m" by (rule peer_update_metrics) simp
  then have "peer_update {i} n ?n" using peer_update_set by (rule peer_update_trans)
  ultimately show thesis using that get by blast
qed

section \<open>The clients' view\<close>

text \<open>A leader with nothing in flight stays one through an exchange.\<close>

lemma peer_update_serving:
  assumes "peer_update I n n'" "serving n" "lastApplied n + 1 = getLogSize n"
  shows "serving n'" "lastApplied n' + 1 = getLogSize n'"
  using peer_update_fields [OF assms(1)] assms(2,3)
  by (simp_all add: serving_def getLogSize_def base_index_def snapshot_index_def)

lemma committed_settled:
  assumes "client_guard cid rid n = None" "serving n" "lastApplied n + 1 = getLogSize n"
    and "handleClientCommand net cid rid c k v (n, w) = Answers (n', w') a"
    and "clientLastRequest n' cid = Some rid"
  shows "serving n'" "lastApplied n' + 1 = getLogSize n'"
proof -
  have idx: "length (matchIndex n) = length (peerRpcPorts n)" using assms(2) by (simp add: serving_def)
  obtain n1 p1 s1 cnt where c: "client_round net c k v n w = Continues (n1, (p1, s1), cnt)"
    "commit_and_apply cid rid (getLogSize n) n1 s1 = Answers (n', snd w') a"
    by (rule handle_committed [OF assms(1,4,5)])
  note up = peer_update_fields [OF client_round_update(1) [OF c(1) idx]]
  have a: "getLogSize (appended c k v n) = getLogSize n + 1" by (rule append_command_view(2))
  have sizes: "getLogSize n1 = getLogSize (appended c k v n)" "snapshot_index n1 = snapshot_index n"
    using up(2,5) by (simp_all add: getLogSize_def base_index_def snapshot_index_def)
  have "serving n1" using assms(2) sizes a up(1,6,9,14) by (simp add: serving_def)
  note fin = commit_serving [OF c(2) this]
  show "serving n'" using fin(1) sizes a by simp
  moreover have "queue_text n' = []" using fin(2) sizes a by simp
  ultimately show "lastApplied n' + 1 = getLogSize n'"
    by (auto simp: queue_text_def serving_def getLogSize_def base_index_snapshot)
qed

text \<open>A committed read by a leader with nothing in flight returns what the store holds.\<close>

lemma committed_get:
  assumes "client_guard cid rid n = None" "serving n" "lastApplied n + 1 = getLogSize n"
    and "quiet net" "handleClientCommand net cid rid ''GET'' k v (n, (p, s)) = Answers (n', w') a"
    and "clientLastRequest n' cid = Some rid" "is_word k" "newline \<notin> set v" "get k s = Some x"
  shows "a = x"
proof -
  let ?r = "(cid, rid, (''GET'', k, v))"
  have idx: "length (matchIndex n) = length (peerRpcPorts n)" using assms(2) by (simp add: serving_def)
  have "state n' = LEADER" by (rule recorded_leads [OF assms(1) idx assms(5,6)])
  then have "runs answers [(net, ?r)] (n, (p, s)) [a] (n', w')" using assms(5) by (simp add: runs_simps)
  then obtain sp' where sp': "runs serves [?r] (service_of n s) [a] sp'" "implements sp' (n', w')"
    using leader.runs_simulated [OF _ _ implements_service_of [OF assms(2,3)]] assms(4,7,8) by fastforce
  have "clientLastRequest n cid \<noteq> Some rid" using assms(1) by (auto simp: client_guard_def split: if_splits)
  moreover have "last_request sp' cid = Some rid" using sp'(2) assms(6) by (cases w') simp
  ultimately show ?thesis
    using sp'(1) assms(9) by (auto simp: runs_simps service_of_def get_def elim!: serves_E split: option.splits)
qed

section \<open>A write that is lost from sight\<close>

text \<open>
  C9: An acknowledged write can be undone in the store by a follower that catches up: a \<open>PUT\<close> is
  answered \<open>OK\<close> and the store holds the new value; then one heartbeat brings a full batch of older
  entries to a lagging follower, which applies them to the same store, and every committed \<open>GET\<close>
  after that returns the older value.
\<close>

theorem acknowledged_put_undone:
  assumes "client_guard cid rid n0 = None" "serving n0" "lastApplied n0 + 1 = getLogSize n0"
    and "handleClientCommand net cid rid ''PUT'' key new (n0, w0) = Answers (n, (nodes, s)) a"
    and "clientLastRequest n cid = Some rid"
    and "plain (''PUT'', key, new)" "plain (''PUT'', key, old)"
    and "lags i k n f" "nodes (peerRpcPorts n ! i) = Some f"
    and "entry_command (log n ! (k + 19)) = sendCommand ''PUT'' key old"
  shows "a = ''OK'' \<and> get key s = Some new \<and>
    (\<exists>n' nodes' s'. heartbeat_to (live_network dl ord alloc junk now rnd) t i (n, (nodes, s)) =
        Next_Peer (n', (nodes', s')) \<and> get key s' = Some old \<and>
      (\<forall>net' cid' rid' v n2 w2 b. quiet net' \<and> newline \<notin> set v \<and> client_guard cid' rid' n' = None \<and>
        handleClientCommand net' cid' rid' ''GET'' key v (n', (nodes', s')) = Answers (n2, w2) b \<and>
        clientLastRequest n2 cid' = Some rid' \<longrightarrow> b = old))"
proof -
  obtain n' nodes' s' where x:
    "heartbeat_to (live_network dl ord alloc junk now rnd) t i (n, (nodes, s)) = Next_Peer (n', (nodes', s'))"
    "get key s' = Some old" "peer_update {i} n n'"
    by (rule lagging_exchange [of i k n f nodes key old, OF assms(8-10,7)])
  have idx: "length (matchIndex n0) = length (peerRpcPorts n0)" using assms(2) by (simp add: serving_def)
  have put: "a = ''OK''" "get key s = Some new"
    using client_put [OF assms(1) idx assms(4,5,3)] assms(6) by simp_all
  note settled = peer_update_serving [OF x(3) committed_settled [OF assms(1-5)]]
  have word: "is_word key" using assms(6) by simp
  have "b = old" if "quiet net'" "newline \<notin> set v" "client_guard cid' rid' n' = None"
    "handleClientCommand net' cid' rid' ''GET'' key v (n', (nodes', s')) = Answers (n2, w2) b"
    "clientLastRequest n2 cid' = Some rid'" for net' cid' rid' v n2 w2 b
    by (rule committed_get [OF that(3) settled that(1,4,5) word that(2) x(2)])
  with x(1,2) put show ?thesis by blast
qed

section \<open>A run\<close>

text \<open>Port 5001 is cut off, 5002 accepts everything.\<close>

definition half_network :: "'p network" where
  "half_network = agreeing_network\<lparr>send_append := \<lambda>port w m.
     (w, if port = 5002 then Reply \<lparr>aer_term = ae_term m, aer_success = True\<rparr> else No_Reply)\<rparr>"

text \<open>Twenty-one entries, each a \<open>PUT k 1\<close>; the follower has the first.\<close>

definition long_leader :: RaftNode where
  "long_leader = (demo_leader (map (\<lambda>j. demo_entry 1 (int j) ''PUT k 1'') [0..<21]))
     \<lparr>runningHeartbeats := True, nextIndex := [1, 21], commitIndex := 20, lastApplied := 20\<rparr>"

definition late_follower :: RaftNode where
  "late_follower = demo_node\<lparr>currentTerm := 1, log := [demo_entry 1 0 ''PUT k 1'']\<rparr>"

lemma long_leader_put:
  obtains n' s' a where
    "handleClientCommand half_network ''c'' 7 ''PUT'' ''k'' ''2'' (long_leader, (p, s)) = Answers (n', (p, s')) a"
    "clientLastRequest n' ''c'' = Some 7" "log n' = log long_leader @ [demo_entry 1 21 ''PUT k 2'']"
    "nextIndex n' = [1, 22]" "commitIndex n' = 21" "runningHeartbeats n'" "\<not> shutdownRequested n'"
    "latestSnapshot n' = None" "currentTerm n' = 1" "peerRpcPorts n' = [5001, 5002]"
proof -
  let ?e = "demo_entry 1 21 ''PUT k 2''" and ?w = "(p, s)"
  have basic: "length (log long_leader) = 21" "latestSnapshot long_leader = None"
    "peerRpcPorts long_leader = [5001, 5002]" "currentTerm long_leader = 1" "\<not> mtxHeld long_leader"
    "\<not> shutdownRequested long_leader" "client_guard ''c'' 7 long_leader = None"
    "nextIndex long_leader = [1, 21]" "runningHeartbeats long_leader" "matchIndex long_leader = [- 1, - 1]"
    by (simp_all add: long_leader_def demo_leader_defs client_guard_def)
  have size: "getLogSize long_leader = 21" using basic by (simp add: getLogSize_def base_index_def)
  have app: "appended ''PUT'' ''k'' ''2'' long_leader = long_leader\<lparr>log := log long_leader @ [?e]\<rparr>"
    using size basic by (simp add: append_command_def sendCommand_def demo_entry_def)
  obtain m where r: "client_round half_network ''PUT'' ''k'' ''2'' long_leader ?w =
      Continues (long_leader\<lparr>log := log long_leader @ [?e], metrics := m,
        nextIndex := [1, 22], matchIndex := [- 1, 21]\<rparr>, ?w, 2)"
    unfolding app size using basic
    by (simp add: upt_rec half_network_def agreeing_network_def replicate_to_def client_message_def
        client_reply_def Let_def)
  define n1 where "n1 = long_leader\<lparr>log := log long_leader @ [?e], metrics := m,
        nextIndex := [1, 22], matchIndex := [- 1, 21]\<rparr>"
  obtain n2 s2 a where loop: "apply_loop True (n1\<lparr>commitIndex := 21\<rparr>) s [] = (n2, s2, a)"
    using prod_cases3 by blast
  obtain j where n2: "n2 = n1\<lparr>commitIndex := 21, lastApplied := j\<rparr>"
    using apply_loop_fields [OF loop] by blast
  let ?n = "persistMetadata (n2\<lparr>clientLastRequest := (clientLastRequest n2)(''c'' \<mapsto> 7),
      clientResultCache := (clientResultCache n2)(''c'' \<mapsto> a)\<rparr>)"
  have "getLogTerm 21 n1 = 1"
    using basic by (simp add: plain_log n1_def demo_entry_def nth_append)
  then have "commit_command ''c'' 7 21 2 n1 s = Answers (?n, s2) a"
    using basic loop n2 by (simp add: n1_def commit_command_def commit_and_apply_def SNAPSHOT_THRESHOLD_def)
  then have h: "handleClientCommand half_network ''c'' 7 ''PUT'' ''k'' ''2'' (long_leader, ?w) =
      Answers (?n, (p, s2)) a"
    using basic size r by (simp add: handleClientCommand_def Let_def n1_def)
  show thesis
    by (rule that [OF h]) (use basic in \<open>simp_all add: n2 n1_def persistMetadata_def\<close>)
qed

lemma long_leader_lags:
  assumes "log n = log long_leader @ [demo_entry 1 21 ''PUT k 2'']" "nextIndex n = [1, 22]"
    and "commitIndex n = 21" "runningHeartbeats n" "\<not> shutdownRequested n" "latestSnapshot n = None"
    and "currentTerm n = 1"
  shows "lags 0 1 n late_follower" "entry_command (log n ! (1 + 19)) = sendCommand ''PUT'' ''k'' ''1''"
proof -
  have L: "log long_leader = map (\<lambda>j. demo_entry 1 (int j) ''PUT k 1'') [0..<21]"
    by (simp add: long_leader_def demo_leader_defs)
  then show "entry_command (log n ! (1 + 19)) = sendCommand ''PUT'' ''k'' ''1''"
    using assms(1) by (simp add: nth_append sendCommand_def demo_entry_def)
  have first: "take 1 (log n) = [demo_entry 1 0 ''PUT k 1'']"
    using assms(1) L by (simp add: upt_rec)
  have len: "length (log n) = 22" using assms(1) L by simp
  have wf: "log_wf n"
    using assms(1,6) L len
    by (auto simp: log_wf_def plain_log nth_append demo_entry_def less_Suc_eq)
  have "logs_match (log n) (take 1 (log n))" by (rule logs_match_prefix)
  then show "lags 0 1 n late_follower"
    using assms first len wf
    by (simp add: lags_def follows_def leads_def late_follower_def demo_node_def RaftNode_new_def
        log_wf_def base_index_def demo_entry_def SNAPSHOT_THRESHOLD_def)
qed

theorem acknowledged_put_undone_witness:
  "\<exists>n nodes s n' nodes' s'. handleClientCommand half_network ''c'' 7 ''PUT'' ''k'' ''2''
      (long_leader, ([(5001 :: int) \<mapsto> late_follower], empty_store)) = Answers (n, (nodes, s)) ''OK'' \<and>
    get ''k'' s = Some ''2'' \<and>
    heartbeat_to (live_network (\<lambda>_. 0) (\<lambda>_. []) (\<lambda>_. True) ([], []) 0 0) 0 0 (n, (nodes, s)) =
      Next_Peer (n', (nodes', s')) \<and> get ''k'' s' = Some ''1''"
proof -
  obtain n s a where h: "handleClientCommand half_network ''c'' 7 ''PUT'' ''k'' ''2''
      (long_leader, ([(5001 :: int) \<mapsto> late_follower], empty_store)) = Answers (n, ([(5001 :: int) \<mapsto> late_follower], s)) a"
    "clientLastRequest n ''c'' = Some 7"
    and n: "log n = log long_leader @ [demo_entry 1 21 ''PUT k 2'']" "nextIndex n = [1, 22]"
      "commitIndex n = 21" "runningHeartbeats n" "\<not> shutdownRequested n" "latestSnapshot n = None"
      "currentTerm n = 1"
    and port: "peerRpcPorts n = [5001, 5002]"
    by (rule long_leader_put)
  have start: "client_guard ''c'' 7 long_leader = None" "serving long_leader"
    "lastApplied long_leader + 1 = getLogSize long_leader"
    by (simp_all add: long_leader_def demo_leader_defs client_guard_def serving_def getLogSize_def
        base_index_def snapshot_index_def)
  have words: "plain (''PUT'', ''k'', ''2'')" "plain (''PUT'', ''k'', ''1'')" by code_simp+
  have at: "[(5001 :: int) \<mapsto> late_follower] (peerRpcPorts n ! 0) = Some late_follower" by (simp add: port)
  from acknowledged_put_undone [OF start h words long_leader_lags(1) [OF n] at long_leader_lags(2) [OF n],
      of "\<lambda>_. 0" "\<lambda>_. []" "\<lambda>_. True" "([], [])" 0 0 0]
  show ?thesis using h(1) by blast
qed

end
