(* ===== verification/Thread_Loops.thy ===== *)
theory Thread_Loops
  imports Heartbeat
begin

text \<open>
  The two threads of a node that run in a loop, \<open>election_timer\<close> and \<open>send_heartbeats\<close>, from start
  to end.  What other threads do meanwhile is a function applied at every wait; a loop need not end,
  so both are partial functions, \<open>None\<close> being a thread that never returns.
\<close>

section \<open>\<open>election_timer\<close>\<close>

datatype 'a pass =
    Loop_Left 'a
  | Next_Pass 'a
  | Blocked         \<comment> \<open>waits for a mutex for ever\<close>
  | Process_Dies

text \<open>
  One pass of the loop: the lock is taken after the first test; a wait for a condition that ends
  early goes round again.  \<open>peer\<close> and \<open>r\<close> are the peers' answers and \<open>rand()\<close> for an election.
\<close>

definition timer_pass ::
  "(int \<Rightarrow> RequestVoteRPC \<Rightarrow> RequestVoteResponse rpc_reply) \<Rightarrow> nat \<Rightarrow> int \<Rightarrow> nat \<Rightarrow> RaftNode \<Rightarrow> RaftNode pass" where
  "timer_pass peer numNodes now r n =
     (if stopTimer n \<or> shutdownRequested n then Loop_Left n
      else if mtxHeld n then Blocked
      else
        (case timer_round now n of
           Timer_Stops \<Rightarrow> Loop_Left n
         | Wait_Until_Not_Leader \<Rightarrow> Next_Pass n
         | Sleep_For d \<Rightarrow> Next_Pass n
         | Start_Election \<Rightarrow>
             (case start_election peer numNodes now r n of
                Goes_On n \<Rightarrow> Next_Pass n
              | Returns n \<Rightarrow> Next_Pass n
              | Hangs n \<Rightarrow> Blocked)))"

text \<open>
  \<open>others k\<close> is what other threads do during the \<open>k\<close>-th wait or election; \<open>clock k\<close>, \<open>peer k\<close> and
  \<open>rnd k\<close> belong to the \<open>k\<close>-th pass.
\<close>

partial_function (option) election_timer ::
  "(nat \<Rightarrow> RaftNode \<Rightarrow> RaftNode) \<Rightarrow> (nat \<Rightarrow> int) \<Rightarrow>
   (nat \<Rightarrow> int \<Rightarrow> RequestVoteRPC \<Rightarrow> RequestVoteResponse rpc_reply) \<Rightarrow> (nat \<Rightarrow> nat) \<Rightarrow> nat \<Rightarrow>
   nat \<Rightarrow> RaftNode \<Rightarrow> RaftNode option" where
  "election_timer others clock peer rnd numNodes k n =
     (case timer_pass (peer k) numNodes (clock k) (rnd k) n of
        Loop_Left n \<Rightarrow> Some n
      | Next_Pass n \<Rightarrow> election_timer others clock peer rnd numNodes (k + 1) (others k n)
      | _ \<Rightarrow> None)"

text \<open>An election does not wait for ever if nobody holds the mutex for ever.\<close>

lemma receive_vote_lock:
  assumes "\<not> mtxHeld n"
  shows "\<exists>m w. (receive_vote reply (n, v) = Goes_On (m, w) \<or> receive_vote reply (n, v) = Returns (m, w)) \<and>
    \<not> mtxHeld m"
  using assms by (cases reply) (auto simp: receive_vote_def Let_def)

lemma poll_peers_lock:
  assumes "\<not> mtxHeld n"
  shows "\<exists>m w. (poll_peers peer ps (n, v) = Goes_On (m, w) \<or> poll_peers peer ps (n, v) = Returns (m, w)) \<and>
    \<not> mtxHeld m"
  using assms
proof (induction ps arbitrary: n v)
  case (Cons p ps)
  obtain m w where "receive_vote (peer p (vote_request n)) (n, v) = Goes_On (m, w) \<or>
      receive_vote (peer p (vote_request n)) (n, v) = Returns (m, w)" "\<not> mtxHeld m"
    using receive_vote_lock [OF Cons.prems] by blast
  then show ?case using Cons.IH [of m w] Cons.prems by auto
qed simp

lemma start_election_lock:
  assumes "\<not> mtxHeld n"
  shows "\<exists>m. start_election peer N now r n = Returns m \<and> \<not> mtxHeld m"
proof (cases "shutdownRequested n")
  case True
  then show ?thesis using assms by (simp add: start_election_def begin_election_def)
next
  case False
  then obtain k where k: "begin_election n = Goes_On k" "\<not> mtxHeld k"
    using assms by (simp add: begin_election_def)
  obtain m w where m: "poll_peers peer (peerRpcPorts k) (k, 1) = Goes_On (m, w) \<or>
      poll_peers peer (peerRpcPorts k) (k, 1) = Returns (m, w)" "\<not> mtxHeld m"
    using poll_peers_lock [OF k(2)] by blast
  have "\<exists>m'. finish_election N now r (m, w) = Returns m' \<and> \<not> mtxHeld m'"
    using m(2) by (simp add: finish_election_def reset_timeout_def become_leader_def)
  then show ?thesis using k(1) m by (auto simp: start_election_def)
qed

lemma timer_pass_lock:
  assumes "\<not> mtxHeld n"
  shows "(stopTimer n \<or> shutdownRequested n) \<and> timer_pass peer N now r n = Loop_Left n \<or>
    (\<exists>n'. timer_pass peer N now r n = Next_Pass n' \<and> \<not> mtxHeld n')"
proof (cases "stopTimer n \<or> shutdownRequested n")
  case False
  obtain m where m: "start_election peer N now r n = Returns m" "\<not> mtxHeld m"
    using start_election_lock [OF assms] by blast
  have "timer_round now n \<noteq> Timer_Stops" using False by (simp add: timer_round_def)
  then show ?thesis using False m assms by (cases "timer_round now n") (simp_all add: timer_pass_def)
qed (simp add: timer_pass_def)

text \<open>Once the flags are set, the thread ends at its next test.\<close>

lemma election_timer_ends:
  assumes "\<And>k n. \<not> mtxHeld n \<Longrightarrow> \<not> mtxHeld (others k n)"
    and "\<And>n. stopTimer (others m n) \<or> shutdownRequested (others m n)"
  shows "k \<le> Suc m \<Longrightarrow> \<not> mtxHeld n \<Longrightarrow> (k = Suc m \<Longrightarrow> stopTimer n \<or> shutdownRequested n) \<Longrightarrow>
    \<exists>n'. election_timer others clock peer rnd N k n = Some n' \<and> (stopTimer n' \<or> shutdownRequested n')"
proof (induction "Suc m - k" arbitrary: k n)
  case 0
  then have "stopTimer n \<or> shutdownRequested n" by simp
  then show ?case by (subst election_timer.simps) (auto simp: timer_pass_def)
next
  case (Suc d)
  show ?case
  proof (cases "stopTimer n \<or> shutdownRequested n")
    case True
    then show ?thesis by (subst election_timer.simps) (auto simp: timer_pass_def)
  next
    case False
    then obtain n1 where n1: "timer_pass (peer k) N (clock k) (rnd k) n = Next_Pass n1" "\<not> mtxHeld n1"
      using timer_pass_lock [OF Suc.prems(2)] by blast
    have "\<exists>n'. election_timer others clock peer rnd N (k + 1) (others k n1) = Some n' \<and>
        (stopTimer n' \<or> shutdownRequested n')"
      using Suc.hyps(2) assms n1(2) by (intro Suc.hyps(1)) auto
    then show ?thesis using n1(1) by (subst election_timer.simps) simp
  qed
qed

text \<open>While no timeout passes, the thread leaves the node to the others.\<close>

fun left_to :: "(nat \<Rightarrow> 'a \<Rightarrow> 'a) \<Rightarrow> nat \<Rightarrow> 'a \<Rightarrow> 'a" where
  "left_to others 0 x = x"
| "left_to others (Suc k) x = others k (left_to others k x)"

lemma timer_without_timeout_from:
  assumes "\<And>j. j < m \<Longrightarrow> \<not> stopTimer (left_to others j n) \<and> \<not> shutdownRequested (left_to others j n) \<and>
      \<not> mtxHeld (left_to others j n) \<and> (state (left_to others j n) = LEADER \<or>
        clock j - lastHeartbeat (left_to others j n) < electionTimeout (left_to others j n))"
    and "stopTimer (left_to others m n) \<or> shutdownRequested (left_to others m n)"
  shows "k \<le> m \<Longrightarrow> election_timer others clock peer rnd N k (left_to others k n) = Some (left_to others m n)"
proof (induction "m - k" arbitrary: k)
  case 0
  then show ?case using assms(2) by (subst election_timer.simps) (simp add: timer_pass_def)
next
  case (Suc d)
  then have k: "k < m" by simp
  have "timer_round (clock k) (left_to others k n) \<in>
      {Wait_Until_Not_Leader, Sleep_For (electionTimeout (left_to others k n) -
        (clock k - lastHeartbeat (left_to others k n)))}"
    using assms(1) [OF k] by (auto simp: timer_round_def)
  then have "timer_pass (peer k) N (clock k) (rnd k) (left_to others k n) = Next_Pass (left_to others k n)"
    using assms(1) [OF k] by (auto simp: timer_pass_def)
  moreover have "election_timer others clock peer rnd N (k + 1) (left_to others (Suc k) n) =
      Some (left_to others m n)"
    using Suc.hyps(1) [of "Suc k"] Suc.hyps(2) k by simp
  ultimately show ?case by (subst election_timer.simps) simp
qed

section \<open>\<open>send_heartbeats\<close>\<close>

text \<open>One pass of the outer loop, with its condition and the test after the loop over the peers.\<close>

definition heartbeat_pass ::
  "'p network \<Rightarrow> int \<Rightarrow> RaftNode \<times> ('p \<times> KVStore) \<Rightarrow> (RaftNode \<times> ('p \<times> KVStore)) pass" where
  "heartbeat_pass net now q =
     (let n = fst q
      in if runningHeartbeats n \<and> state n = LEADER \<and> \<not> shutdownRequested n
         then
           (case heartbeat_all net now [0..<length (peerRpcPorts n)] q of
              Next_Peer q \<Rightarrow> if shutdownRequested (fst q) then Loop_Left q else Next_Pass q
            | Leaves_Loop q \<Rightarrow> if shutdownRequested (fst q) then Loop_Left q else Next_Pass q
            | Thread_Ends q \<Rightarrow> Loop_Left q
            | Heartbeat_Waits q \<Rightarrow> Blocked
            | Heartbeat_Crashes q \<Rightarrow> Process_Dies)
         else Loop_Left q)"

text \<open>\<open>sleep_for(200ms)\<close> between the passes; \<open>Some None\<close> is the end of the process.\<close>

partial_function (option) heartbeat_loop ::
  "'p network \<Rightarrow> (nat \<Rightarrow> RaftNode \<times> ('p \<times> KVStore) \<Rightarrow> RaftNode \<times> ('p \<times> KVStore)) \<Rightarrow> (nat \<Rightarrow> int) \<Rightarrow>
   nat \<Rightarrow> RaftNode \<times> ('p \<times> KVStore) \<Rightarrow> (RaftNode \<times> ('p \<times> KVStore)) option option" where
  "heartbeat_loop net others clock k q =
     (case heartbeat_pass net (clock k) q of
        Loop_Left q \<Rightarrow> Some (Some q)
      | Next_Pass q \<Rightarrow> heartbeat_loop net others clock (k + 1) (others k q)
      | Blocked \<Rightarrow> None
      | Process_Dies \<Rightarrow> Some None)"

text \<open>The thread waits for the mutex only if somebody else keeps it for ever.\<close>

definition lock_free :: "(RaftNode \<times> 'w) heartbeat_result \<Rightarrow> bool" where
  "lock_free r \<longleftrightarrow>
     (case r of Heartbeat_Waits q \<Rightarrow> False | Heartbeat_Crashes q \<Rightarrow> True
      | Next_Peer q \<Rightarrow> \<not> mtxHeld (fst q) | Leaves_Loop q \<Rightarrow> \<not> mtxHeld (fst q) | Thread_Ends q \<Rightarrow> True)"

lemma heartbeat_reply_lock:
  "\<not> mtxHeld n \<Longrightarrow> lock_free (map_heartbeat_result (\<lambda>n. (n, w)) (heartbeat_reply now i nextIdx sent reply n))"
  by (cases reply) (auto simp: lock_free_def heartbeat_reply_def back_off_def)

lemma heartbeat_to_lock:
  assumes "\<not> mtxHeld (fst q)" shows "lock_free (heartbeat_to net now i q)"
proof -
  obtain n w where q: "q = (n, w)" by (cases q)
  have batch: "lock_free (exchange_batch net now i n w)"
  proof -
    obtain w' reply where "send_append net (peerRpcPorts n ! i) w (heartbeat_message i n) = (w', reply)"
      by fastforce
    then show ?thesis
      using heartbeat_reply_lock [of "n\<lparr>metrics := (metrics n)\<lparr>appendEntriesSent :=
          appendEntriesSent (metrics n) + 1\<rparr>\<rparr>" w'] assms
      by (simp add: exchange_batch_def Let_def q)
  qed
  have snap: "mtxHeld n' = mtxHeld n"
    if "send_snapshot dl peer snap items i n w = (n', w', r)" for dl peer snap items n' w' r
    by (rule peer_update_fields(7) [OF send_chunks_update]) (use that in \<open>unfold send_snapshot_def\<close>)
  show ?thesis
  proof (cases "latestSnapshot n")
    case None
    then show ?thesis using batch assms by (simp add: heartbeat_to_def q lock_free_def)
  next
    case (Some sn)
    obtain n' w' r where s: "send_snapshot (dump_length net) (send_install net (peerRpcPorts n ! i)) sn
        (stream_order net sn) i n w = (n', w', r)"
      using prod_cases3 by blast
    have "\<not> mtxHeld n'" using snap [OF s] assms q by simp
    then show ?thesis
      using batch assms Some s
      by (cases r) (simp_all add: heartbeat_to_def q lock_free_def)
  qed
qed

lemma heartbeat_all_lock: "\<not> mtxHeld (fst q) \<Longrightarrow> lock_free (heartbeat_all net now is q)"
proof (induction "is" arbitrary: q)
  case (Cons i "is")
  then show ?case
    using heartbeat_to_lock [OF Cons.prems, of net now i]
    by (cases "heartbeat_to net now i q") (simp_all add: lock_free_def)
qed (simp add: lock_free_def)

lemma heartbeat_loop_ends:
  assumes "\<And>k q. \<not> mtxHeld (fst q) \<Longrightarrow> \<not> mtxHeld (fst (others k q))"
    and "\<And>q. \<not> (runningHeartbeats (fst (others m q)) \<and> state (fst (others m q)) = LEADER \<and>
      \<not> shutdownRequested (fst (others m q)))"
  shows "k \<le> Suc m \<Longrightarrow> \<not> mtxHeld (fst q) \<Longrightarrow>
    (k = Suc m \<Longrightarrow> \<not> (runningHeartbeats (fst q) \<and> state (fst q) = LEADER \<and> \<not> shutdownRequested (fst q))) \<Longrightarrow>
    \<exists>r. heartbeat_loop net others clock k q = Some r"
proof (induction "Suc m - k" arbitrary: k q)
  case 0
  then show ?case by (subst heartbeat_loop.simps) (auto simp: heartbeat_pass_def)
next
  case (Suc d)
  let ?r = "heartbeat_all net (clock k) [0..<length (peerRpcPorts (fst q))] q"
  have "lock_free ?r" by (rule heartbeat_all_lock [OF Suc.prems(2)])
  then have "heartbeat_pass net (clock k) q \<noteq> Blocked"
    and next_pass: "heartbeat_pass net (clock k) q = Next_Pass q' \<Longrightarrow> \<not> mtxHeld (fst q')" for q'
    by (auto simp: heartbeat_pass_def lock_free_def Let_def split: heartbeat_result.splits if_splits)
  then consider q' where "heartbeat_pass net (clock k) q = Loop_Left q'"
    | q' where "heartbeat_pass net (clock k) q = Next_Pass q'" "\<not> mtxHeld (fst q')"
    | "heartbeat_pass net (clock k) q = Process_Dies"
    by (cases "heartbeat_pass net (clock k) q") auto
  then show ?case
  proof cases
    case (2 q')
    have "\<exists>r. heartbeat_loop net others clock (k + 1) (others k q') = Some r"
      using Suc.hyps(2) assms 2(2) by (intro Suc.hyps(1)) auto
    then show ?thesis using 2(1) by (subst heartbeat_loop.simps) simp
  qed (subst heartbeat_loop.simps, simp)+
qed

section \<open>Properties\<close>

text \<open>
  C36: A node that hears from its leader in time never stands for election: as long as it leads or the
  last heartbeat is younger than the timeout whenever the timer looks, the timer thread leaves the
  node to the other threads, and ends when it is told to.
\<close>

theorem timer_without_timeout:
  assumes "\<And>j. j < m \<Longrightarrow> \<not> stopTimer (left_to others j n) \<and> \<not> shutdownRequested (left_to others j n) \<and>
      \<not> mtxHeld (left_to others j n) \<and> (state (left_to others j n) = LEADER \<or>
        clock j - lastHeartbeat (left_to others j n) < electionTimeout (left_to others j n))"
    and "stopTimer (left_to others m n) \<or> shutdownRequested (left_to others m n)"
  shows "election_timer others clock peer rnd N 0 n = Some (left_to others m n)"
  using timer_without_timeout_from [OF assms, of 0] by simp

theorem timer_without_timeout_witness:
  "election_timer (\<lambda>k n. if k = 0 then n\<lparr>lastHeartbeat := 1500\<rparr> else n\<lparr>stopTimer := True\<rparr>)
      (\<lambda>k. 1900 * int k) (\<lambda>_ _ _. No_Reply) (\<lambda>_. 0) 3 0 (demo_node\<lparr>electionTimeout := 2000\<rparr>) =
    Some (demo_node\<lparr>electionTimeout := 2000, lastHeartbeat := 1500, stopTimer := True\<rparr>)"
proof -
  let ?others = "\<lambda>k n. if k = 0 then n\<lparr>lastHeartbeat := 1500\<rparr> else n\<lparr>stopTimer := True\<rparr>"
  let ?n = "demo_node\<lparr>electionTimeout := 2000\<rparr>"
  have two: "left_to ?others 2 ?n = ?n\<lparr>lastHeartbeat := 1500, stopTimer := True\<rparr>"
    by (simp add: numeral_2_eq_2)
  have "election_timer ?others (\<lambda>k. 1900 * int k) (\<lambda>_ _ _. No_Reply) (\<lambda>_. 0) 3 0 ?n = Some (left_to ?others 2 ?n)"
  proof (rule timer_without_timeout)
    fix j :: nat assume "j < 2"
    then show "\<not> stopTimer (left_to ?others j ?n) \<and> \<not> shutdownRequested (left_to ?others j ?n) \<and>
      \<not> mtxHeld (left_to ?others j ?n) \<and> (state (left_to ?others j ?n) = LEADER \<or>
        1900 * int j - lastHeartbeat (left_to ?others j ?n) < electionTimeout (left_to ?others j ?n))"
      by (auto simp: less_2_cases_iff demo_node_def RaftNode_new_def)
  qed (simp add: two)
  then show ?thesis unfolding two by simp
qed

text \<open>
  The timer thread ends, whatever elections it has run, once other threads have set one of its flags
  and nobody keeps the mutex for ever.
\<close>

theorem timer_thread_ends:
  assumes "\<And>k n. \<not> mtxHeld n \<Longrightarrow> \<not> mtxHeld (others k n)"
    and "\<And>n. stopTimer (others m n) \<or> shutdownRequested (others m n)" "\<not> mtxHeld n"
  shows "\<exists>n'. election_timer others clock peer rnd N 0 n = Some n' \<and> (stopTimer n' \<or> shutdownRequested n')"
  by (rule election_timer_ends [where others = others and m = m]) (use assms in auto)



end
