(* ===== verification/Vote_Race.thy ===== *)
theory Vote_Race
  imports Client_Facts Log_Match
begin

text \<open>
  Handlers that are not protected.  Every connection has a thread of its own, the RequestVote branch
  of \<open>handle_node_client\<close> takes no lock except inside \<open>becomeFollower\<close>, and
  \<open>handleClientCommand\<close> tests the state before it takes the lock.  Here both are cut at these
  points: run without interference they are the handlers of \<open>Election\<close> and \<open>Client\<close>, with it they
  break what the whole handlers guarantee.
\<close>

section \<open>The RequestVote branch in pieces\<close>

datatype vote_pc =
    Arrived RequestVoteRPC            \<comment> \<open>before the terms are compared\<close>
  | Behind RequestVoteRPC             \<comment> \<open>about to call \<open>becomeFollower\<close>\<close>
  | Deciding RequestVoteRPC           \<comment> \<open>about to read \<open>votedFor\<close> and the log\<close>
  | Granting RequestVoteRPC           \<comment> \<open>decided, about to write the vote\<close>
  | Refusing
  | Answers_Vote RequestVoteResponse

definition count_request :: "RaftNode \<Rightarrow> RaftNode" where
  "count_request n =
     n\<lparr>metrics := (metrics n)\<lparr>requestVotesReceived := requestVotesReceived (metrics n) + 1\<rparr>\<rparr>"

lemma count_request_simps [simp]:
  "currentTerm (count_request n) = currentTerm n" "votedFor (count_request n) = votedFor n"
  "log (count_request n) = log n" "shutdownRequested (count_request n) = shutdownRequested n"
  by (simp_all add: count_request_def)

lemma count_request_views [simp]:
  "voter_last_index (count_request n) = voter_last_index n"
  "voter_last_term (count_request n) = voter_last_term n"
  by (simp_all add: voter_last_index_def voter_last_term_def)

definition may_vote :: "RequestVoteRPC \<Rightarrow> RaftNode \<Rightarrow> bool" where
  "may_vote r n \<longleftrightarrow>
     (votedFor n = - 1 \<or> votedFor n = rv_candidateId r) \<and>
     candidateUpToDate (rv_lastLogTerm r) (rv_lastLogIndex r) (voter_last_term n) (voter_last_index n)"

definition write_vote :: "RequestVoteRPC \<Rightarrow> RaftNode \<Rightarrow> RaftNode" where
  "write_vote r n =
     (let n' = persistMetadata (n\<lparr>votedFor := rv_candidateId r\<rparr>)
      in n'\<lparr>metrics := (metrics n')\<lparr>votesReceived := votesReceived (metrics n') + 1\<rparr>\<rparr>)"

text \<open>One piece of one thread; \<open>None\<close>: the thread has answered, or waits for the mutex.\<close>

fun vote_piece :: "vote_pc \<Rightarrow> RaftNode \<Rightarrow> (vote_pc \<times> RaftNode) option" where
  "vote_piece (Arrived r) n =
     Some (if rv_term r < currentTerm n then Refusing
           else if rv_term r > currentTerm n then Behind r else Deciding r, count_request n)"
| "vote_piece (Behind r) n = map_option (Pair (Deciding r)) (becomeFollower (rv_term r) n)"
| "vote_piece (Deciding r) n = Some (if may_vote r n then Granting r else Refusing, n)"
| "vote_piece (Granting r) n =
     Some (Answers_Vote \<lparr>rvr_term = currentTerm n, voteGranted = True\<rparr>, write_vote r n)"
| "vote_piece Refusing n =
     Some (Answers_Vote \<lparr>rvr_term = currentTerm n, voteGranted = False\<rparr>, n)"
| "vote_piece (Answers_Vote resp) n = None"

text \<open>A thread alone, piece by piece; the pieces that are left bound the recursion.\<close>

fun pieces_left :: "vote_pc \<Rightarrow> nat" where
  "pieces_left (Arrived r) = 4"
| "pieces_left (Behind r) = 3"
| "pieces_left (Deciding r) = 2"
| "pieces_left (Granting r) = 1"
| "pieces_left Refusing = 1"
| "pieces_left (Answers_Vote resp) = 0"

lemma vote_piece_left: "vote_piece pc n = Some (pc', n') \<Longrightarrow> pieces_left pc' < pieces_left pc"
  by (cases pc) (auto simp: Let_def split: if_splits)

function vote_alone :: "vote_pc \<Rightarrow> RaftNode \<Rightarrow> RaftNode \<times> RequestVoteResponse option" where
  "vote_alone pc n =
     (case pc of
        Answers_Vote resp \<Rightarrow> (n, Some resp)
      | _ \<Rightarrow> (case vote_piece pc n of None \<Rightarrow> (n, None) | Some (pc', n') \<Rightarrow> vote_alone pc' n'))"
  by pat_completeness auto
termination
  by (relation "measure (\<lambda>(pc, n). pieces_left pc)") (auto dest: vote_piece_left)

declare vote_alone.simps [simp del]

lemma vote_alone_pieces [simp]:
  "vote_alone (Answers_Vote resp) n = (n, Some resp)"
  "vote_alone Refusing n = (n, Some \<lparr>rvr_term = currentTerm n, voteGranted = False\<rparr>)"
  "vote_alone (Granting r) n =
    (write_vote r n, Some \<lparr>rvr_term = currentTerm n, voteGranted = True\<rparr>)"
  by (simp_all add: vote_alone.simps)

lemma currentTerm_write_vote [simp]: "currentTerm (write_vote r n) = currentTerm n"
  by (simp add: write_vote_def Let_def)

lemma vote_alone_deciding:
  "vote_alone (Deciding r) n =
    (case decide_vote r n of
       (n, granted) \<Rightarrow> (n, Some \<lparr>rvr_term = currentTerm n, voteGranted = granted\<rparr>))"
  by (subst vote_alone.simps) (simp add: decide_vote_def may_vote_def write_vote_def Let_def)


section \<open>Two threads\<close>

text \<open>Any thread may do its next piece.\<close>

inductive votes_step :: "RaftNode \<times> vote_pc list \<Rightarrow> RaftNode \<times> vote_pc list \<Rightarrow> bool" where
  Piece: "k < length pcs \<Longrightarrow> vote_piece (pcs ! k) n = Some (pc, n') \<Longrightarrow>
    votes_step (n, pcs) (n', pcs[k := pc])"

definition granted_both :: "int \<Rightarrow> vote_pc list \<Rightarrow> bool" where
  "granted_both t pcs \<longleftrightarrow> pcs = replicate 2 (Answers_Vote \<lparr>rvr_term = t, voteGranted = True\<rparr>)"

lemma two_pieces:
  "vote_piece p n = Some (p', n') \<Longrightarrow> votes_step\<^sup>*\<^sup>* (n, [p, q]) (n', [p', q])"
  "vote_piece q n = Some (q', n') \<Longrightarrow> votes_step\<^sup>*\<^sup>* (n, [p, q]) (n', [p, q'])"
  using Piece [of 0 "[p, q]"] Piece [of 1 "[p, q]"] by auto

text \<open>
  C17: One vote, given twice.  Two requests of one term that reach a node while it is still free to
  vote, of two candidates whose logs are up to date: there is an interleaving of their two threads
  at whose end both candidates have been granted the vote of that term.
\<close>

theorem vote_given_twice:
  assumes "rv_term a = currentTerm n" "rv_term b = currentTerm n" "votedFor n = - 1"
    and "candidateUpToDate (rv_lastLogTerm a) (rv_lastLogIndex a) (voter_last_term n) (voter_last_index n)"
    and "candidateUpToDate (rv_lastLogTerm b) (rv_lastLogIndex b) (voter_last_term n) (voter_last_index n)"
  shows "\<exists>n' pcs. votes_step\<^sup>*\<^sup>* (n, [Arrived a, Arrived b]) (n', pcs) \<and>
    granted_both (currentTerm n) pcs \<and> votedFor n' = rv_candidateId b"
proof -
  let ?n1 = "count_request n" and ?n2 = "count_request (count_request n)"
  let ?yes = "Answers_Vote \<lparr>rvr_term = currentTerm n, voteGranted = True\<rparr>"
  have free: "may_vote a ?n2" "may_vote b ?n2"
    using assms by (simp_all add: may_vote_def)
  have "votes_step\<^sup>*\<^sup>* (n, [Arrived a, Arrived b]) (?n1, [Deciding a, Arrived b])"
    by (rule two_pieces) (simp add: assms)
  also have "votes_step\<^sup>*\<^sup>* \<dots> (?n2, [Deciding a, Deciding b])"
    by (rule two_pieces) (simp add: assms)
  also have "votes_step\<^sup>*\<^sup>* \<dots> (?n2, [Granting a, Deciding b])"
    by (rule two_pieces) (simp add: free)
  also have "votes_step\<^sup>*\<^sup>* \<dots> (?n2, [Granting a, Granting b])"
    by (rule two_pieces) (simp add: free)
  also have "votes_step\<^sup>*\<^sup>* \<dots> (write_vote a ?n2, [?yes, Granting b])"
    by (rule two_pieces) simp
  also have "votes_step\<^sup>*\<^sup>* \<dots> (write_vote b (write_vote a ?n2), [?yes, ?yes])"
    by (rule two_pieces) simp
  finally show ?thesis
    by (intro exI conjI, assumption)
      (simp_all add: granted_both_def numeral_2_eq_2 write_vote_def Let_def persistMetadata_def)
qed

theorem vote_given_twice_witness:
  "\<exists>n' pcs. votes_step\<^sup>*\<^sup>* (demo_node, [Arrived (demo_request 0 1), Arrived (demo_request 0 2)]) (n', pcs) \<and>
    granted_both 0 pcs \<and> votedFor n' = 2"
  using vote_given_twice [of "demo_request 0 1" demo_node "demo_request 0 2"]
  by (simp add: demo_request_def demo_node_def RaftNode_new_def candidateUpToDate_def
      voter_last_index_def voter_last_term_def)

section \<open>The guard of a client command\<close>

text \<open>What a vote request of a newer term does to a node that waits between guard and lock.\<close>

lemma vote_demotes:
  assumes "handle_RequestVote r n = (n', resp)" "currentTerm n < rv_term r" "\<not> mtxHeld n"
    and "\<not> shutdownRequested n"
  shows "state n' = FOLLOWER" "currentTerm n' = rv_term r" "log n' = log n"
    "latestSnapshot n' = latestSnapshot n"
  using assms
  by (auto simp: handle_RequestVote_def becomeFollower_def decide_vote_def Let_def split: if_splits)

lemma different_entries_clash:
  "entry_term x = entry_term y \<Longrightarrow> x \<noteq> y \<Longrightarrow> \<not> logs_match (xs @ [x]) (xs @ [y])"
  by (auto simp: logs_match_def intro!: exI [of _ "length xs"])

text \<open>
  C20: A command let through by the guard may be written by a node that no longer leads.  If a vote
  request of a newer term is handled between the test of the state and the lock, the entry gets
  the newer term; when the leader of that term writes another command at the same place, log
  matching is broken.
\<close>

theorem late_append_breaks_matching:
  assumes "client_guard cid rid n = None" "\<not> mtxHeld n"
    and "handle_RequestVote r n = (n', resp)" "currentTerm n < rv_term r"
    and "currentTerm l = rv_term r" "log l = log n" "cmd \<noteq> cmd'"
  shows "state n' = FOLLOWER \<and>
    \<not> logs_match (log (append_command cmd n')) (log (append_command cmd' l))"
proof -
  have "\<not> shutdownRequested n" using assms(1) by (auto simp: client_guard_def split: if_splits)
  note d = vote_demotes [OF assms(3,4,2) this]
  have "\<not> logs_match
      (log n @ [\<lparr>entry_term = rv_term r, entry_index = getLogSize n', entry_command = cmd\<rparr>])
      (log n @ [\<lparr>entry_term = rv_term r, entry_index = getLogSize l, entry_command = cmd'\<rparr>])"
    using assms(7) by (intro different_entries_clash) simp_all
  then show ?thesis using d assms(5,6) by (simp add: append_command_def)
qed

theorem late_append_breaks_matching_witness:
  "\<not> logs_match (log (append_command ''PUT a 1'' (fst (handle_RequestVote (demo_request 2 1) (demo_leader [])))))
      (log (append_command ''PUT a 2'' (demo_leader []\<lparr>currentTerm := 2\<rparr>)))"
proof -
  obtain n' resp where h: "handle_RequestVote (demo_request 2 1) (demo_leader []) = (n', resp)" by fastforce
  show ?thesis
    using late_append_breaks_matching [OF _ _ h, of "''c''" 1 "demo_leader []\<lparr>currentTerm := 2\<rparr>" "''PUT a 1''" "''PUT a 2''"] h
    by (simp add: demo_leader_defs demo_request_def client_guard_def)
qed

end
