(* ===== verification/Supervisor.thy ===== *)
theory Supervisor
  imports Client_Facts
begin

text \<open>
  The life of the process: \<open>raftAlgorithm\<close> of \<open>raft_node.cpp\<close> from the start of the nodes over the
  wait for a leader to the shutdown, the accept loops of \<open>startRaftRPCServer\<close> and \<open>start_server\<close>,
  and \<open>main\<close>.  What other threads do in the meantime is seen through the values these loops read:
  the nodes at each look, the clock, the flags, and the results of \<open>accept\<close>.
\<close>

section \<open>Starting the nodes\<close>

text \<open>
  What an earlier process left of a node, and the clock and the value of \<open>rand()\<close> at its start.  An
  exception of \<open>loadMetadata\<close> or \<open>start\<close> leaves the thread: the process is terminated.
\<close>

record boot_files =
  boot_meta :: "raft_meta disk_file"
  boot_snap :: "Snapshot disk_file"
  boot_now :: int
  boot_rand :: nat

fun boot_nodes ::
  "int \<Rightarrow> nat \<Rightarrow> nat \<Rightarrow> boot_files list \<Rightarrow> RaftNode list \<Rightarrow> KVStore \<Rightarrow>
   cpp_exn + RaftNode list \<times> KVStore" where
  "boot_nodes basePort numNodes i [] ns s = Inr (ns, s)"
| "boot_nodes basePort numNodes i (b # bs) ns s =
     (case boot_node (int i) (basePort + int i) (raft_peers basePort numNodes i) (boot_now b)
             (boot_rand b) (boot_meta b) (boot_snap b) s of
        Inl e \<Rightarrow> Inl e
      | Inr (n, s') \<Rightarrow> boot_nodes basePort numNodes (i + 1) bs (ns @ [n]) s')"

definition boot_cluster :: "boot_files list \<Rightarrow> KVStore \<Rightarrow> cpp_exn + RaftNode list \<times> KVStore" where
  "boot_cluster bs s = boot_nodes 5000 3 0 bs [] s"

section \<open>Waiting\<close>

text \<open>
  \<open>obs k\<close> are the nodes as the \<open>k\<close>-th pass of the loop reads them, \<open>clock k\<close> the milliseconds since
  the start after its \<open>sleep_for\<close>.  The time is tested after the sleep, in whole seconds, whether
  a leader was seen or not.  \<open>None\<close> in the result is the \<open>return\<close> without a leader.
\<close>

partial_function (option) await_leader ::
  "(nat \<Rightarrow> RaftNode list) \<Rightarrow> (nat \<Rightarrow> int) \<Rightarrow> nat \<Rightarrow> int option option" where
  "await_leader obs clock k =
     (if clock k div 1000 > 10 then Some None
      else
        (case find (\<lambda>n. state n = LEADER) (obs k) of
           Some n \<Rightarrow> Some (Some (node_id n))
         | None \<Rightarrow> await_leader obs clock (k + 1)))"

text \<open>\<open>while (!raftShutdownRequested.load())\<close>; \<open>flag k\<close> is what the \<open>k\<close>-th pass reads.\<close>

partial_function (option) await_shutdown :: "(nat \<Rightarrow> bool) \<Rightarrow> nat \<Rightarrow> nat option" where
  "await_shutdown flag k = (if flag k then Some k else await_shutdown flag (k + 1))"

section \<open>Shutting down\<close>

datatype thread_at =
    Not_Started
  | Loops         \<comment> \<open>somewhere in its loop, and will test the condition again\<close>
  | Stuck         \<comment> \<open>waits for a mutex for ever\<close>
  | Finished

record supervised =
  sup_node :: RaftNode
  timer_thread :: thread_at
  heartbeat_thread :: thread_at
  rpc_thread :: thread_at

text \<open>\<open>if (t.joinable()) t.join()\<close>, for a loop that ends when \<open>ends\<close> holds.\<close>

definition join_thread :: "bool \<Rightarrow> thread_at \<Rightarrow> thread_at option" where
  "join_thread ends t =
     (case t of
        Not_Started \<Rightarrow> Some Not_Started
      | Finished \<Rightarrow> Some Finished
      | Stuck \<Rightarrow> None
      | Loops \<Rightarrow> if ends then Some Finished else None)"

text \<open>The first two loops over the nodes: set the flags, then wake the timer, each under the lock.\<close>

definition request_stop :: "RaftNode \<Rightarrow> RaftNode option" where
  "request_stop n =
     (if mtxHeld n then None
      else Some (n\<lparr>shutdownRequested := True, stopTimer := True, runningHeartbeats := False,
                   stopRPC := True\<rparr>))"

definition wake_timer :: "RaftNode \<Rightarrow> RaftNode option" where
  "wake_timer n = (if mtxHeld n then None else Some n)"

definition on_node :: "(RaftNode \<Rightarrow> RaftNode option) \<Rightarrow> supervised \<Rightarrow> supervised option" where
  "on_node f s = map_option (\<lambda>n. s\<lparr>sup_node := n\<rparr>) (f (sup_node s))"

text \<open>A timer leaves its loop when \<open>timer_round\<close> says so.\<close>

definition join_timer :: "int \<Rightarrow> supervised \<Rightarrow> supervised option" where
  "join_timer now s =
     map_option (\<lambda>t. s\<lparr>timer_thread := t\<rparr>)
       (join_thread (timer_round now (sup_node s) = Timer_Stops) (timer_thread s))"

text \<open>\<open>RaftNode::shutdownNode\<close> with the two joins at its end.\<close>

definition shutdown_node :: "supervised \<Rightarrow> supervised option" where
  "shutdown_node s =
     (case shutdownNode (sup_node s) of
        None \<Rightarrow> None
      | Some n \<Rightarrow>
          (case join_thread (\<not> (runningHeartbeats n \<and> state n = LEADER \<and> \<not> shutdownRequested n))
                  (heartbeat_thread s) of
             None \<Rightarrow> None
           | Some h \<Rightarrow>
               map_option (\<lambda>r. s\<lparr>sup_node := n, heartbeat_thread := h, rpc_thread := r\<rparr>)
                 (join_thread (stopRPC n) (rpc_thread s))))"

text \<open>A loop over all nodes that can get stuck at each.\<close>

fun each_node :: "('a \<Rightarrow> 'a option) \<Rightarrow> 'a list \<Rightarrow> 'a list option" where
  "each_node f [] = Some []"
| "each_node f (x # xs) =
     (case f x of
        None \<Rightarrow> None
      | Some y \<Rightarrow> map_option ((#) y) (each_node f xs))"

definition shutdown_cluster :: "int \<Rightarrow> supervised list \<Rightarrow> supervised list option" where
  "shutdown_cluster now ss =
     (case each_node (on_node request_stop) ss of
        None \<Rightarrow> None
      | Some ss \<Rightarrow>
          (case each_node (on_node wake_timer) ss of
             None \<Rightarrow> None
           | Some ss \<Rightarrow>
               (case each_node (join_timer now) ss of
                  None \<Rightarrow> None
                | Some ss \<Rightarrow> each_node shutdown_node ss)))"

section \<open>The whole supervisor\<close>

text \<open>
  A \<open>return\<close> destroys the vector of timers; a \<open>std::thread\<close> that is destroyed while it is joinable
  terminates the process.
\<close>

datatype raft_outcome = Cluster_Stopped "supervised list" | Process_Terminated

definition leave_early :: "thread_at list \<Rightarrow> supervised list \<Rightarrow> raft_outcome" where
  "leave_early timers ss =
     (if \<exists>t \<in> set timers. t \<noteq> Not_Started then Process_Terminated else Cluster_Stopped ss)"

record supervision =
  seen_nodes :: "nat \<Rightarrow> RaftNode list"
  elapsed :: "nat \<Rightarrow> int"
  stop_flag :: "nat \<Rightarrow> bool"
  at_shutdown :: "supervised list"
  shutdown_time :: int

definition raftAlgorithm :: "supervision \<Rightarrow> raft_outcome option" where
  "raftAlgorithm env =
     (case await_leader (seen_nodes env) (elapsed env) 0 of
        None \<Rightarrow> None
      | Some None \<Rightarrow>
          Some (leave_early (map timer_thread (at_shutdown env)) (at_shutdown env))
      | Some (Some leader) \<Rightarrow>
          (case await_shutdown (stop_flag env) 0 of
             None \<Rightarrow> None
           | Some k \<Rightarrow>
               map_option Cluster_Stopped (shutdown_cluster (shutdown_time env) (at_shutdown env))))"

section \<open>Accepting connections\<close>

datatype accepted =
    Connection int
  | Nothing_Yet     \<comment> \<open>\<open>EWOULDBLOCK\<close>\<close>
  | Interrupted     \<comment> \<open>\<open>EINTR\<close>\<close>
  | Accept_Failed
  | Blocks          \<comment> \<open>no connection ever comes: a blocking \<open>accept\<close> does not return\<close>

text \<open>
  The loop of \<open>startRaftRPCServer\<close>, whose socket does not block; the last argument collects the
  connections that were given a thread.
\<close>

partial_function (option) rpc_accept_loop ::
  "(nat \<Rightarrow> bool) \<Rightarrow> (nat \<Rightarrow> accepted) \<Rightarrow> nat \<Rightarrow> int list \<Rightarrow> int list option" where
  "rpc_accept_loop stop acc k spawned =
     (if stop k then Some spawned
      else
        (case acc k of
           Connection c \<Rightarrow> rpc_accept_loop stop acc (k + 1) (spawned @ [c])
         | _ \<Rightarrow> rpc_accept_loop stop acc (k + 1) spawned))"

datatype listening = Socket_Fails | Bind_Fails int | Listen_Fails int | Listens int

text \<open>The result: \<open>node->serverSocket\<close>, which keeps a closed descriptor when the set-up fails.\<close>

definition startRaftRPCServer ::
  "listening \<Rightarrow> (nat \<Rightarrow> bool) \<Rightarrow> (nat \<Rightarrow> accepted) \<Rightarrow> int \<Rightarrow> (int \<times> int list) option" where
  "startRaftRPCServer setup stop acc serverSock =
     (case setup of
        Socket_Fails \<Rightarrow> Some (serverSock, [])
      | Bind_Fails fd \<Rightarrow> Some (fd, [])
      | Listen_Fails fd \<Rightarrow> Some (fd, [])
      | Listens fd \<Rightarrow> map_option (Pair (- 1)) (rpc_accept_loop stop acc 0 []))"

text \<open>
  The loop of \<open>start_server\<close> blocks; \<open>stop k\<close> is the flag before the \<open>k\<close>-th \<open>accept\<close>, \<open>stop' k\<close>
  after it failed.
\<close>

partial_function (option) server_accept_loop ::
  "(nat \<Rightarrow> bool) \<Rightarrow> (nat \<Rightarrow> bool) \<Rightarrow> (nat \<Rightarrow> accepted) \<Rightarrow> nat \<Rightarrow> int list \<Rightarrow> int list option" where
  "server_accept_loop stop stop' acc k clients =
     (if stop k then Some clients
      else
        (case acc k of
           Connection c \<Rightarrow> server_accept_loop stop stop' acc (k + 1) (clients @ [c])
         | Blocks \<Rightarrow> None
         | _ \<Rightarrow> if stop' k then Some clients
                else server_accept_loop stop stop' acc (k + 1) clients))"

definition start_server ::
  "listening \<Rightarrow> (nat \<Rightarrow> bool) \<Rightarrow> (nat \<Rightarrow> bool) \<Rightarrow> (nat \<Rightarrow> accepted) \<Rightarrow> int list option" where
  "start_server setup stop stop' acc =
     (case setup of Listens fd \<Rightarrow> server_accept_loop stop stop' acc 0 [] | _ \<Rightarrow> Some [])"

text \<open>\<open>main\<close> joins both threads; a terminated process ends at once.\<close>

datatype process_end = Exits | Aborts

definition main_process :: "int list option \<Rightarrow> raft_outcome option \<Rightarrow> process_end option" where
  "main_process server raft =
     (case raft of
        Some Process_Terminated \<Rightarrow> Some Aborts
      | Some (Cluster_Stopped ss) \<Rightarrow> (if server = None then None else Some Exits)
      | None \<Rightarrow> None)"

text \<open>The connections among the first results of \<open>accept\<close>, in order.\<close>

definition connections :: "(nat \<Rightarrow> accepted) \<Rightarrow> nat \<Rightarrow> nat \<Rightarrow> int list" where
  "connections acc k m =
     List.map_filter (\<lambda>j. case acc j of Connection c \<Rightarrow> Some c | _ \<Rightarrow> None) [k..<m]"

lemma connections_step:
  "k < m \<Longrightarrow> connections acc k m =
    (case acc k of Connection c \<Rightarrow> [c] | _ \<Rightarrow> []) @ connections acc (k + 1) m"
  by (simp add: connections_def upt_conv_Cons map_filter_simps split: accepted.split)

text \<open>Every connection accepted before the flag is seen is handed to a thread, once and in order.\<close>

lemma rpc_accept_loop_returns:
  assumes "stop m" "\<forall>j. k \<le> j \<and> j < m \<longrightarrow> \<not> stop j" "k \<le> m"
  shows "rpc_accept_loop stop acc k spawned = Some (spawned @ connections acc k m)"
  using assms
proof (induction "m - k" arbitrary: k spawned)
  case 0
  then have "k = m" by simp
  then show ?case using assms(1) by (simp add: rpc_accept_loop.simps connections_def map_filter_simps)
next
  case (Suc d)
  then have "k < m" by simp
  moreover from this have "\<not> stop k" using Suc.prems(2) by blast
  moreover have "rpc_accept_loop stop acc (k + 1) sp = Some (sp @ connections acc (k + 1) m)" for sp
    using Suc.hyps(1) [of "k + 1" sp] Suc.hyps(2) Suc.prems by simp
  ultimately show ?case
    using connections_step [of k m acc]
    by (subst rpc_accept_loop.simps) (simp split: accepted.split)
qed

section \<open>The wait for a leader\<close>

lemma await_leader_found:
  assumes "\<forall>j. k \<le> j \<and> j \<le> m \<longrightarrow> clock j < 11000" "\<forall>j. k \<le> j \<and> j < m \<longrightarrow> find (\<lambda>n. state n = LEADER) (obs j) = None"
    and "find (\<lambda>n. state n = LEADER) (obs m) = Some n" "k \<le> m"
  shows "await_leader obs clock k = Some (Some (node_id n))"
  using assms
proof (induction "m - k" arbitrary: k)
  case 0
  then have "k = m" by simp
  then show ?case using 0 by (subst await_leader.simps) auto
next
  case (Suc d)
  then have "await_leader obs clock (k + 1) = Some (Some (node_id n))" by simp
  moreover have "find (\<lambda>n. state n = LEADER) (obs k) = None" "clock k < 11000"
    using Suc.prems Suc.hyps(2) by auto
  ultimately show ?case by (subst await_leader.simps) auto
qed

lemma await_leader_gives_up:
  assumes "\<forall>j. k \<le> j \<and> j < m \<longrightarrow> find (\<lambda>n. state n = LEADER) (obs j) = None" "11000 \<le> clock m" "k \<le> m"
  shows "await_leader obs clock k = Some None"
  using assms
proof (induction "m - k" arbitrary: k)
  case 0
  then have "k = m" by simp
  then show ?case using 0 by (subst await_leader.simps) auto
next
  case (Suc d)
  then have "await_leader obs clock (k + 1) = Some None" by simp
  moreover have "find (\<lambda>n. state n = LEADER) (obs k) = None" using Suc.prems Suc.hyps(2) by auto
  ultimately show ?case by (subst await_leader.simps) auto
qed

lemma await_shutdown_hangs:
  assumes "\<forall>k. \<not> flag k" shows "await_shutdown flag k = None"
proof (rule ccontr)
  assume "await_shutdown flag k \<noteq> None"
  then obtain r where "await_shutdown flag k = Some r" by blast
  then have "flag r"
    by (rule await_shutdown.raw_induct [where P = "\<lambda>flag k r. flag r", rotated])
      (auto split: if_splits)
  then show False using assms by blast
qed

section \<open>The shutdown of the nodes\<close>

lemma each_node_Some: "each_node f xs = Some ys \<longleftrightarrow> list_all2 (\<lambda>x y. f x = Some y) xs ys"
proof (induction xs arbitrary: ys)
  case Nil
  then show ?case by (cases ys) auto
next
  case (Cons x xs)
  then show ?case by (cases ys) (auto split: option.splits)
qed

lemma each_node_None: "each_node f xs = None \<longleftrightarrow> (\<exists>x \<in> set xs. f x = None)"
  by (induction xs) (auto split: option.splits)

lemma each_node_map: "(\<And>x. x \<in> set xs \<Longrightarrow> f x = Some (g x)) \<Longrightarrow> each_node f xs = Some (map g xs)"
  by (induction xs) auto

text \<open>Nobody holds a mutex for ever, and no thread waits for one.\<close>

definition unblocked :: "supervised \<Rightarrow> bool" where
  "unblocked s \<longleftrightarrow>
     \<not> mtxHeld (sup_node s) \<and> timer_thread s \<noteq> Stuck \<and> heartbeat_thread s \<noteq> Stuck \<and>
     rpc_thread s \<noteq> Stuck"

text \<open>A node that is down: the flags are set, the threads are joined, log and metadata are as before.\<close>

definition is_down :: "supervised \<Rightarrow> supervised \<Rightarrow> bool" where
  "is_down s s' \<longleftrightarrow>
     shutdownRequested (sup_node s') \<and> stopTimer (sup_node s') \<and> stopRPC (sup_node s') \<and>
     \<not> runningHeartbeats (sup_node s') \<and>
     {timer_thread s', heartbeat_thread s', rpc_thread s'} \<subseteq> {Not_Started, Finished} \<and>
     log (sup_node s') = log (sup_node s) \<and> metadataFile (sup_node s') = metadataFile (sup_node s)"

definition after_join :: "thread_at \<Rightarrow> thread_at" where
  "after_join t = (if t = Not_Started then Not_Started else Finished)"

lemma join_thread_ends: "t \<noteq> Stuck \<Longrightarrow> join_thread True t = Some (after_join t)"
  by (cases t) (simp_all add: join_thread_def after_join_def)

definition stopped_node :: "RaftNode \<Rightarrow> RaftNode" where
  "stopped_node n =
     n\<lparr>shutdownRequested := True, stopTimer := True, runningHeartbeats := False, stopRPC := True\<rparr>"

lemma shutdown_cluster_unblocked:
  assumes "\<forall>s \<in> set ss. unblocked s"
  shows "shutdown_cluster now ss = Some (map (\<lambda>s. s\<lparr>sup_node := (stopped_node (sup_node s))\<lparr>serverSocket := - 1\<rparr>,
    timer_thread := after_join (timer_thread s), heartbeat_thread := after_join (heartbeat_thread s),
    rpc_thread := after_join (rpc_thread s)\<rparr>) ss)"
proof -
  have 1: "each_node (on_node request_stop) ss = Some (map (\<lambda>s. s\<lparr>sup_node := stopped_node (sup_node s)\<rparr>) ss)"
    using assms
    by (intro each_node_map) (auto simp: on_node_def request_stop_def unblocked_def stopped_node_def)
  have 2: "each_node (on_node wake_timer) (map (\<lambda>s. s\<lparr>sup_node := stopped_node (sup_node s)\<rparr>) ss) =
      Some (map (\<lambda>s. s) (map (\<lambda>s. s\<lparr>sup_node := stopped_node (sup_node s)\<rparr>) ss))"
    using assms
    by (intro each_node_map) (auto simp: on_node_def wake_timer_def unblocked_def stopped_node_def)
  have 3: "each_node (join_timer now) (map (\<lambda>s. s\<lparr>sup_node := stopped_node (sup_node s)\<rparr>) ss) =
      Some (map (\<lambda>s. s\<lparr>timer_thread := after_join (timer_thread s)\<rparr>)
        (map (\<lambda>s. s\<lparr>sup_node := stopped_node (sup_node s)\<rparr>) ss))"
    using assms
    by (intro each_node_map)
      (auto simp: join_timer_def timer_round_def unblocked_def stopped_node_def join_thread_ends)
  have 4: "each_node shutdown_node (map (\<lambda>s. s\<lparr>timer_thread := after_join (timer_thread s)\<rparr>)
        (map (\<lambda>s. s\<lparr>sup_node := stopped_node (sup_node s)\<rparr>) ss)) =
      Some (map (\<lambda>s. s\<lparr>sup_node := (sup_node s)\<lparr>serverSocket := - 1\<rparr>,
          heartbeat_thread := after_join (heartbeat_thread s), rpc_thread := after_join (rpc_thread s)\<rparr>)
        (map (\<lambda>s. s\<lparr>timer_thread := after_join (timer_thread s)\<rparr>)
          (map (\<lambda>s. s\<lparr>sup_node := stopped_node (sup_node s)\<rparr>) ss)))"
    using assms
    by (intro each_node_map)
      (auto simp: shutdown_node_def shutdownNode_def unblocked_def stopped_node_def join_thread_ends)
  show ?thesis using 1 2 3 4 by (simp add: shutdown_cluster_def comp_def)
qed

section \<open>Properties\<close>


definition demo_supervised :: supervised where
  "demo_supervised =
     \<lparr>sup_node = demo_leader [], timer_thread = Loops, heartbeat_thread = Loops, rpc_thread = Loops\<rparr>"


text \<open>
  C18: One deadlocked node keeps the process alive for ever.  Once an AppendEntries has made a node
  step down, its mutex stays held, so the shutdown that \<open>EXIT-RAFT\<close> asks for never gets past that
  node: \<open>raftAlgorithm\<close> does not return and neither does \<open>main\<close>.
\<close>

theorem deadlocked_node_blocks_exit:
  assumes "handle_AppendEntries now rnd r n s = (n', s', reply)"
    and "steps_down r n" "\<not> receivingSnapshot n"
    and "n' \<in> sup_node ` set (at_shutdown env)"
    and "await_leader (seen_nodes env) (elapsed env) 0 = Some (Some l)"
  shows "main_process server (raftAlgorithm env) = None"
proof -
  have "mtxHeld n'" by (rule handle_AE_hang(2) [OF _ assms(1)]) (use assms(2,3) in simp)
  then have "\<exists>x \<in> set (at_shutdown env). on_node request_stop x = None"
    using assms(4) by (auto simp: on_node_def request_stop_def)
  then have "shutdown_cluster t (at_shutdown env) = None" for t
    unfolding shutdown_cluster_def each_node_None [symmetric] by simp
  then show ?thesis using assms(5) by (simp add: raftAlgorithm_def main_process_def split: option.split)
qed

theorem deadlocked_node_blocks_exit_witness:
  "\<exists>env. stop_flag env 0 \<and> main_process (Some []) (raftAlgorithm env) = None"
proof -
  let ?r = "\<lparr>ae_term = 2, ae_leaderId = 1, ae_prevLogIndex = - 1, ae_prevLogTerm = 0, ae_entries = [],
    ae_leaderCommit = 0\<rparr>"
  obtain n' s' reply where h: "handle_AppendEntries 0 0 ?r (demo_leader []) empty_store = (n', s', reply)"
    using prod_cases3 by blast
  let ?env = "\<lparr>seen_nodes = \<lambda>k. [demo_leader []], elapsed = \<lambda>k. 100 * (int k + 1), stop_flag = \<lambda>k. True,
    at_shutdown = [demo_supervised\<lparr>sup_node := n'\<rparr>], shutdown_time = 0\<rparr>"
  have "await_leader (seen_nodes ?env) (elapsed ?env) 0 = Some (Some (node_id (demo_leader [])))"
    by (rule await_leader_found [where m = 0]) (simp_all add: demo_leader_defs)
  then have "main_process (Some []) (raftAlgorithm ?env) = None"
    by (intro deadlocked_node_blocks_exit [OF h])
      (simp_all add: steps_down_def demo_leader_defs)
  then show ?thesis by (intro exI [of _ ?env]) simp
qed

text \<open>
  C19: A cluster that elects no leader in its first seconds takes the process down: each pass sleeps
  at least 100 ms, so after at most 110 of them \<open>raftAlgorithm\<close> returns while its timer threads
  are joinable, and destroying them terminates the process, the command line server included.
\<close>

theorem leaderless_start_aborts:
  assumes "\<forall>k. \<forall>n \<in> set (seen_nodes env k). state n \<noteq> LEADER"
    and "\<forall>k. 100 * (int k + 1) \<le> elapsed env k"
    and "\<exists>s \<in> set (at_shutdown env). timer_thread s \<noteq> Not_Started"
  shows "main_process server (raftAlgorithm env) = Some Aborts"
proof -
  have none: "find (\<lambda>n. state n = LEADER) (seen_nodes env k) = None" for k
    using assms(1) by (simp add: find_None_iff)
  have "11000 \<le> elapsed env 109" using assms(2) [rule_format, of 109] by simp
  then have "await_leader (seen_nodes env) (elapsed env) 0 = Some None"
    using none by (intro await_leader_gives_up [where m = 109]) simp_all
  then show ?thesis
    using assms(3) by (auto simp: raftAlgorithm_def main_process_def leave_early_def)
qed

theorem leaderless_start_aborts_witness:
  "main_process None (raftAlgorithm
    \<lparr>seen_nodes = \<lambda>k. [demo_node], elapsed = \<lambda>k. 100 * (int k + 1), stop_flag = \<lambda>k. False,
      at_shutdown = [demo_supervised\<lparr>sup_node := demo_node\<rparr>], shutdown_time = 0\<rparr>) = Some Aborts"
  by (rule leaderless_start_aborts)
    (simp_all add: demo_node_def RaftNode_new_def demo_supervised_def)

text \<open>A metadata file that does not parse keeps the cluster from starting.\<close>

lemma unparsable_metadata_throws:
  "boot_meta b = Unparsable \<Longrightarrow> boot_cluster (b # bs) s = Inl Json_Error"
  by (simp add: boot_cluster_def boot_node_def loadMetadata_def RaftNode_new_def)

end
