(* ===== verification/Logger_Model.thy ===== *)
theory Logger_Model
  imports Metrics_Model Text_Stream
begin

text \<open>
  The class \<open>Logger\<close> of \<open>logger.h\<close> with its static members: threshold, console and file.  The
  console is the list of the lines written, a file is its contents.  Which files can be opened and
  how a date is printed are parameters.
\<close>

section \<open>State\<close>

text \<open>
  \<open>log_file\<close> is the file the stream is open on.  A stream that is opened again while it is open sets
  its \<open>failbit\<close> and stays open on the old file; what is written after that is lost.
\<close>

record logger =
  min_level :: LogLevel
  log_file :: "string option"
  file_failed :: bool
  log_to_file :: bool
  log_to_console :: bool
  console :: "string list"
  errors :: "string list"
  files :: "string \<Rightarrow> string"

definition new_logger :: logger where
  "new_logger =
     \<lparr>min_level = INFO, log_file = None, file_failed = False, log_to_file = False,
      log_to_console = True, console = [], errors = [], files = \<lambda>f. []\<rparr>"

section \<open>Operations\<close>

definition pad_left :: "nat \<Rightarrow> char \<Rightarrow> string \<Rightarrow> string" where
  "pad_left w c s = replicate (w - length s) c @ s"

text \<open>\<open>t\<close> is the system clock in milliseconds, \<open>date\<close> prints a number of seconds.\<close>

definition getCurrentTimestamp :: "(int \<Rightarrow> string) \<Rightarrow> int \<Rightarrow> string" where
  "getCurrentTimestamp date t =
     date (t div 1000) @ ''.'' @ pad_left 3 (CHR ''0'') (to_string (t mod 1000))"

definition escape :: "string \<Rightarrow> string" where
  "escape s = char_of (27::nat) # s"

fun getColorCode :: "LogLevel \<Rightarrow> string" where
  "getColorCode DEBUG = escape ''[36m''"
| "getColorCode INFO = escape ''[32m''"
| "getColorCode WARN = escape ''[33m''"
| "getColorCode ERROR = escape ''[31m''"

definition write_file :: "string \<Rightarrow> logger \<Rightarrow> logger" where
  "write_file s g =
     (case log_file g of
        None \<Rightarrow> g
      | Some f \<Rightarrow> if file_failed g then g else g\<lparr>files := (files g)(f := files g f @ s)\<rparr>)"

definition Logger_log ::
  "string \<Rightarrow> LogLevel \<Rightarrow> string \<Rightarrow> int \<Rightarrow> string \<Rightarrow> int \<Rightarrow> logger \<Rightarrow> logger" where
  "Logger_log stamp level message nodeId role trm g =
     (case log_line (min_level g) stamp level message nodeId role trm of
        None \<Rightarrow> g
      | Some line \<Rightarrow>
          (let g = (if log_to_console g
                    then g\<lparr>console := console g @ [getColorCode level @ line @ escape ''[0m'']\<rparr> else g)
           in if log_to_file g \<and> log_file g \<noteq> None then write_file (line @ [newline]) g else g))"

definition Logger_init :: "(string \<Rightarrow> bool) \<Rightarrow> string \<Rightarrow> LogLevel \<Rightarrow> logger \<Rightarrow> logger" where
  "Logger_init openable filename level g =
     (let g = g\<lparr>min_level := level, log_to_console := True\<rparr>
      in if filename = [] then g\<lparr>log_to_file := False\<rparr>
         else
           (let g = (case log_file g of
                       Some f \<Rightarrow> g\<lparr>file_failed := True\<rparr>
                     | None \<Rightarrow>
                         if openable filename then g\<lparr>log_file := Some filename, file_failed := False\<rparr>
                         else g\<lparr>file_failed := True\<rparr>);
                g = g\<lparr>log_to_file := log_file g \<noteq> None\<rparr>
            in if \<not> log_to_file g
               then g\<lparr>errors := errors g @ [''Failed to open log file: '' @ filename]\<rparr> else g))"

definition Logger_close :: "logger \<Rightarrow> logger" where
  "Logger_close g = g\<lparr>log_file := None\<rparr>"

definition Logger_setLevel :: "LogLevel \<Rightarrow> logger \<Rightarrow> logger" where
  "Logger_setLevel level g = g\<lparr>min_level := level\<rparr>"

definition Logger_setConsoleLogging :: "bool \<Rightarrow> logger \<Rightarrow> logger" where
  "Logger_setConsoleLogging enable g = g\<lparr>log_to_console := enable\<rparr>"

text \<open>
  The methods: without a node, with node, role and term, and with the node alone.  What is left
  out has the default \<open>-1\<close>, the empty string and \<open>-1\<close>.
\<close>

definition Logger_plain :: "LogLevel \<Rightarrow> string \<Rightarrow> string \<Rightarrow> logger \<Rightarrow> logger" where
  "Logger_plain level stamp message = Logger_log stamp level message (- 1) [] (- 1)"

definition Logger_node ::
  "LogLevel \<Rightarrow> string \<Rightarrow> int \<Rightarrow> string \<Rightarrow> int \<Rightarrow> string \<Rightarrow> logger \<Rightarrow> logger" where
  "Logger_node level stamp nodeId role trm message = Logger_log stamp level message nodeId role trm"

definition Logger_id :: "LogLevel \<Rightarrow> string \<Rightarrow> int \<Rightarrow> string \<Rightarrow> logger \<Rightarrow> logger" where
  "Logger_id level stamp nodeId message = Logger_log stamp level message nodeId [] (- 1)"

section \<open>What ends up in the file\<close>

record log_call =
  call_stamp :: string
  call_level :: LogLevel
  call_message :: string
  call_node :: int
  call_role :: string
  call_term :: int

definition call_line :: "LogLevel \<Rightarrow> log_call \<Rightarrow> string option" where
  "call_line lo c =
     log_line lo (call_stamp c) (call_level c) (call_message c) (call_node c) (call_role c) (call_term c)"

definition log_calls :: "log_call list \<Rightarrow> logger \<Rightarrow> logger" where
  "log_calls cs g =
     fold (\<lambda>c. Logger_log (call_stamp c) (call_level c) (call_message c) (call_node c) (call_role c)
       (call_term c)) cs g"

definition file_lines :: "LogLevel \<Rightarrow> log_call list \<Rightarrow> string" where
  "file_lines lo cs = concat (map (\<lambda>l. l @ [newline]) (List.map_filter (call_line lo) cs))"

definition console_lines :: "LogLevel \<Rightarrow> log_call list \<Rightarrow> string list" where
  "console_lines lo cs =
     List.map_filter (\<lambda>c. map_option (\<lambda>l. getColorCode (call_level c) @ l @ escape ''[0m'')
       (call_line lo c)) cs"

lemma lines_Cons:
  "file_lines lo (c # cs) = file_lines lo [c] @ file_lines lo cs"
  "console_lines lo (c # cs) = console_lines lo [c] @ console_lines lo cs"
  by (simp_all add: file_lines_def console_lines_def map_filter_simps split: option.split)

lemma log_call_effect:
  assumes "log_file g = Some f" "\<not> file_failed g" "log_to_file g" "log_to_console g"
  shows "log_calls [c] g =
    g\<lparr>files := (files g)(f := files g f @ file_lines (min_level g) [c]),
      console := console g @ console_lines (min_level g) [c]\<rparr>"
  using assms
  by (auto simp: log_calls_def Logger_log_def call_line_def file_lines_def console_lines_def
      write_file_def Let_def map_filter_simps split: option.splits)

text \<open>
  The file holds the lines that pass the threshold, in the order of the calls and without colours;
  the console shows the same lines.
\<close>

lemma log_calls_effect:
  assumes "log_file g = Some f" "\<not> file_failed g" "log_to_file g" "log_to_console g"
  shows "log_calls cs g =
    g\<lparr>files := (files g)(f := files g f @ file_lines (min_level g) cs),
      console := console g @ console_lines (min_level g) cs\<rparr>"
  using assms
proof (induction cs arbitrary: g)
  case Nil
  then show ?case by (simp add: log_calls_def file_lines_def console_lines_def map_filter_simps)
next
  case (Cons c cs)
  let ?g = "g\<lparr>files := (files g)(f := files g f @ file_lines (min_level g) [c]),
      console := console g @ console_lines (min_level g) [c]\<rparr>"
  have "log_calls (c # cs) g = log_calls cs ?g"
    using log_call_effect [OF Cons.prems] by (simp add: log_calls_def)
  also have "\<dots> = ?g\<lparr>files := (files ?g)(f := files ?g f @ file_lines (min_level ?g) cs),
      console := console ?g @ console_lines (min_level ?g) cs\<rparr>"
    by (rule Cons.IH) (use Cons.prems in simp_all)
  finally show ?case by (simp add: lines_Cons [of _ c cs] fun_upd_def cong: if_cong)
qed

text \<open>A second \<open>init\<close> without \<open>close\<close> silences the file although \<open>log_to_file\<close> stays set.\<close>

lemma second_init_silences:
  assumes "log_file g = Some f" "filename \<noteq> []"
  shows "files (log_calls cs (Logger_init openable filename level g)) = files g"
proof -
  have "files (Logger_log a b c d r t h) = files h \<and> file_failed (Logger_log a b c d r t h)"
    if "file_failed h" for a b c d r t h
    using that by (auto simp: Logger_log_def write_file_def Let_def split: option.splits)
  then have "file_failed h \<Longrightarrow> files (log_calls cs h) = files h" for h
    by (induction cs arbitrary: h) (auto simp: log_calls_def)
  then show ?thesis using assms by (simp add: Logger_init_def Let_def)
qed

end
