(* ===== verification/Spec2Isabelle.thy ===== *)
theory Spec2Isabelle
  imports Process_Restart Leader_Logs Lost_Write Shared_Store Thread_Loops Vote_Race Supervisor
    Logger_Model
begin

text \<open>
  A verification library for the key-value store under \<open>src/src\<close>: a process that runs a Raft
  cluster of three nodes, their common store with its write-ahead log, and a text server for users.

  \<^bold>\<open>The program.\<close>  \<open>main.cpp\<close> starts two threads.  \<open>raftAlgorithm\<close> (\<open>raft_node.cpp\<close>) creates three
  nodes; each owns a log, a role and its Raft metadata, an RPC thread on port 5000, 5001 or 5002
  (\<open>rpc_server.cpp\<close>), an election timer, and while it leads a heartbeat thread.  The nodes talk
  JSON over sockets although they live in one process, and all of them apply their committed
  entries to the one global store of \<open>kvstore_global.h\<close>.  \<open>start_server\<close> (\<open>server.cpp\<close>) accepts
  users on port 4000: a line becomes a request that is sent to one node after the other until the
  leader has answered it.

  \<^bold>\<open>Theories, from the bottom up.\<close>

  \<^item> \<open>Prelude\<close>, \<open>Record_Stream\<close>, \<open>Text_Stream\<close>: bytes, integers as they lie in a file, exceptions as
    values; the contract of a file of records (locale \<open>record_stream\<close>); \<open>std::istringstream\<close>.
  \<^item> \<open>WAL\<close> (\<open>log_entry.h\<close>, \<open>wal.cpp\<close>) and \<open>KVStore\<close> (\<open>kvstore.cpp\<close>): the log file and its
    cache, append, load and truncation; the map, its logged operations, and the constructor that
    replays the log.  The contracts are the locales \<open>record_stream\<close>, \<open>command_log\<close> and
    \<open>map_store\<close>, interpreted as \<open>wal_file\<close>, \<open>wal_log\<close> and \<open>kv\<close>.
  \<^item> \<open>Base64\<close> (\<open>decode_encodebase64.cpp\<close>): codec with its shift registers kept as words, against
    the encoding of RFC 4648.
  \<^item> \<open>Metrics_Model\<close> (\<open>metrics.h\<close>), \<open>Logger_Model\<close> (\<open>logger.h\<close>): counters, their report as a
    table, and the logger with its console and its file.
  \<^item> \<open>Raft_Node\<close>, \<open>Raft_Log\<close>, \<open>Apply_Loop\<close> (\<open>raft_node.h\<close>, \<open>raft_node.cpp\<close>, \<open>snapshot.cpp\<close>,
    \<open>persist_functions.cpp\<close>): the record \<open>RaftNode\<close> with the members of the class, the log behind
    a snapshot and its abstract view \<open>entry_at\<close>, role changes, files, and the loop that feeds
    committed commands to the store.
  \<^item> \<open>Election\<close>: the RequestVote handler and \<open>start_election\<close>, cut where other threads may run.
    \<open>Replication\<close>, \<open>Replication_Facts\<close>: the AppendEntries handler.  \<open>Snapshot_Stream\<close>,
    \<open>Snapshot_Transfer\<close>, \<open>Transfer_Facts\<close>: serialised snapshots, the chunk loop of the leader, the
    InstallSnapshot handler.  \<open>Client\<close>, \<open>Client_Facts\<close>: \<open>handleClientCommand\<close>.  \<open>Heartbeat\<close>,
    \<open>Catch_Up\<close>: \<open>send_heartbeats\<close> and its convergence.
  \<^item> \<open>Vote_Race\<close>: handlers and client commands interrupted between a test and the write it guards.
  \<^item> \<open>Json\<close>, \<open>Rpc_Server\<close>, \<open>Rpc_Facts\<close>: the codecs of all messages and \<open>handle_node_client\<close>.
  \<^item> \<open>Command_Line\<close>, \<open>Cli_Requests\<close>, \<open>Screens\<close>, \<open>Cli_Session\<close>, \<open>Cli_Facts\<close> (\<open>server.cpp\<close>): the
    lexical part, \<open>sendClientRequest\<close>, the screens, \<open>handle_client\<close>, and what they guarantee.
  \<^item> \<open>Log_Match\<close>: log matching for two logs, and what a batch cut out of one does to the other.
    \<open>Thread_Loops\<close>: the threads \<open>election_timer\<close> and \<open>send_heartbeats\<close> from start to end.
    \<open>Lost_Write\<close>: leader and followers put together where an acknowledged command is lost.
  \<^item> \<open>Leader_Sessions\<close>: the service a leader implements for its clients, over any sequence of
    requests (record \<open>service\<close>, relation \<open>serves\<close>; the locale \<open>simulation\<close>, interpreted as
    \<open>leader\<close>, lifts one request to a run).  \<open>Shared_Store\<close>: what the one store of the process does to
    that service when a follower catches up.  \<open>Process_Restart\<close>: request numbers across a restart.
  \<^item> \<open>Cluster_Election\<close>, \<open>Cluster_Rely\<close>, \<open>Cluster_Log\<close>, \<open>Leader_Logs\<close>: the cluster as a transition
    system, its steps being the operations above (\<open>election_step\<close>, \<open>protocol_step\<close>), up to log
    matching and leader completeness.
  \<^item> \<open>Supervisor\<close>: \<open>raftAlgorithm\<close> from the start of the nodes to their shutdown, the accept loops.

  \<^bold>\<open>State.\<close>  \<open>RaftNode\<close> has the members of the C++ class under their names; \<open>mtxHeld\<close> says that the
  non-recursive \<open>mtx\<close> is held for good, \<open>metadataFile\<close> and \<open>snapshotFile\<close> are the files of the
  node.  The store is passed beside the node, since the nodes share it.  \<open>cli_state\<close> is a
  connection's history and counters together with the bytes sent so far and the world it talks to;
  \<open>cluster\<close> is the list of nodes with the threads that stand for election.  Errors are values:
  \<open>cpp_exn\<close> in a sum, \<open>None\<close> for an operation that waits for a mutex for ever, constructors such as
  \<open>Terminated\<close> or \<open>Crashes\<close> for a process that is gone.

  \<^bold>\<open>What the lemmas show.\<close>  Storage: a log file is read back whatever was appended, also when it is
  cut at any byte; a reopened store is the store that was shut down.  Log: the accessors read one
  global log, a snapshot does not change it.  Votes: one vote per term, durable before the answer;
  in the cluster one winner per term, logs that match, and leaders that have what a majority has
  saved.  Replication: what an accepted batch
  leaves behind, when the handler returns at all, what a majority acknowledged, and that a live
  follower catches up.  Clients: a leader refines a service with one map, a queue of refused
  commands and a memory of each client's last request.  Wire: every message is read back as it was, and a request as text has the
  effect of the call.  Users: what a typed line does to the store, which lines end the process,
  which loops do not end.

  \<^bold>\<open>Termination.\<close>  No definition uses fuel.  Loops that end are functions with a termination proof
  (\<open>load_entries\<close>, \<open>apply_loop\<close>, \<open>send_chunks\<close>, \<open>emit_sextets\<close>, \<open>pad_loop\<close>,
  \<open>key_value_loop\<close>); loops that may not end are \<open>partial_function (option)\<close>, \<open>None\<close> being no
  return (\<open>election_timer\<close>, \<open>heartbeat_loop\<close>, \<open>request_loop\<close>, \<open>watch_loop\<close>, \<open>await_leader\<close>,
  \<open>await_shutdown\<close>, \<open>rpc_accept_loop\<close>, \<open>server_accept_loop\<close>), with a theorem that they return, or
  that they do not.

  \<^bold>\<open>Bounds.\<close>  One \<open>recv\<close> delivers at most 8191 bytes to a node and 65535 to a client; a batch has at
  most 20 entries, a chunk at most 512 bytes, a snapshot is due at 3000 entries.  Counters are
  unbounded integers: the theorems hold as long as no \<open>int\<close> overflows, which would be undefined.
  Where an integer meets a file or the wire it has its 32 or 64 bits.

  \<^bold>\<open>Parameters.\<close>  The parser and the printer of the JSON library (\<open>parse\<close>, \<open>dump\<close>, with
  \<open>carries parse dump k j\<close>: the text of \<open>j\<close> fits \<open>k\<close> bytes and parses to \<open>j\<close>), memory allocation
  (\<open>alloc\<close>), uninitialised bytes (\<open>junk\<close>), the network, clocks, \<open>rand()\<close>, and the input that is
  polled while \<open>WATCH\<close> runs.

  \<^bold>\<open>Atomicity.\<close>  A handler is one step unless a theory says otherwise.  \<open>start_election\<close> is cut at every
  exchange, the cluster theories interleave handlers, messages, restarts and local activities of
  all nodes, and \<open>Vote_Race\<close> cuts the RequestVote handler and the append of a client command, which
  the code does not protect.  Sequential consistency is assumed: data races on plain members are
  undefined behaviour in C++ and not modelled.

  \<^bold>\<open>Not modelled.\<close>  System calls of the sockets (\<open>socket\<close>, \<open>bind\<close>, \<open>listen\<close>, address set-up), the
  dummy connection that wakes \<open>start_server\<close>, signals, the destruction of static objects, tests,
  and files the build generates.  The \<open>main\<close> function only starts and joins the two threads.

  \<^bold>\<open>What the proofs brought up.\<close>  An AppendEntries that makes its receiver step down waits for its own
  mutex for ever, and such a node also keeps the process from shutting down; the winner of an
  election does not look at its term again, and two handlers may give one vote twice; the first
  command is never applied; a batch whose first entry is present is dropped but acknowledged, so
  that a command can be acknowledged to the client when only the leader has it; a voter with a
  snapshot accepts an empty log; keys with an equals sign do not survive a restart; batches
  beyond 8191 bytes are never accepted; a follower that catches up takes the common store back to
  values that acknowledged writes had replaced; a command refused as not committed is executed
  later, and twice when it is sent again; request numbers start over with the process, so that a
  new command can be taken for a remembered one and swallowed; without a leader, requests and \<open>WATCH\<close> do not end, and after
  eleven seconds without one the process is terminated.
\<close>

section \<open>A command from the keyboard to the store\<close>



section \<open>A cluster without a leader\<close>

text \<open>
  C39: Without a leader a request never returns.  As long as none of the three nodes is leader and
  each believes that some node of the cluster is (an old leader that stepped down names itself),
  every answer is a redirect, no attempt is counted, and the connection hangs, whichever node is
  asked first.
\<close>

theorem leaderless_request_hangs:
  assumes "length ns = 3" "list_all redirecting ns"
    and "int32_range (request_number sock st)" "world st = (ns, s)"
    and "is_line (put_line k v)" "is_word k" "\<not> is_key_flag k" "plain_value v"
    and "carries parse dump 8191 (command_json ''PUT'' k v sock (request_number sock st))"
    and "carries parse dump 65535 (redirect_json 0)" "carries parse dump 65535 (redirect_json 1)"
      "carries parse dump 65535 (redirect_json 2)"
  shows "client_line (process_session parse dump renv r) sock (put_line k v @ [newline]) st = None"
proof -
  let ?msg = "command_json ''PUT'' k v sock (request_number sock st)"
  let ?env = "cli_env.truncate (process_session parse dump renv r)"
  define S where "S = (\<lambda>i w. 0 \<le> i \<and> i < int (length raft_nodes) \<and> length (fst w) = 3 \<and>
      list_all redirecting (fst (w :: RaftNode list \<times> KVStore)))"
  have three: "length raft_nodes = 3" by (simp add: raft_nodes_def)
  have ring: "redirects_within ?env ?msg S"
    unfolding redirects_within_def
  proof (intro allI impI conjI)
    fix i :: int and w assume S: "S i w"
    then show "0 \<le> i" "i < int (length raft_nodes)" by (simp_all add: S_def)
    obtain ms t where w: "w = (ms, t)" by fastforce
    have i: "nat i < length ms" "list_all redirecting ms" using S w three by (auto simp: S_def)
    then have n: "redirecting (ms ! nat i)" by (simp add: list_all_length)
    then have l: "leaderId (ms ! nat i) = 0 \<or> leaderId (ms ! nat i) = 1 \<or> leaderId (ms ! nat i) = 2"
      unfolding redirecting_def by linarith
    then have c: "carries parse dump 65535 (redirect_json (leaderId (ms ! nat i)))"
      using assms(10-12) by auto
    have "S (leaderId (ms ! nat i)) (ms[nat i := redirected (ms ! nat i)], t)"
      using S w three l i n by (auto simp: S_def list_all_length nth_list_update)
    then show "\<exists>w' k'. attempt_node ?env ?msg i w = (w', Redirected k') \<and> S k' w'"
      using redirect_attempt [OF _ _ n assms(3,9) c] S w by (auto simp: S_def)
  qed
  have "S (int (r mod length raft_nodes)) (ns, s)" using assms(1,2) three by (simp add: S_def)
  then have "request_loop ?env ?msg 0 (int (r mod length raft_nodes)) (ns, s) = None"
    using request_loop_diverges [OF ring] three by simp
  then show ?thesis
    using client_line_put [OF assms(5-8), of "process_session parse dump renv r" sock st] assms(4)
    by (simp add: ask_def sendClientRequest_def)
qed

theorem leaderless_request_hangs_witness:
  "client_line
     (process_session (wire_parse (command_json ''PUT'' ''k'' ''v'' 4 1)) wire_dump demo_process 0) 4
     (''PUT k v'' @ [newline])
     (fresh_state (replicate 3 (demo_node\<lparr>leaderId := 0\<rparr>), empty_store)) = None"
proof -
  let ?st = "fresh_state (replicate 3 (demo_node\<lparr>leaderId := 0\<rparr>), empty_store)"
  have line: "is_line (put_line ''k'' ''v'')" "is_word ''k''" "\<not> is_key_flag ''k''" "plain_value ''v''"
    by code_simp+
  have rid: "request_number 4 ?st = 1" by (simp add: request_number_def fresh_state_def)
  have "list_all redirecting (replicate 3 (demo_node\<lparr>leaderId := 0\<rparr>))"
    by (simp add: redirecting_def demo_node_def RaftNode_new_def numeral_3_eq_3)
  then show ?thesis
    using leaderless_request_hangs [of "replicate 3 (demo_node\<lparr>leaderId := 0\<rparr>)" 4 ?st empty_store
        "''k''" "''v''" "wire_parse (command_json ''PUT'' ''k'' ''v'' 4 1)" wire_dump demo_process 0]
      wire_carries line
    by (simp add: rid int32_range_def put_line_def) (simp add: fresh_state_def)
qed

end
